(* ===== verification/Prelude.thy ===== *)
theory Prelude
  imports Main "HOL-Library.Char_ord" "HOL-Library.List_Lexorder"
    "HOL-Library.Product_Lexorder" "HOL-Library.Sublist"
begin

text \<open>
  What the components share: the collections of facts the proofs are driven by, the
  iterator and string functions of Rust's standard library that the sources use
  (\<^verbatim>\<open>min_by_key\<close>, \<^verbatim>\<open>str::trim\<close>, \<^verbatim>\<open>str::split\<close>, \<^verbatim>\<open>split_once\<close>,
  \<^verbatim>\<open>rsplit_once\<close>, \<^verbatim>\<open>join\<close>, \<^verbatim>\<open>parse::<u64>\<close>), and generic lemmas on lists.

  Strings are lists of \<^typ>\<open>char\<close>, that is of bytes: the text the program splits,
  trims and compares (package names, versions, settings) is ASCII, for which Rust's
  byte order on \<^verbatim>\<open>str\<close> is the lexicographic order used here. White space is ASCII
  white space as \<^verbatim>\<open>char::is_whitespace\<close> has it.
\<close>

named_theorems db_simps \<open>unfolding a successful database program into its statements\<close>
named_theorems pres \<open>operations that keep an invariant of the tables\<close>
named_theorems clk \<open>programs that run within one reading of the clock\<close>
named_theorems rel \<open>programs that go through when the database is reachable\<close>

type_synonym id = int
type_synonym timestamp = int

section \<open>Machine integers\<close>

definition i32_MAX :: int where "i32_MAX = 2 ^ 31 - 1"
definition i64_MAX :: int where "i64_MAX = 2 ^ 63 - 1"
definition u64_MAX :: nat where "u64_MAX = 2 ^ 64 - 1"

section \<open>Choosing a least element\<close>

text \<open>
  \<^verbatim>\<open>Iterator::min_by_key\<close>: the first of the elements whose key is least, or \<open>None\<close>
  for an empty iterator.
\<close>

fun min_by_key :: "('a \<Rightarrow> 'k::linorder) \<Rightarrow> 'a list \<Rightarrow> 'a option" where
  "min_by_key f [] = None"
| "min_by_key f (x # xs) =
     (case min_by_key f xs of
        None \<Rightarrow> Some x
      | Some y \<Rightarrow> if f x \<le> f y then Some x else Some y)"

lemma min_by_key_None [simp]: "min_by_key f xs = None \<longleftrightarrow> xs = []"
  by (cases xs) (auto split: option.splits)

lemma min_by_key_mem: "min_by_key f xs = Some x \<Longrightarrow> x \<in> set xs"
  by (induction xs arbitrary: x) (auto split: option.splits if_splits)

lemma min_by_key_le: "min_by_key f xs = Some x \<Longrightarrow> y \<in> set xs \<Longrightarrow> f x \<le> f y"
proof (induction xs arbitrary: x y)
  case Nil
  then show ?case by simp
next
  case (Cons z zs)
  then show ?case
    by (cases "min_by_key f zs") (auto split: if_splits dest: order.trans)
qed

text \<open>
  The contract of a choice: it fails only when there is nothing to pick from, and what
  it chooses is a candidate no other candidate outranks. The components that rank
  (package status, dependency providers) use it through this interface.
\<close>

locale ranked_choice =
  fixes rank :: "'a \<Rightarrow> 'k::linorder"
    and pick :: "'a list \<Rightarrow> 'a option"
  assumes pick_None: "pick xs = None \<longleftrightarrow> xs = []"
    and pick_mem: "pick xs = Some x \<Longrightarrow> x \<in> set xs"
    and pick_least: "pick xs = Some x \<Longrightarrow> y \<in> set xs \<Longrightarrow> rank x \<le> rank y"
begin

lemma pick_ex: "xs \<noteq> [] \<Longrightarrow> \<exists>x. pick xs = Some x"
  using pick_None [of xs] by auto

lemma pick_unique_rank:
  assumes "inj_on rank (set xs)" and "set xs = set ys"
  shows "pick xs = pick ys"
proof (cases "pick xs")
  case None
  with assms pick_None show ?thesis by (metis set_empty)
next
  case (Some x)
  then have "ys \<noteq> []" using assms(2) pick_mem by fastforce
  then obtain y where y: "pick ys = Some y" using pick_ex by blast
  have "rank x \<le> rank y" "rank y \<le> rank x"
    using Some y assms(2) pick_mem pick_least by metis+
  then have "x = y" using assms Some y pick_mem by (metis antisym inj_onD)
  with Some y show ?thesis by simp
qed

lemma pick_singleton: "set xs = {x} \<Longrightarrow> pick xs = Some x"
  using pick_ex pick_mem by (metis empty_iff list.set(1) singletonD insertI1)

end

interpretation mbk: ranked_choice f "min_by_key f" for f :: "'a \<Rightarrow> 'k::linorder"
  by unfold_locales (simp, erule min_by_key_mem, erule min_by_key_le, assumption)

section \<open>Lists\<close>

lemma map_if_unchanged: "(\<And>x. x \<in> set xs \<Longrightarrow> \<not> P x) \<Longrightarrow> map (\<lambda>x. if P x then f x else x) xs = xs"
  by (induction xs) auto

lemma length_filter_pos: "0 < length (filter P xs) \<longleftrightarrow> (\<exists>x \<in> set xs. P x)"
  by (induction xs) auto

lemma length_filter_0: "length (filter P xs) = 0 \<longleftrightarrow> (\<forall>x \<in> set xs. \<not> P x)"
  by (induction xs) auto

lemma distinct_map_eq: "distinct (map f xs) \<Longrightarrow> x \<in> set xs \<Longrightarrow> y \<in> set xs \<Longrightarrow> f x = f y \<Longrightarrow> x = y"
  by (simp add: distinct_map inj_on_def)

lemma find_Some_mem: "find P xs = Some x \<Longrightarrow> x \<in> set xs \<and> P x"
  by (induction xs) (auto split: if_splits)

lemma find_unique:
  "(\<And>x y. x \<in> set xs \<Longrightarrow> y \<in> set xs \<Longrightarrow> P x \<Longrightarrow> P y \<Longrightarrow> x = y) \<Longrightarrow> x \<in> set xs \<Longrightarrow> P x \<Longrightarrow>
   find P xs = Some x"
  by (induction xs) auto

lemma filter_unique_length:
  "distinct (map f xs) \<Longrightarrow> length (filter (\<lambda>x. f x = k \<and> P x) xs) \<le> 1"
  by (induction xs) (auto simp: filter_empty_conv image_iff)

lemma filter_unique_one:
  assumes "distinct (map f xs)" "x \<in> set xs" "P x"
  shows "length (filter (\<lambda>y. f y = f x \<and> P y) xs) = 1"
proof -
  have "0 < length (filter (\<lambda>y. f y = f x \<and> P y) xs)"
    unfolding length_filter_pos using assms(2,3) by auto
  with filter_unique_length [OF assms(1), of "f x" P] show ?thesis by linarith
qed

section \<open>Strings\<close>

definition is_whitespace :: "char \<Rightarrow> bool" where
  "is_whitespace c \<longleftrightarrow> c = CHR '' '' \<or> (0x09 \<le> (of_char c :: nat) \<and> (of_char c :: nat) \<le> 0x0D)"

definition is_ascii_digit :: "char \<Rightarrow> bool" where
  "is_ascii_digit c \<longleftrightarrow> 48 \<le> (of_char c :: nat) \<and> (of_char c :: nat) \<le> 57"

definition trim_start :: "string \<Rightarrow> string" where
  "trim_start s = dropWhile is_whitespace s"

definition trim_end :: "string \<Rightarrow> string" where
  "trim_end s = rev (dropWhile is_whitespace (rev s))"

definition trim :: "string \<Rightarrow> string" where
  "trim s = trim_end (trim_start s)"

definition trimmed :: "string \<Rightarrow> bool" where
  "trimmed s \<longleftrightarrow> s = [] \<or> (\<not> is_whitespace (hd s) \<and> \<not> is_whitespace (last s))"

text \<open>\<^verbatim>\<open>str::split\<close> on one character: never empty, and \<open>[[]]\<close> for the empty string.\<close>

fun split_on :: "char \<Rightarrow> string \<Rightarrow> string list" where
  "split_on d [] = [[]]"
| "split_on d (c # cs) =
     (if c = d then [] # split_on d cs
      else (case split_on d cs of [] \<Rightarrow> [[c]] | w # ws \<Rightarrow> (c # w) # ws))"

text \<open>\<^verbatim>\<open>slice::join\<close> with a separator string.\<close>

fun join :: "string \<Rightarrow> string list \<Rightarrow> string" where
  "join sep [] = []"
| "join sep [w] = w"
| "join sep (w # ws) = w @ sep @ join sep ws"

text \<open>\<^verbatim>\<open>str::split_once\<close> on one character.\<close>

definition split_once :: "char \<Rightarrow> string \<Rightarrow> (string \<times> string) option" where
  "split_once d s =
     (if d \<in> set s then Some (takeWhile (\<lambda>c. c \<noteq> d) s, tl (dropWhile (\<lambda>c. c \<noteq> d) s)) else None)"

text \<open>\<^verbatim>\<open>str::strip_prefix\<close> and \<^verbatim>\<open>str::strip_suffix\<close>.\<close>

definition strip_prefix :: "string \<Rightarrow> string \<Rightarrow> string option" where
  "strip_prefix p s = (if prefix p s then Some (drop (length p) s) else None)"

definition strip_suffix :: "string \<Rightarrow> string \<Rightarrow> string option" where
  "strip_suffix p s = (if suffix p s then Some (take (length s - length p) s) else None)"

lemma is_whitespace_simps [simp]: "is_whitespace CHR '' ''" "\<not> is_whitespace CHR '',''"
  "\<not> is_whitespace CHR '';''" "\<not> is_whitespace CHR ''=''" "\<not> is_whitespace CHR ''>''"
  "\<not> is_whitespace CHR ''<''"
  by (simp_all add: is_whitespace_def)

lemma trim_Nil [simp]: "trim [] = []"
  by (simp add: trim_def trim_start_def trim_end_def)

lemma trimmed_Nil [simp]: "trimmed []"
  by (simp add: trimmed_def)

lemma trim_trimmed: "trimmed s \<Longrightarrow> trim s = s"
proof -
  assume t: "trimmed s"
  have "dropWhile is_whitespace s = s" using t by (cases s) (auto simp: trimmed_def)
  moreover have "dropWhile is_whitespace (rev s) = rev s"
    using t by (cases s rule: rev_cases) (auto simp: trimmed_def)
  ultimately show ?thesis by (simp add: trim_def trim_start_def trim_end_def)
qed

lemma dropWhile_hd: "dropWhile P xs \<noteq> [] \<Longrightarrow> \<not> P (hd (dropWhile P xs))"
  by (induction xs) auto

lemma trimmed_trim [simp]: "trimmed (trim s)"
proof (cases "trim s = []")
  case True
  then show ?thesis by simp
next
  case False
  define u where "u = dropWhile is_whitespace s"
  define v where "v = dropWhile is_whitespace (rev u)"
  have t: "trim s = rev v" by (simp add: trim_def trim_start_def trim_end_def u_def v_def)
  from False t have vne: "v \<noteq> []" by simp
  have l: "\<not> is_whitespace (last (rev v))"
    using vne dropWhile_hd [of is_whitespace "rev u"] by (simp add: v_def last_rev)
  obtain p where p: "rev u = p @ v"
    by (metis v_def takeWhile_dropWhile_id)
  then have "u = rev v @ rev p" by (metis rev_append rev_rev_ident)
  then have "hd u = hd (rev v)" and "u \<noteq> []" using vne by auto
  then have "\<not> is_whitespace (hd (rev v))"
    using dropWhile_hd [of is_whitespace s] by (simp add: u_def)
  with l t show ?thesis by (simp add: trimmed_def)
qed

lemma trim_idem [simp]: "trim (trim s) = trim s"
  by (simp add: trim_trimmed)

lemma set_trim: "set (trim s) \<subseteq> set s"
  by (auto simp: trim_def trim_start_def trim_end_def dest!: set_dropWhileD)

lemma split_on_neq_Nil [simp]: "split_on d s \<noteq> []"
  by (induction s) (auto split: list.splits)

lemma split_on_clean: "d \<notin> set s \<Longrightarrow> split_on d s = [s]"
  by (induction s) auto

lemma split_on_append: "d \<notin> set w \<Longrightarrow> split_on d (w @ d # s) = w # split_on d s"
  by (induction w) auto

lemma split_on_join:
  "ws \<noteq> [] \<Longrightarrow> \<forall>w \<in> set ws. d \<notin> set w \<Longrightarrow> split_on d (join [d] ws) = ws"
  by (induction "[d]" ws rule: join.induct) (auto simp: split_on_clean split_on_append)

lemma set_split_on: "w \<in> set (split_on d s) \<Longrightarrow> d \<notin> set w \<and> set w \<subseteq> set s"
  by (induction s arbitrary: w) (auto split: list.splits if_splits, fastforce+)

lemma join_split_on: "join [d] (split_on d s) = s"
proof (induction s)
  case Nil
  then show ?case by simp
next
  case (Cons c cs)
  obtain w ws where w: "split_on d cs = w # ws" by (cases "split_on d cs") auto
  with Cons show ?case by (cases ws) auto
qed

text \<open>Collecting an iterator of results: every value, or the first error.\<close>

fun collect_results :: "('e + 'a) list \<Rightarrow> 'e + 'a list" where
  "collect_results [] = Inr []"
| "collect_results (Inl e # rs) = Inl e"
| "collect_results (Inr x # rs) =
     (case collect_results rs of Inl e \<Rightarrow> Inl e | Inr xs \<Rightarrow> Inr (x # xs))"

lemma collect_results_Inr: "collect_results (map Inr xs) = Inr xs"
  by (induction xs) auto

lemma collect_results_eq_Inr: "collect_results rs = Inr xs \<longleftrightarrow> rs = map Inr xs"
proof (induction rs arbitrary: xs rule: collect_results.induct)
  case 1
  then show ?case by auto
next
  case (2 e rs)
  then show ?case by (cases xs) auto
next
  case (3 x rs)
  then show ?case by (cases xs) (auto simp: collect_results_Inr split: sum.splits)
qed

section \<open>Codecs\<close>

text \<open>
  The contract of a stored or sent representation: what was written reads back as itself,
  and nothing reads as a value that would be written differently, so an unknown
  representation is refused and never guessed.
\<close>

locale wire_codec =
  fixes enc :: "'a \<Rightarrow> 'w"
    and dec :: "'w \<Rightarrow> 'a option"
  assumes dec_enc [simp]: "dec (enc x) = Some x"
    and enc_dec: "dec w = Some x \<Longrightarrow> enc x = w"
begin

lemma enc_inject [simp]: "enc x = enc y \<longleftrightarrow> x = y"
  by (metis dec_enc option.inject)

lemma dec_Some_iff: "dec w = Some x \<longleftrightarrow> w = enc x"
  using dec_enc enc_dec by blast

lemma dec_None_iff: "dec w = None \<longleftrightarrow> w \<notin> range enc"
  by (metis dec_Some_iff not_None_eq range_eqI rangeE)

lemma dec_inject: "dec v = Some x \<Longrightarrow> dec w = Some x \<Longrightarrow> v = w"
  by (simp add: dec_Some_iff)

end

end
