(* ===== verification/Build_State.thy ===== *)
theory Build_State
  imports Prelude
begin

text \<open>
  \<^verbatim>\<open>aurcache-common/src/build_state.rs\<close>: the states, triggers and end reasons of a
  build with their integer and textual representations, and the platforms of
  \<^verbatim>\<open>pacman-mirrors/src/platforms.rs\<close>. The round trips of the representations are
  interpretations of \<^verbatim>\<open>wire_codec\<close>.
\<close>

section \<open>Build states\<close>

datatype build_state =
  Active | Successful | Failed | Enqueued | WaitingForDeps | Publishing

fun state_as_i32 :: "build_state \<Rightarrow> int" where
  "state_as_i32 Active = 0"
| "state_as_i32 Successful = 1"
| "state_as_i32 Failed = 2"
| "state_as_i32 Enqueued = 3"
| "state_as_i32 WaitingForDeps = 4"
| "state_as_i32 Publishing = 5"

definition state_from_i32 :: "int \<Rightarrow> build_state option" where
  "state_from_i32 v =
     (if v = 0 then Some Active
      else if v = 1 then Some Successful
      else if v = 2 then Some Failed
      else if v = 3 then Some Enqueued
      else if v = 4 then Some WaitingForDeps
      else if v = 5 then Some Publishing
      else None)"

definition IN_PROGRESS :: "build_state list" where
  "IN_PROGRESS = [Active, Enqueued, WaitingForDeps, Publishing]"

definition ALL_STATES :: "build_state list" where
  "ALL_STATES = [Active, Successful, Failed, Enqueued, WaitingForDeps, Publishing]"

fun key :: "build_state \<Rightarrow> string" where
  "key Active = ''active''"
| "key Successful = ''successful''"
| "key Failed = ''failed''"
| "key Enqueued = ''enqueued''"
| "key WaitingForDeps = ''waiting-for-deps''"
| "key Publishing = ''publishing''"

fun label :: "build_state \<Rightarrow> string" where
  "label Active = ''building''"
| "label Successful = ''successful''"
| "label Failed = ''failed''"
| "label Enqueued = ''enqueued''"
| "label WaitingForDeps = ''waiting for deps''"
| "label Publishing = ''publishing''"

definition from_key :: "string \<Rightarrow> build_state option" where
  "from_key k = find (\<lambda>state. key state = k) ALL_STATES"

text \<open>The error names the key that is not a state, and the ones that are.\<close>

datatype key_error = NotABuildState string "string list"

definition parse_keys :: "string \<Rightarrow> key_error + build_state list" where
  "parse_keys list =
     collect_results
       (map (\<lambda>k. case from_key k of
               Some state \<Rightarrow> Inr state
             | None \<Rightarrow> Inl (NotABuildState k (map key ALL_STATES)))
          (filter (\<lambda>k. k \<noteq> []) (map trim (split_on CHR '','' list))))"

fun is_in_progress :: "build_state \<Rightarrow> bool" where
  "is_in_progress Active = True"
| "is_in_progress Enqueued = True"
| "is_in_progress WaitingForDeps = True"
| "is_in_progress Publishing = True"
| "is_in_progress _ = False"

section \<open>Triggers and end reasons\<close>

datatype build_trigger = User | AutoUpdate | TimeoutRetry

fun trigger_as_i32 :: "build_trigger \<Rightarrow> int" where
  "trigger_as_i32 User = 0"
| "trigger_as_i32 AutoUpdate = 1"
| "trigger_as_i32 TimeoutRetry = 2"

definition trigger_from_i32 :: "int \<Rightarrow> build_trigger option" where
  "trigger_from_i32 v =
     (if v = 0 then Some User
      else if v = 1 then Some AutoUpdate
      else if v = 2 then Some TimeoutRetry
      else None)"

datatype end_reason =
  Canceled | LeaseExpired | MaxDuration | Dropped | WorkerRevoked | Interrupted

fun reason_as_i32 :: "end_reason \<Rightarrow> int" where
  "reason_as_i32 Canceled = 0"
| "reason_as_i32 LeaseExpired = 1"
| "reason_as_i32 MaxDuration = 2"
| "reason_as_i32 Dropped = 3"
| "reason_as_i32 WorkerRevoked = 4"
| "reason_as_i32 Interrupted = 5"

definition reason_from_i32 :: "int \<Rightarrow> end_reason option" where
  "reason_from_i32 v =
     (if v = 0 then Some Canceled
      else if v = 1 then Some LeaseExpired
      else if v = 2 then Some MaxDuration
      else if v = 3 then Some Dropped
      else if v = 4 then Some WorkerRevoked
      else if v = 5 then Some Interrupted
      else None)"

fun spends_retry :: "end_reason \<Rightarrow> bool" where
  "spends_retry LeaseExpired = True"
| "spends_retry MaxDuration = True"
| "spends_retry Dropped = True"
| "spends_retry Interrupted = True"
| "spends_retry _ = False"

fun explanation :: "end_reason \<Rightarrow> string" where
  "explanation Canceled = ''cancelled by an operator''"
| "explanation LeaseExpired = ''its worker stopped heartbeating''"
| "explanation MaxDuration = ''it exceeded its maximum duration''"
| "explanation Dropped = ''its worker stopped reporting it''"
| "explanation WorkerRevoked = ''its worker was revoked''"
| "explanation Interrupted = ''its worker could not finish it''"

text \<open>
  The macro \<^verbatim>\<open>as_integer!\<close> writes each type as its discriminant and refuses a number
  it does not know, naming it.
\<close>

datatype wire_error = NotA int string

definition serialize :: "('a \<Rightarrow> int) \<Rightarrow> 'a \<Rightarrow> int" where
  "serialize as_i32 x = as_i32 x"

definition deserialize :: "(int \<Rightarrow> 'a option) \<Rightarrow> string \<Rightarrow> int \<Rightarrow> wire_error + 'a" where
  "deserialize from_i32 what v =
     (case from_i32 v of Some x \<Rightarrow> Inr x | None \<Rightarrow> Inl (NotA v what))"

section \<open>Platforms\<close>

datatype platform = X86_64 | Aarch64 | Armv7h

definition ALL_PLATFORMS :: "platform list" where
  "ALL_PLATFORMS = [X86_64, Aarch64, Armv7h]"

fun platform_as_str :: "platform \<Rightarrow> string" where
  "platform_as_str X86_64 = ''x86_64''"
| "platform_as_str Aarch64 = ''aarch64''"
| "platform_as_str Armv7h = ''armv7h''"

datatype parse_platform_error = ParsePlatformError string

definition platform_from_str :: "string \<Rightarrow> parse_platform_error + platform" where
  "platform_from_str s =
     (if s = ''x86_64'' then Inr X86_64
      else if s = ''aarch64'' then Inr Aarch64
      else if s = ''armv7h'' then Inr Armv7h
      else Inl (ParsePlatformError s))"

section \<open>The representations are codecs\<close>

interpretation state_codec: wire_codec state_as_i32 state_from_i32
proof
  show "state_from_i32 (state_as_i32 x) = Some x" for x
    by (cases x) (simp_all add: state_from_i32_def)
  show "state_from_i32 v = Some x \<Longrightarrow> state_as_i32 x = v" for v x
    by (auto simp: state_from_i32_def split: if_splits)
qed

interpretation trigger_codec: wire_codec trigger_as_i32 trigger_from_i32
proof
  show "trigger_from_i32 (trigger_as_i32 x) = Some x" for x
    by (cases x) (simp_all add: trigger_from_i32_def)
  show "trigger_from_i32 v = Some x \<Longrightarrow> trigger_as_i32 x = v" for v x
    by (auto simp: trigger_from_i32_def split: if_splits)
qed

interpretation reason_codec: wire_codec reason_as_i32 reason_from_i32
proof
  show "reason_from_i32 (reason_as_i32 x) = Some x" for x
    by (cases x) (simp_all add: reason_from_i32_def)
  show "reason_from_i32 v = Some x \<Longrightarrow> reason_as_i32 x = v" for v x
    by (auto simp: reason_from_i32_def split: if_splits)
qed

lemma mem_ALL_STATES [simp]: "state \<in> set ALL_STATES"
  by (cases state) (simp_all add: ALL_STATES_def)

interpretation key_codec: wire_codec key from_key
proof
  show "from_key (key x) = Some x" for x
    by (cases x) (simp_all add: from_key_def ALL_STATES_def)
  show "from_key k = Some x \<Longrightarrow> key x = k" for k x
    by (auto simp: from_key_def dest: find_Some_mem)
qed

definition platform_of :: "string \<Rightarrow> platform option" where
  "platform_of s = (case platform_from_str s of Inr p \<Rightarrow> Some p | Inl _ \<Rightarrow> None)"

interpretation platform_codec: wire_codec platform_as_str platform_of
proof
  show "platform_of (platform_as_str x) = Some x" for x
    by (cases x) (simp_all add: platform_of_def platform_from_str_def)
  show "platform_of s = Some x \<Longrightarrow> platform_as_str x = s" for s x
    by (auto simp: platform_of_def platform_from_str_def split: if_splits)
qed

lemma in_progress_iff: "state \<in> set IN_PROGRESS \<longleftrightarrow> is_in_progress state"
  by (cases state) (simp_all add: IN_PROGRESS_def)

lemma key_clean: "CHR '','' \<notin> set (key state)" "trimmed (key state)" "key state \<noteq> []"
  by (cases state, simp_all add: trimmed_def is_whitespace_def)+

lemma is_in_progress_cases:
  "is_in_progress state \<longleftrightarrow> state \<noteq> Successful \<and> state \<noteq> Failed"
  by (cases state) simp_all

lemma parse_keys_eq_Inr:
  "parse_keys list = Inr states \<longleftrightarrow>
     filter (\<lambda>k. k \<noteq> []) (map trim (split_on CHR '','' list)) = map key states"
proof -
  let ?f = "\<lambda>k. case from_key k of Some state \<Rightarrow> Inr state
             | None \<Rightarrow> Inl (NotABuildState k (map key ALL_STATES))"
  have one: "?f k = Inr state \<longleftrightarrow> k = key state" for k state
    by (auto split: option.splits simp: key_codec.dec_Some_iff key_codec.dec_None_iff)
  have many: "map ?f ks = map Inr states \<longleftrightarrow> ks = map key states" for ks
    by (induction ks arbitrary: states) (auto simp: one Cons_eq_map_conv map_eq_Cons_conv)
  then show ?thesis
    by (simp add: parse_keys_def collect_results_eq_Inr)
qed

end
