(* ===== verification/Db_Model.thy ===== *)
theory Db_Model
  imports Build_State
begin

text \<open>
  The state of the server: the rows of the entities under \<^verbatim>\<open>aurcache-db/src\<close> and the
  programs that query and change them.

  A table is the list of its rows. A program is a function on the server's state that
  returns an error or a value: every statement may fail (\<^verbatim>\<open>outage\<close> counts down to the
  statement the connection is lost at), and a transaction whose body fails, or that is
  dropped without being committed, leaves the tables as they were. Nested transactions
  are savepoints and behave alike. The clock does not move within one operation.
\<close>

section \<open>Rows\<close>

record package =
  p_id :: id
  p_name :: string
  p_status :: build_state
  p_out_of_date :: bool
  p_upstream_version :: "string option"
  p_build_flags :: "string list"
  p_platforms :: "platform list option"
  p_directly_requested :: bool
  p_split_packages :: "string list option"
  p_provides :: "string list option"

record build =
  b_id :: id
  b_pkg_id :: id
  b_number :: int
  b_status :: build_state
  b_start_time :: "timestamp option"
  b_end_time :: "timestamp option"
  b_platform :: platform
  b_version :: string
  b_size :: "int option"
  b_peak_memory :: "int option"
  b_disk_chroot :: "int option"
  b_disk_workdir :: "int option"
  b_disk_sources :: "int option"
  b_disk_build_tree :: "int option"
  b_worker_id :: "id option"
  b_lease_expires_at :: "timestamp option"
  b_trigger :: build_trigger
  b_end_reason :: "end_reason option"
  b_vcs_sources :: "(string \<times> string) list option"
  b_kept_path :: "string option"
  b_kept_until :: "timestamp option"
  b_kept_tree :: "string option"

record dependency =
  d_id :: id
  d_dependent_id :: id
  d_dependee_id :: id
  d_version_constraint :: string

datatype approval_status = Approved | Revoked | Pending

record worker =
  w_id :: id
  w_name :: string
  w_status :: approval_status
  w_cert_fingerprint :: string
  w_signed_cert :: "string option"
  w_not_after :: "timestamp option"
  w_arches :: "string list"
  w_last_seen :: "timestamp option"
  w_version :: "string option"
  w_kind :: "string option"
  w_package_affinity :: "string list"
  w_priority :: int
  w_concurrency :: int
  w_settings_declaration :: string
  w_effective_config :: "string option"
  w_paused :: bool
  w_embedded :: bool

record worker_setting =
  ws_worker_id :: id
  ws_key :: string
  ws_value :: string

record file_row =
  f_id :: id
  f_filename :: string
  f_platform :: platform
  f_package_id :: id
  f_size :: "int option"

record setting_row =
  se_id :: id
  se_key :: string
  se_value :: "string option"
  se_pkg_id :: id

record tables =
  packages :: "package list"
  builds :: "build list"
  dependencies :: "dependency list"
  workers :: "worker list"
  worker_settings :: "worker_setting list"
  files :: "file_row list"
  settings :: "setting_row list"
  next_build_id :: id
  next_worker_id :: id
  next_file_id :: id

section \<open>Programs\<close>

datatype db_err = ConnectionLost | ForeignKey | Custom string

text \<open>
  What the server does besides writing its tables, in order: entries of the activity log
  (\<^verbatim>\<open>aurcache-common/src/api/events.rs\<close>), lines of build logs, staged uploads it throws
  away, and the publication it starts in the background. The texts of database errors are
  left out. \<open>log_ok\<close> says whether the build logs can be written to.
\<close>

record build_ref =
  pkgbase :: string
  number :: int

datatype queue_cause = Cause_First | Cause_Retry

datatype file_action = Action_Move | Action_Remove

datatype worker_report = Report_Declaration | Report_Configuration

datatype event =
    BuildRecordFailed build_ref string
  | BuildSucceeded build_ref string
  | BuildFailed build_ref string "string option"
  | BuildPublished build_ref "string option"
  | BuildUnblocked build_ref "build_ref option"
  | BuildQueued string queue_cause "build_ref list" "string option" "build_ref option"
  | DependentsTriggerFailed string
  | PublishFailed build_ref
  | BuildMarkFailed build_ref
  | BuildLogAppendFailed build_ref
  | WorkerEnrolled string
  | WorkerApproved string
  | WorkerReaped "string list" "build_ref list" "build_ref list"
  | WorkerSettingRejected string "string list"
  | WorkerRegistered string "string option"
  | WorkerConfigChanged string "string list"
  | WorkerSettingsSaved string "string list" "string list"
  | WorkerReportFailed string worker_report
  | RepoCommitRetried nat
  | RepoFileFailed file_action "string list"
  | RepoSwept "string list"

datatype effect =
    Emitted event
  | LogAppended string int string
  | LogRemoved string int
  | StagingDiscarded id
  | PublishSpawned id

record server =
  db :: tables
  outage :: "nat option"
  clock :: timestamp
  effects :: "effect list"
  log_ok :: bool

type_synonym ('e, 'a) prog = "server \<Rightarrow> ('e + 'a) \<times> server"
type_synonym 'a dbm = "(db_err, 'a) prog"

definition ret :: "'a \<Rightarrow> ('e, 'a) prog" where
  "ret x s = (Inr x, s)"

definition raise :: "'e \<Rightarrow> ('e, 'a) prog" where
  "raise e s = (Inl e, s)"

definition dbind :: "('e, 'a) prog \<Rightarrow> ('a \<Rightarrow> ('e, 'b) prog) \<Rightarrow> ('e, 'b) prog" where
  "dbind m f s = (case m s of (Inl e, t) \<Rightarrow> (Inl e, t) | (Inr x, t) \<Rightarrow> f x t)"

definition dthen :: "('e, 'a) prog \<Rightarrow> ('e, 'b) prog \<Rightarrow> ('e, 'b) prog" where
  "dthen m k = dbind m (\<lambda>_. k)"

definition now_secs :: "('e, timestamp) prog" where
  "now_secs s = (Inr (clock s), s)"

text \<open>\<^verbatim>\<open>?\<close> on an error of another type, and an error that is handled in place.\<close>

definition map_err :: "('d \<Rightarrow> 'e) \<Rightarrow> ('d, 'a) prog \<Rightarrow> ('e, 'a) prog" where
  "map_err f m s = (case m s of (Inl e, t) \<Rightarrow> (Inl (f e), t) | (Inr x, t) \<Rightarrow> (Inr x, t))"

definition attempt :: "('d, 'a) prog \<Rightarrow> ('e, 'd + 'a) prog" where
  "attempt m s = (case m s of (r, t) \<Rightarrow> (Inr r, t))"

definition perform :: "effect \<Rightarrow> ('e, unit) prog" where
  "perform e s = (Inr (), s\<lparr>effects := effects s @ [e]\<rparr>)"

definition emit :: "event \<Rightarrow> ('e, unit) prog" where
  "emit e = perform (Emitted e)"

definition append_build_output :: "string \<Rightarrow> int \<Rightarrow> string \<Rightarrow> ('e, bool) prog" where
  "append_build_output base num txt s =
     (if log_ok s then (Inr True, s\<lparr>effects := effects s @ [LogAppended base num txt]\<rparr>) else (Inr False, s))"

text \<open>One statement: it fails when the connection is gone, else reads or changes the tables.\<close>

definition up :: "server \<Rightarrow> bool" where
  "up s \<longleftrightarrow> outage s \<noteq> Some 0"

definition tick :: "server \<Rightarrow> server" where
  "tick s = s\<lparr>outage := map_option (\<lambda>n. n - 1) (outage s)\<rparr>"

definition statement :: "(tables \<Rightarrow> (db_err + 'a) \<times> tables) \<Rightarrow> 'a dbm" where
  "statement q s =
     (if up s then (case q (db s) of (r, d) \<Rightarrow> (r, (tick s)\<lparr>db := d\<rparr>))
      else (Inl ConnectionLost, s))"

definition select :: "(tables \<Rightarrow> 'a) \<Rightarrow> 'a dbm" where
  "select q = statement (\<lambda>d. (Inr (q d), d))"

definition modify :: "(tables \<Rightarrow> tables) \<Rightarrow> unit dbm" where
  "modify f = statement (\<lambda>d. (Inr (), f d))"

text \<open>\<^verbatim>\<open>update_many\<close> on builds, with the number of rows its filters match.\<close>

definition set_builds :: "(build \<Rightarrow> bool) \<Rightarrow> (build \<Rightarrow> build) \<Rightarrow> tables \<Rightarrow> tables" where
  "set_builds p f d = d\<lparr>builds := map (\<lambda>b. if p b then f b else b) (builds d)\<rparr>"

definition update_builds :: "(build \<Rightarrow> bool) \<Rightarrow> (build \<Rightarrow> build) \<Rightarrow> nat dbm" where
  "update_builds p f = statement (\<lambda>d. (Inr (length (filter p (builds d))), set_builds p f d))"

definition set_packages :: "(package \<Rightarrow> bool) \<Rightarrow> (package \<Rightarrow> package) \<Rightarrow> tables \<Rightarrow> tables" where
  "set_packages p f d = d\<lparr>packages := map (\<lambda>r. if p r then f r else r) (packages d)\<rparr>"

definition set_workers :: "(worker \<Rightarrow> bool) \<Rightarrow> (worker \<Rightarrow> worker) \<Rightarrow> tables \<Rightarrow> tables" where
  "set_workers p f d = d\<lparr>workers := map (\<lambda>r. if p r then f r else r) (workers d)\<rparr>"

definition find_build_by_id :: "id \<Rightarrow> tables \<Rightarrow> build option" where
  "find_build_by_id i d = find (\<lambda>b. b_id b = i) (builds d)"

definition find_package_by_id :: "id \<Rightarrow> tables \<Rightarrow> package option" where
  "find_package_by_id i d = find (\<lambda>p. p_id p = i) (packages d)"

definition find_worker_by_id :: "id \<Rightarrow> tables \<Rightarrow> worker option" where
  "find_worker_by_id i d = find (\<lambda>w. w_id w = i) (workers d)"

section \<open>Transactions\<close>

datatype 'a txn_end = Commit 'a | Rollback 'a

text \<open>
  \<^verbatim>\<open>begin\<close> and \<^verbatim>\<open>commit\<close> are statements of their own. An error, a rollback and a
  transaction that is dropped undo what the body wrote.
\<close>

definition transaction :: "'a txn_end dbm \<Rightarrow> 'a dbm" where
  "transaction body s =
     (if \<not> up s then (Inl ConnectionLost, s)
      else (case body (tick s) of
          (Inl e, t) \<Rightarrow> (Inl e, t\<lparr>db := db s\<rparr>)
        | (Inr (Rollback x), t) \<Rightarrow> (Inr x, t\<lparr>db := db s\<rparr>)
        | (Inr (Commit x), t) \<Rightarrow>
            (if up t then (Inr x, tick t) else (Inl ConnectionLost, t\<lparr>db := db s\<rparr>))))"

text \<open>A loop whose body may fail, collecting what each round yields.\<close>

primrec for_each :: "('x \<Rightarrow> ('e, 'a) prog) \<Rightarrow> 'x list \<Rightarrow> ('e, 'a list) prog" where
  "for_each f [] = ret []"
| "for_each f (x # xs) = dbind (f x) (\<lambda>y. dbind (for_each f xs) (\<lambda>ys. ret (y # ys)))"

lemma dbind_ret [simp]: "dbind (ret x) f = f x"
  by (rule ext) (simp add: dbind_def ret_def)

lemma dbind_assoc: "dbind (dbind m f) g = dbind m (\<lambda>x. dbind (f x) g)"
  by (rule ext) (auto simp: dbind_def split: prod.splits sum.splits)

section \<open>Reading off successful runs\<close>

lemma tick_sel [simp]: "db (tick s) = db s" "clock (tick s) = clock s"
  by (simp_all add: tick_def)

lemma up_db [simp]: "up (s\<lparr>db := d\<rparr>) = up s"
  by (simp add: up_def)

lemma up_None: "outage s = None \<Longrightarrow> up s"
  by (simp add: up_def)

lemma outage_tick_None [simp]: "outage s = None \<Longrightarrow> outage (tick s) = None"
  by (simp add: tick_def)

lemma tick_None: "outage s = None \<Longrightarrow> tick s = s"
  by (simp add: tick_def)

lemma tick_db [simp]: "tick (s\<lparr>db := d\<rparr>) = (tick s)\<lparr>db := d\<rparr>"
  by (simp add: tick_def)

lemma effects_update [simp]: "tick (s\<lparr>effects := es\<rparr>) = (tick s)\<lparr>effects := es\<rparr>"
  "up (s\<lparr>effects := es\<rparr>) = up s"
  by (simp_all add: tick_def up_def)

lemma map_err_Inr [db_simps]: "map_err f m s = (Inr x, t) \<longleftrightarrow> m s = (Inr x, t)"
  by (auto simp: map_err_def split: prod.splits sum.splits)

lemma attempt_iff [db_simps]: "attempt m s = (Inr r, t) \<longleftrightarrow> m s = (r, t)"
  by (auto simp: attempt_def split: prod.splits)

lemma perform_iff [db_simps]: "perform e s = (r, t) \<longleftrightarrow> r = Inr () \<and> t = s\<lparr>effects := effects s @ [e]\<rparr>"
  by (auto simp: perform_def)

lemma emit_iff [db_simps]:
  "emit e s = (r, t) \<longleftrightarrow> r = Inr () \<and> t = s\<lparr>effects := effects s @ [Emitted e]\<rparr>"
  by (simp add: emit_def perform_iff)

lemma append_build_output_Inr [db_simps]:
  "append_build_output base num txt s = (r, t) \<longleftrightarrow>
     r = Inr (log_ok s) \<and>
     t = (if log_ok s then s\<lparr>effects := effects s @ [LogAppended base num txt]\<rparr> else s)"
  by (auto simp: append_build_output_def)

lemma ret_iff [db_simps]: "ret x s = (r, t) \<longleftrightarrow> r = Inr x \<and> t = s"
  by (auto simp: ret_def)

lemma raise_iff [db_simps]: "raise e s = (r, t) \<longleftrightarrow> r = Inl e \<and> t = s"
  by (auto simp: raise_def)

lemma dbind_Inr [db_simps]:
  "dbind m f s = (Inr y, t) \<longleftrightarrow> (\<exists>x u. m s = (Inr x, u) \<and> f x u = (Inr y, t))"
  by (auto simp: dbind_def split: prod.splits sum.splits)

lemma dbind_Inl:
  "dbind m f s = (Inl e, t) \<longleftrightarrow>
     m s = (Inl e, t) \<or> (\<exists>x u. m s = (Inr x, u) \<and> f x u = (Inl e, t))"
  by (auto simp: dbind_def split: prod.splits sum.splits)

lemma dbind_cases:
  assumes "dbind m f s = (r, t)"
  obtains e where "m s = (Inl e, t)" "r = Inl e" | x u where "m s = (Inr x, u)" "f x u = (r, t)"
  using assms by (auto simp: dbind_def split: prod.splits sum.splits)

lemma select_cases:
  assumes "select q s = (r, t)"
  shows "db t = db s" "r = Inr x \<Longrightarrow> x = q (db s)"
  using assms by (auto simp: select_def statement_def split: if_splits)

lemma dthen_Inr [db_simps]:
  "dthen m k s = (Inr y, t) \<longleftrightarrow> (\<exists>x u. m s = (Inr x, u) \<and> k u = (Inr y, t))"
  by (simp add: dthen_def dbind_Inr)

lemma now_secs_iff [db_simps]: "now_secs s = (r, t) \<longleftrightarrow> r = Inr (clock s) \<and> t = s"
  by (auto simp: now_secs_def)

lemma statement_Inr [db_simps]:
  "statement q s = (Inr x, t) \<longleftrightarrow> up s \<and> fst (q (db s)) = Inr x \<and> t = (tick s)\<lparr>db := snd (q (db s))\<rparr>"
  by (auto simp: statement_def split: prod.splits)

lemma select_Inr [db_simps]: "select q s = (Inr x, t) \<longleftrightarrow> up s \<and> x = q (db s) \<and> t = tick s"
  by (auto simp: select_def statement_Inr)

lemma modify_Inr [db_simps]:
  "modify f s = (Inr x, t) \<longleftrightarrow> up s \<and> t = (tick s)\<lparr>db := f (db s)\<rparr>"
  by (auto simp: modify_def statement_Inr)

lemma update_builds_Inr [db_simps]:
  "update_builds p f s = (Inr n, t) \<longleftrightarrow>
     up s \<and> n = length (filter p (builds (db s))) \<and> t = (tick s)\<lparr>db := set_builds p f (db s)\<rparr>"
  by (auto simp: update_builds_def statement_Inr)

lemma transaction_Inr:
  "transaction body s = (Inr x, t) \<longleftrightarrow>
     up s \<and> (\<exists>u. body (tick s) = (Inr (Rollback x), u) \<and> t = u\<lparr>db := db s\<rparr> \<or>
             body (tick s) = (Inr (Commit x), u) \<and> up u \<and> t = tick u)"
  by (auto simp: transaction_def split: prod.splits sum.splits txn_end.splits if_splits)

text \<open>A failed transaction changes nothing in the tables.\<close>

lemma transaction_Inl: "transaction body s = (Inl e, t) \<Longrightarrow> db t = db s"
  by (auto simp: transaction_def split: prod.splits sum.splits txn_end.splits if_splits)

section \<open>Invariants of the tables\<close>

definition preserves :: "(tables \<Rightarrow> bool) \<Rightarrow> ('e, 'a) prog \<Rightarrow> bool" where
  "preserves I m \<longleftrightarrow> (\<forall>s r t. I (db s) \<longrightarrow> m s = (r, t) \<longrightarrow> I (db t))"

lemma preservesD: "preserves I m \<Longrightarrow> I (db s) \<Longrightarrow> m s = (r, t) \<Longrightarrow> I (db t)"
  unfolding preserves_def by blast

lemma preserves_ret [pres, simp]: "preserves I (ret x)"
  by (simp add: preserves_def ret_def)

lemma preserves_raise [pres, simp]: "preserves I (raise e)"
  by (simp add: preserves_def raise_def)

lemma preserves_map_err [pres]: "preserves I m \<Longrightarrow> preserves I (map_err f m)"
  unfolding preserves_def map_err_def by (fastforce split: prod.splits sum.splits)

lemma preserves_attempt [pres]: "preserves I m \<Longrightarrow> preserves I (attempt m)"
  unfolding preserves_def attempt_def by (auto split: prod.splits)

lemma preserves_perform [pres, simp]: "preserves I (perform e)"
  by (simp add: preserves_def perform_def)

lemma preserves_emit [pres, simp]: "preserves I (emit e)"
  by (simp add: emit_def)

lemma preserves_append [pres, simp]: "preserves I (append_build_output base num txt)"
  by (simp add: preserves_def append_build_output_def)

lemma preserves_now_secs [pres, simp]: "preserves I now_secs"
  by (simp add: preserves_def now_secs_def)

lemma preserves_select [pres, simp]: "preserves I (select q)"
  by (simp add: preserves_def select_def statement_def)

lemma preserves_dbind [pres]:
  assumes "preserves I m" and "\<And>x. preserves I (f x)"
  shows "preserves I (dbind m f)"
proof -
  have "I (db t)" if "I (db s)" "dbind m f s = (r, t)" for s r t
  proof -
    obtain q u where u: "m s = (q, u)" by fastforce
    with assms(1) that(1) have "I (db u)" by (rule preservesD)
    with that(2) u show ?thesis
      by (cases q) (auto simp: dbind_def dest: preservesD [OF assms(2)])
  qed
  then show ?thesis unfolding preserves_def by blast
qed

lemma preserves_dthen [pres]: "preserves I m \<Longrightarrow> preserves I k \<Longrightarrow> preserves I (dthen m k)"
  unfolding dthen_def by (rule preserves_dbind)

lemma preserves_statement:
  "(\<And>d. I d \<Longrightarrow> I (snd (q d))) \<Longrightarrow> preserves I (statement q)"
  unfolding preserves_def statement_def by (simp add: case_prod_beta split: if_splits)

lemma preserves_modify: "(\<And>d. I d \<Longrightarrow> I (f d)) \<Longrightarrow> preserves I (modify f)"
  unfolding modify_def by (rule preserves_statement) simp

lemma preserves_update_builds:
  "(\<And>d. I d \<Longrightarrow> I (set_builds p f d)) \<Longrightarrow> preserves I (update_builds p f)"
  unfolding update_builds_def by (rule preserves_statement) simp

lemma preserves_for_each [pres]:
  "(\<And>x. preserves I (f x)) \<Longrightarrow> preserves I (for_each f xs)"
  by (induction xs) (auto intro!: preserves_dbind)

text \<open>
  A transaction keeps an invariant its intermediate states need not satisfy: what counts
  is the state it commits.
\<close>

lemma preserves_transaction:
  assumes "\<And>s x t. I (db s) \<Longrightarrow> body s = (Inr (Commit x), t) \<Longrightarrow> I (db t)"
  shows "preserves I (transaction body)"
proof -
  have "I (db t)" if "I (db s)" "transaction body s = (r, t)" for s r t
    using that assms [of "tick s"]
    by (auto simp: transaction_def split: prod.splits sum.splits txn_end.splits if_splits)
  then show ?thesis unfolding preserves_def by blast
qed

lemma preserves_txn [pres]: "preserves I body \<Longrightarrow> preserves I (transaction body)"
  by (rule preserves_transaction) (auto dest: preservesD)

lemma for_each_Inr_Nil [db_simps]: "for_each f [] s = (Inr ys, t) \<longleftrightarrow> ys = [] \<and> t = s"
  by (auto simp: ret_def)

lemma for_each_Inr_Cons [db_simps]:
  "for_each f (x # xs) s = (Inr ys, t) \<longleftrightarrow>
     (\<exists>y zs u. ys = y # zs \<and> f x s = (Inr y, u) \<and> for_each f xs u = (Inr zs, t))"
  by (auto simp: dbind_Inr ret_iff)

section \<open>The clock\<close>

definition fixed_clock :: "('e, 'a) prog \<Rightarrow> bool" where
  "fixed_clock m \<longleftrightarrow> (\<forall>s. clock (snd (m s)) = clock s)"

lemma fixed_clockD: "fixed_clock m \<Longrightarrow> m s = (r, t) \<Longrightarrow> clock t = clock s"
  unfolding fixed_clock_def by (metis snd_conv)

lemma fixed_clock_ret [clk]: "fixed_clock (ret x)"
  by (simp add: fixed_clock_def ret_def)

lemma fixed_clock_raise [clk]: "fixed_clock (raise e)"
  by (simp add: fixed_clock_def raise_def)

lemma fixed_clock_now_secs [clk]: "fixed_clock now_secs"
  by (simp add: fixed_clock_def now_secs_def)

lemma fixed_clock_map_err [clk]: "fixed_clock m \<Longrightarrow> fixed_clock (map_err f m)"
  unfolding fixed_clock_def map_err_def by (auto split: prod.split sum.split) (metis snd_conv)+

lemma fixed_clock_attempt [clk]: "fixed_clock m \<Longrightarrow> fixed_clock (attempt m)"
  unfolding fixed_clock_def attempt_def by (auto split: prod.split) (metis snd_conv)

lemma fixed_clock_perform [clk]: "fixed_clock (perform e)"
  by (simp add: fixed_clock_def perform_def)

lemma fixed_clock_emit [clk]: "fixed_clock (emit e)"
  by (simp add: emit_def fixed_clock_perform)

lemma fixed_clock_append [clk]: "fixed_clock (append_build_output base num txt)"
  by (simp add: fixed_clock_def append_build_output_def)

lemma fixed_clock_statement [clk]: "fixed_clock (statement q)"
  by (simp add: fixed_clock_def statement_def split: prod.splits)

lemma fixed_clock_select [clk]: "fixed_clock (select q)"
  unfolding select_def by (rule clk)

lemma fixed_clock_modify [clk]: "fixed_clock (modify f)"
  unfolding modify_def by (rule clk)

lemma fixed_clock_update_builds [clk]: "fixed_clock (update_builds p f)"
  unfolding update_builds_def by (rule clk)

lemma fixed_clock_dbind [clk]: "fixed_clock m \<Longrightarrow> (\<And>x. fixed_clock (f x)) \<Longrightarrow> fixed_clock (dbind m f)"
  unfolding fixed_clock_def dbind_def by (auto split: prod.split sum.split) (metis snd_conv)+

lemma fixed_clock_dthen [clk]: "fixed_clock m \<Longrightarrow> fixed_clock k \<Longrightarrow> fixed_clock (dthen m k)"
  unfolding dthen_def by (rule fixed_clock_dbind)

lemma fixed_clock_transaction [clk]: "fixed_clock body \<Longrightarrow> fixed_clock (transaction body)"
  unfolding fixed_clock_def transaction_def
  by (auto split: prod.split sum.split txn_end.split) (metis snd_conv tick_sel(2))+

lemma fixed_clock_for_each [clk]: "(\<And>x. fixed_clock (f x)) \<Longrightarrow> fixed_clock (for_each f xs)"
  by (induction xs) (auto intro!: clk)

section \<open>What a bulk update leaves alone\<close>

lemma set_builds_sel [simp]:
  "packages (set_builds p f d) = packages d"
  "dependencies (set_builds p f d) = dependencies d"
  "workers (set_builds p f d) = workers d"
  "worker_settings (set_builds p f d) = worker_settings d"
  "files (set_builds p f d) = files d"
  "next_build_id (set_builds p f d) = next_build_id d"
  "next_worker_id (set_builds p f d) = next_worker_id d"
  "next_file_id (set_builds p f d) = next_file_id d"
  "builds (set_builds p f d) = map (\<lambda>b. if p b then f b else b) (builds d)"
  by (simp_all add: set_builds_def)

lemma set_packages_sel [simp]:
  "builds (set_packages p f d) = builds d"
  "dependencies (set_packages p f d) = dependencies d"
  "workers (set_packages p f d) = workers d"
  "worker_settings (set_packages p f d) = worker_settings d"
  "files (set_packages p f d) = files d"
  "next_build_id (set_packages p f d) = next_build_id d"
  "next_worker_id (set_packages p f d) = next_worker_id d"
  "next_file_id (set_packages p f d) = next_file_id d"
  "packages (set_packages p f d) = map (\<lambda>b. if p b then f b else b) (packages d)"
  by (simp_all add: set_packages_def)

lemma set_workers_sel [simp]:
  "builds (set_workers p f d) = builds d"
  "dependencies (set_workers p f d) = dependencies d"
  "packages (set_workers p f d) = packages d"
  "worker_settings (set_workers p f d) = worker_settings d"
  "files (set_workers p f d) = files d"
  "next_build_id (set_workers p f d) = next_build_id d"
  "next_worker_id (set_workers p f d) = next_worker_id d"
  "next_file_id (set_workers p f d) = next_file_id d"
  "workers (set_workers p f d) = map (\<lambda>b. if p b then f b else b) (workers d)"
  by (simp_all add: set_workers_def)

lemma set_builds_none: "(\<And>b. b \<in> set (builds d) \<Longrightarrow> \<not> p b) \<Longrightarrow> set_builds p f d = d"
  by (simp add: set_builds_def map_if_unchanged)

lemma set_builds_cong:
  "(\<And>b. b \<in> set (builds d) \<Longrightarrow> p b = q b) \<Longrightarrow> set_builds p f d = set_builds q f d"
  unfolding set_builds_def by (auto cong: map_cong)

lemma find_build_by_id_Some:
  "find_build_by_id i d = Some b \<Longrightarrow> b \<in> set (builds d) \<and> b_id b = i"
  unfolding find_build_by_id_def by (rule find_Some_mem)

lemma find_package_by_id_Some:
  "find_package_by_id i d = Some p \<Longrightarrow> p \<in> set (packages d) \<and> p_id p = i"
  unfolding find_package_by_id_def by (rule find_Some_mem)

lemma find_build_by_id_mem:
  "distinct (map b_id (builds d)) \<Longrightarrow> b \<in> set (builds d) \<Longrightarrow> find_build_by_id (b_id b) d = Some b"
  unfolding find_build_by_id_def by (rule find_unique) (auto dest: distinct_map_eq)

section \<open>Programs that go through\<close>

text \<open>With the database reachable the program returns a value, and leaves it reachable.\<close>

definition reliable :: "('e, 'a) prog \<Rightarrow> bool" where
  "reliable m \<longleftrightarrow> (\<forall>s. outage s = None \<longrightarrow> (\<exists>x t. m s = (Inr x, t) \<and> outage t = None))"

lemma reliableE:
  assumes "reliable m" "outage s = None"
  obtains x t where "m s = (Inr x, t)" "outage t = None"
  using assms unfolding reliable_def by blast

lemma reliable_ret [rel]: "reliable (ret x)"
  by (simp add: reliable_def ret_def)

lemma reliable_now_secs [rel]: "reliable now_secs"
  by (simp add: reliable_def now_secs_def)

lemma reliable_perform [rel]: "reliable (perform e)"
  by (simp add: reliable_def perform_def)

lemma reliable_emit [rel]: "reliable (emit e)"
  by (simp add: emit_def reliable_perform)

lemma reliable_append [rel]: "reliable (append_build_output base num txt)"
  by (auto simp: reliable_def append_build_output_def)

lemma reliable_select [rel]: "reliable (select q)"
  by (auto simp: reliable_def select_def statement_def up_None)

lemma reliable_modify [rel]: "reliable (modify f)"
  by (auto simp: reliable_def modify_def statement_def up_None)

lemma reliable_update_builds [rel]: "reliable (update_builds p f)"
  by (auto simp: reliable_def update_builds_def statement_def up_None)

lemma reliable_map_err [rel]: "reliable m \<Longrightarrow> reliable (map_err f m)"
  unfolding reliable_def by (metis map_err_Inr)

lemma reliable_attempt [rel]: "reliable m \<Longrightarrow> reliable (attempt m)"
  unfolding reliable_def by (metis attempt_iff)

lemma reliable_dbind [rel]: "reliable m \<Longrightarrow> (\<And>x. reliable (f x)) \<Longrightarrow> reliable (dbind m f)"
  unfolding reliable_def by (metis dbind_Inr)

lemma reliable_dthen [rel]: "reliable m \<Longrightarrow> reliable k \<Longrightarrow> reliable (dthen m k)"
  unfolding dthen_def by (rule reliable_dbind)

lemma reliable_for_each [rel]: "(\<And>x. reliable (f x)) \<Longrightarrow> reliable (for_each f xs)"
  by (induction xs) (simp_all add: rel)

lemma reliable_transaction [rel]:
  assumes "reliable body"
  shows "reliable (transaction body)"
  unfolding reliable_def
proof (intro allI impI)
  fix s :: server
  assume s: "outage s = None"
  then obtain x t where t: "body (tick s) = (Inr x, t)" "outage t = None"
    using reliableE [OF assms, of "tick s"] by auto
  then show "\<exists>y u. transaction body s = (Inr y, u) \<and> outage u = None"
    using s by (cases x) (auto simp: transaction_def up_None)
qed

text \<open>To show what a run leaves behind, whether it fails or returns.\<close>

lemma outcomeI:
  assumes "\<And>e t. m s = (Inl e, t) \<Longrightarrow> P e t" and "\<And>r t. m s = (Inr r, t) \<Longrightarrow> Q r t"
  shows "case m s of (Inl e, t) \<Rightarrow> P e t | (Inr r, t) \<Rightarrow> Q r t"
  using assms by (cases "m s"; cases "fst (m s)") auto

lemma case_InrE:
  assumes "case x of (Inr r, t) \<Rightarrow> P r t | _ \<Rightarrow> False"
  obtains r t where "x = (Inr r, t)" "P r t"
  using assms by (auto split: prod.splits sum.splits)

end
