(* ===== verification/Versions.thy ===== *)
theory Versions
  imports Prelude
begin

text \<open>
  Version constraints: \<^verbatim>\<open>aurcache-deps/src/version.rs\<close>, \<^verbatim>\<open>aurcache-deps/src/deps.rs\<close>
  and \<^verbatim>\<open>aurcache-utils/src/pkg.rs\<close>.

  Versions and single requirements are those of the crate \<^verbatim>\<open>alpm-types\<close>, which is a
  parameter: a record of its parsers, its \<^verbatim>\<open>Display\<close>, its \<^verbatim>\<open>PartialOrd\<close> and its
  satisfaction test. What the code relies on is \<^verbatim>\<open>alpm_ord\<close>: the contract of Rust's
  \<^verbatim>\<open>Ord\<close>, which \<^verbatim>\<open>Version\<close> implements, and that a requirement is the comparison it is
  written with.
\<close>

datatype ordering = OLess | OEqual | OGreater

datatype version_comparison = Less | LessOrEqual | Equal | GreaterOrEqual | Greater

record 'v requirement =
  comparison :: version_comparison
  version :: 'v

record 'v alpm =
  parse_version :: "string \<Rightarrow> 'v option"
  parse_requirement :: "string \<Rightarrow> 'v requirement option"
  show_requirement :: "'v requirement \<Rightarrow> string"
  partial_cmp :: "'v \<Rightarrow> 'v \<Rightarrow> ordering option"
  is_satisfied_by :: "'v requirement \<Rightarrow> 'v \<Rightarrow> bool"

section \<open>Checking a constraint\<close>

definition satisfies_constraint :: "'v alpm \<Rightarrow> string \<Rightarrow> string \<Rightarrow> bool" where
  "satisfies_constraint A ver constraint =
     (let constraint = trim constraint in
      if constraint = [] then True
      else (case parse_version A ver of
          None \<Rightarrow> False
        | Some v \<Rightarrow>
            list_all (\<lambda>bound.
                let bound = trim bound in
                bound = [] \<or>
                (case parse_requirement A bound of
                   None \<Rightarrow> False
                 | Some requirement \<Rightarrow> is_satisfied_by A requirement v))
              (split_on CHR '','' constraint)))"

definition vercmp :: "'v alpm \<Rightarrow> string \<Rightarrow> string \<Rightarrow> ordering option" where
  "vercmp A a b =
     (case (parse_version A a, parse_version A b) of
        (Some a, Some b) \<Rightarrow> partial_cmp A a b
      | _ \<Rightarrow> None)"

section \<open>Dependency strings\<close>

record dep_spec =
  dep_name :: string
  dep_constraint :: string

definition is_operator :: "char \<Rightarrow> bool" where
  "is_operator c \<longleftrightarrow> c = CHR ''<'' \<or> c = CHR ''>'' \<or> c = CHR ''=''"

definition parse_dep :: "string \<Rightarrow> dep_spec" where
  "parse_dep dep =
     (let dep = trim dep in
      if list_ex is_operator dep
      then \<lparr>dep_name = trim (takeWhile (\<lambda>c. \<not> is_operator c) dep),
            dep_constraint = trim (dropWhile (\<lambda>c. \<not> is_operator c) dep)\<rparr>
      else \<lparr>dep_name = dep, dep_constraint = []\<rparr>)"

text \<open>Each entry once, in the order of its first occurrence.\<close>

fun collect_unique :: "string list \<Rightarrow> string list \<Rightarrow> string list" where
  "collect_unique seen [] = []"
| "collect_unique seen (v # vs) =
     (if v \<in> set seen then collect_unique seen vs else v # collect_unique (v # seen) vs)"

definition collect_unique_strings :: "string list \<Rightarrow> string list" where
  "collect_unique_strings vs = collect_unique [] vs"

record package_lists =
  pl_depends :: "string list"
  pl_make_depends :: "string list"
  pl_name :: string
  pl_provides :: "string list"

record pkg_deps_t =
  depends :: "string list"
  make_depends :: "string list"
  pkgnames :: "string list"
  provides :: "string list"

definition pkg_deps :: "('p \<Rightarrow> package_lists) \<Rightarrow> 'p list \<Rightarrow> pkg_deps_t" where
  "pkg_deps lists_of pkgs =
     (let ls = map lists_of pkgs in
      \<lparr>depends = collect_unique_strings (concat (map pl_depends ls)),
       make_depends = collect_unique_strings (concat (map pl_make_depends ls)),
       pkgnames = collect_unique_strings (map pl_name ls),
       provides = collect_unique_strings (concat (map pl_provides ls))\<rparr>)"

section \<open>Merging bounds\<close>

type_synonym 'v bound = "'v requirement"

datatype 'v conflict =
  ExcludesPin string "'v bound" 'v
| BoundExcludesPin string "'v bound" "'v bound"
| EmptyRange string "'v bound" "'v bound"

definition is_lower :: "'v bound \<Rightarrow> bool" where
  "is_lower b \<longleftrightarrow> comparison b = Greater \<or> comparison b = GreaterOrEqual"

definition at_least_as_strict :: "'v alpm \<Rightarrow> 'v bound \<Rightarrow> 'v bound \<Rightarrow> bool" where
  "at_least_as_strict A keeper candidate =
     (let ordering = partial_cmp A (version keeper) (version candidate) in
      if is_lower keeper then
        (case ordering of
           Some OGreater \<Rightarrow> True
         | Some OEqual \<Rightarrow> comparison keeper = Greater \<or> comparison candidate = GreaterOrEqual
         | _ \<Rightarrow> False)
      else
        (case ordering of
           Some OLess \<Rightarrow> True
         | Some OEqual \<Rightarrow> comparison keeper = Less \<or> comparison candidate = LessOrEqual
         | _ \<Rightarrow> False))"

definition bound_admits_version :: "'v alpm \<Rightarrow> 'v bound \<Rightarrow> 'v \<Rightarrow> bool" where
  "bound_admits_version A bound v =
     (let ordering = partial_cmp A (version bound) v in
      case comparison bound of
        Greater \<Rightarrow> \<not> (ordering = Some OEqual \<or> ordering = Some OGreater)
      | GreaterOrEqual \<Rightarrow> ordering \<noteq> Some OGreater
      | Less \<Rightarrow> \<not> (ordering = Some OEqual \<or> ordering = Some OLess)
      | LessOrEqual \<Rightarrow> ordering \<noteq> Some OLess
      | Equal \<Rightarrow> ordering = Some OEqual \<or> ordering = None)"

text \<open>The tightest lower and the tightest upper bound, as the loop of \<^verbatim>\<open>satisfiable\<close> keeps them.\<close>

definition tighter :: "'v alpm \<Rightarrow> 'v bound option \<Rightarrow> 'v bound \<Rightarrow> 'v bound option" where
  "tighter A slot b =
     (case slot of
        None \<Rightarrow> Some b
      | Some current \<Rightarrow> if at_least_as_strict A current b then Some current else Some b)"

fun tightest :: "'v alpm \<Rightarrow> 'v bound option \<Rightarrow> 'v bound option \<Rightarrow> 'v bound list \<Rightarrow>
    'v bound option \<times> 'v bound option" where
  "tightest A lower upper [] = (lower, upper)"
| "tightest A lower upper (b # bs) =
     (if is_lower b then tightest A (tighter A lower b) upper bs
      else tightest A lower (tighter A upper b) bs)"

definition empty_range :: "'v alpm \<Rightarrow> 'v bound \<Rightarrow> 'v bound \<Rightarrow> bool" where
  "empty_range A lower upper =
     (case partial_cmp A (version lower) (version upper) of
        Some OGreater \<Rightarrow> True
      | Some OEqual \<Rightarrow> comparison lower \<noteq> GreaterOrEqual \<or> comparison upper \<noteq> LessOrEqual
      | _ \<Rightarrow> False)"

definition satisfiable :: "'v alpm \<Rightarrow> string \<Rightarrow> 'v bound list \<Rightarrow> 'v conflict + unit" where
  "satisfiable A name conjunction =
     (case tightest A None None conjunction of
        (Some lower, Some upper) \<Rightarrow>
          if empty_range A lower upper then Inl (EmptyRange name lower upper) else Inr ()
      | _ \<Rightarrow> Inr ())"

definition merge_bound ::
    "'v alpm \<Rightarrow> 'v bound list \<Rightarrow> string \<Rightarrow> 'v bound \<Rightarrow> 'v conflict + 'v bound list" where
  "merge_bound A conjunction name bound =
     (if comparison bound = Equal then
        (case find (\<lambda>existing. \<not> bound_admits_version A existing (version bound)) conjunction of
           Some existing \<Rightarrow> Inl (ExcludesPin name existing (version bound))
         | None \<Rightarrow> Inr [bound])
      else
        (case find (\<lambda>b. comparison b = Equal) conjunction of
           Some pin \<Rightarrow>
             if bound_admits_version A bound (version pin) then Inr conjunction
             else Inl (BoundExcludesPin name bound pin)
         | None \<Rightarrow>
             let lower = is_lower bound in
             if list_ex (\<lambda>b. at_least_as_strict A b bound)
                  (filter (\<lambda>b. is_lower b = lower) conjunction)
             then Inr conjunction
             else (let merged = filter (\<lambda>b. is_lower b \<noteq> lower) conjunction @ [bound] in
                   case satisfiable A name merged of
                     Inl e \<Rightarrow> Inl e
                   | Inr _ \<Rightarrow> Inr merged)))"

definition join_constraints :: "'v alpm \<Rightarrow> 'v bound list \<Rightarrow> string" where
  "join_constraints A bounds = join '','' (map (show_requirement A) bounds)"

section \<open>The declared dependencies\<close>

definition self_provided_names :: "string \<Rightarrow> string list \<Rightarrow> string list \<Rightarrow> string set" where
  "self_provided_names pkgbase pnames provs =
     {pkgbase} \<union> set pnames \<union>
     set (filter (\<lambda>name. name \<noteq> []) (map (\<lambda>provide. dep_name (parse_dep provide)) provs))"

record 'v dependency_set =
  names :: "string list"
  constraints :: "string \<rightharpoonup> 'v bound list"

definition parse_dep_constraint :: "'v alpm \<Rightarrow> string \<Rightarrow> 'v bound option" where
  "parse_dep_constraint A constraint =
     (let constraint = trim constraint in
      if constraint = [] then None else parse_requirement A constraint)"

definition dep_set_add ::
    "'v alpm \<Rightarrow> 'v dependency_set \<Rightarrow> string \<Rightarrow> 'v conflict + 'v dependency_set" where
  "dep_set_add A ds raw =
     (let dep = parse_dep raw; name = dep_name dep;
          names' = (if constraints ds name = None then names ds @ [name] else names ds);
          conjunction = (case constraints ds name of None \<Rightarrow> [] | Some bs \<Rightarrow> bs)
      in case parse_dep_constraint A (dep_constraint dep) of
           None \<Rightarrow> Inr \<lparr>names = names', constraints = (constraints ds)(name \<mapsto> conjunction)\<rparr>
         | Some bound \<Rightarrow>
             (case merge_bound A conjunction name bound of
                Inl e \<Rightarrow> Inl e
              | Inr merged \<Rightarrow> Inr \<lparr>names = names', constraints = (constraints ds)(name \<mapsto> merged)\<rparr>))"

fun dep_set_fold ::
    "'v alpm \<Rightarrow> 'v dependency_set \<Rightarrow> string list \<Rightarrow> 'v conflict + 'v dependency_set" where
  "dep_set_fold A ds [] = Inr ds"
| "dep_set_fold A ds (raw # raws) =
     (case dep_set_add A ds raw of Inl e \<Rightarrow> Inl e | Inr ds' \<Rightarrow> dep_set_fold A ds' raws)"

definition dep_set_parse :: "'v alpm \<Rightarrow> string list \<Rightarrow> 'v conflict + 'v dependency_set" where
  "dep_set_parse A raws = dep_set_fold A \<lparr>names = [], constraints = Map.empty\<rparr> raws"

definition dep_set_of :: "'v alpm \<Rightarrow> pkg_deps_t \<Rightarrow> 'v conflict + 'v dependency_set" where
  "dep_set_of A deps = dep_set_parse A (depends deps @ make_depends deps)"

definition declared :: "'v alpm \<Rightarrow> 'v dependency_set \<Rightarrow> dep_spec list" where
  "declared A ds =
     map (\<lambda>name. \<lparr>dep_name = name,
                  dep_constraint = (case constraints ds name of
                     None \<Rightarrow> [] | Some bounds \<Rightarrow> join_constraints A bounds)\<rparr>)
       (names ds)"

section \<open>What is relied on of alpm-types\<close>

fun flip :: "ordering \<Rightarrow> ordering" where
  "flip OLess = OGreater" | "flip OEqual = OEqual" | "flip OGreater = OLess"

definition holds :: "version_comparison \<Rightarrow> ordering \<Rightarrow> bool" where
  "holds c ord =
     (case c of
        Less \<Rightarrow> ord = OLess
      | LessOrEqual \<Rightarrow> ord \<noteq> OGreater
      | Equal \<Rightarrow> ord = OEqual
      | GreaterOrEqual \<Rightarrow> ord \<noteq> OLess
      | Greater \<Rightarrow> ord = OGreater)"

text \<open>
  The contract of \<^verbatim>\<open>Ord\<close>: total, antisymmetric in the order of the arguments, and
  transitive; and a requirement holds of a version when the version compares to the
  requirement's as its operator says.
\<close>

definition alpm_ord :: "'v alpm \<Rightarrow> bool" where
  "alpm_ord A \<longleftrightarrow>
     (\<forall>a b. \<exists>c. partial_cmp A a b = Some c \<and> partial_cmp A b a = Some (flip c)) \<and>
     (\<forall>a b c. partial_cmp A a b \<noteq> Some OGreater \<and> partial_cmp A b c \<noteq> Some OGreater \<longrightarrow>
        partial_cmp A a c \<noteq> Some OGreater) \<and>
     (\<forall>r v. is_satisfied_by A r v \<longleftrightarrow>
        (\<exists>c. partial_cmp A v (version r) = Some c \<and> holds (comparison r) c))"

text \<open>A requirement prints as one non-empty element of the stored form and reads back as itself.\<close>

definition alpm_display :: "'v alpm \<Rightarrow> bool" where
  "alpm_display A \<longleftrightarrow>
     (\<forall>r. parse_requirement A (show_requirement A r) = Some r \<and>
          show_requirement A r \<noteq> [] \<and> trimmed (show_requirement A r) \<and>
          CHR '','' \<notin> set (show_requirement A r))"

abbreviation admits :: "'v alpm \<Rightarrow> 'v bound list \<Rightarrow> 'v \<Rightarrow> bool" where
  "admits A bounds v \<equiv> \<forall>b \<in> set bounds. is_satisfied_by A b v"

section \<open>Lemmas\<close>

lemma collect_unique_spec:
  "set (collect_unique seen vs) = set vs - set seen \<and> distinct (collect_unique seen vs)"
  by (induction vs arbitrary: seen) auto

lemma collect_unique_strings_spec:
  "set (collect_unique_strings vs) = set vs" "distinct (collect_unique_strings vs)"
  using collect_unique_spec [of "[]" vs] by (simp_all add: collect_unique_strings_def)

lemma takeWhile_prefix_trim: "set (takeWhile P s) \<subseteq> set s"
  using set_takeWhileD by fastforce

lemma parse_dep_name: "\<forall>c \<in> set (dep_name (parse_dep dep)). \<not> is_operator c"
proof -
  have "\<forall>c \<in> set (trim (takeWhile (\<lambda>c. \<not> is_operator c) (trim dep))). \<not> is_operator c"
    using set_trim set_takeWhileD by fastforce
  then show ?thesis
    by (auto simp: parse_dep_def Let_def list_ex_iff)
qed

lemma flip_flip [simp]: "flip (flip c) = c"
  by (cases c) auto

text \<open>The order behind the comparisons.\<close>

definition ale :: "'v alpm \<Rightarrow> 'v \<Rightarrow> 'v \<Rightarrow> bool" where
  "ale A a b \<longleftrightarrow> partial_cmp A a b \<noteq> Some OGreater"

lemma cmp_ale:
  "alpm_ord A \<Longrightarrow> partial_cmp A a b =
     (if ale A a b then if ale A b a then Some OEqual else Some OLess else Some OGreater)"
  unfolding alpm_ord_def ale_def by (metis flip.simps ordering.exhaust ordering.distinct(1,3,5) option.inject)

lemma ale_total: "alpm_ord A \<Longrightarrow> ale A a b \<or> ale A b a"
  unfolding alpm_ord_def ale_def by (metis flip.simps(3) option.inject ordering.distinct(3))

lemma ale_trans: "alpm_ord A \<Longrightarrow> ale A a b \<Longrightarrow> ale A b c \<Longrightarrow> ale A a c"
  unfolding alpm_ord_def ale_def by blast

lemma satisfied_iff:
  "alpm_ord A \<Longrightarrow> is_satisfied_by A r v \<longleftrightarrow>
     (case comparison r of
        Less \<Rightarrow> \<not> ale A (version r) v
      | LessOrEqual \<Rightarrow> ale A v (version r)
      | Equal \<Rightarrow> ale A v (version r) \<and> ale A (version r) v
      | GreaterOrEqual \<Rightarrow> ale A (version r) v
      | Greater \<Rightarrow> \<not> ale A v (version r))"
proof -
  assume A: "alpm_ord A"
  then have "is_satisfied_by A r v \<longleftrightarrow>
      (\<exists>c. partial_cmp A v (version r) = Some c \<and> holds (comparison r) c)"
    unfolding alpm_ord_def by blast
  also have "\<dots> \<longleftrightarrow> (case comparison r of
        Less \<Rightarrow> \<not> ale A (version r) v
      | LessOrEqual \<Rightarrow> ale A v (version r)
      | Equal \<Rightarrow> ale A v (version r) \<and> ale A (version r) v
      | GreaterOrEqual \<Rightarrow> ale A (version r) v
      | Greater \<Rightarrow> \<not> ale A v (version r))"
    using ale_total [OF A, of v "version r"]
    by (auto simp: cmp_ale [OF A, of v] holds_def split: version_comparison.splits)
  finally show ?thesis .
qed

lemma bound_admits_version_iff:
  "alpm_ord A \<Longrightarrow> bound_admits_version A b v \<longleftrightarrow> is_satisfied_by A b v"
  using ale_total [of A v "version b"]
  by (auto simp: bound_admits_version_def satisfied_iff cmp_ale [of A "version b"]
      split: version_comparison.splits)

lemma at_least_as_strict_sound:
  assumes A: "alpm_ord A" and "at_least_as_strict A k c" "is_lower k = is_lower c"
    and "comparison k \<noteq> Equal" "comparison c \<noteq> Equal" "is_satisfied_by A k v"
  shows "is_satisfied_by A c v"
  using assms(2-)
  by (cases "comparison k"; cases "comparison c";
      simp add: at_least_as_strict_def is_lower_def satisfied_iff [OF A]
        cmp_ale [OF A, of "version k"] split: if_splits)
    (meson ale_trans [OF A] ale_total [OF A])+

lemma at_least_as_strict_total:
  assumes A: "alpm_ord A" and "is_lower k = is_lower c"
    and "comparison k \<noteq> Equal" "comparison c \<noteq> Equal" "\<not> at_least_as_strict A k c"
  shows "at_least_as_strict A c k"
  using assms(2-) ale_total [OF A, of "version k" "version c"]
  by (cases "comparison k"; cases "comparison c")
    (auto simp: at_least_as_strict_def is_lower_def
      cmp_ale [OF A, of "version k"] cmp_ale [OF A, of "version c"] split: if_splits)

lemma tighter_mem: "tighter A slot b = Some x \<Longrightarrow> slot = Some x \<or> x = b"
  by (auto simp: tighter_def split: option.splits if_splits)

lemma tightest_mem:
  "tightest A l u bs = (Some x, Some y) \<Longrightarrow>
     (l = Some x \<or> x \<in> set bs \<and> is_lower x) \<and> (u = Some y \<or> y \<in> set bs \<and> \<not> is_lower y)"
  by (induction A l u bs rule: tightest.induct) (auto split: if_splits dest!: tighter_mem)

lemma empty_range_unsat:
  assumes A: "alpm_ord A" and "empty_range A l u" "is_lower l" "\<not> is_lower u" "comparison u \<noteq> Equal"
  shows "\<not> (is_satisfied_by A l v \<and> is_satisfied_by A u v)"
  using assms(2-)
  by (cases "comparison l"; cases "comparison u";
      simp add: empty_range_def is_lower_def satisfied_iff [OF A]
        cmp_ale [OF A, of "version l"] split: if_splits)
    (meson ale_trans [OF A] ale_total [OF A])+

lemma satisfiable_refuses:
  assumes A: "alpm_ord A" and "satisfiable A name bs = Inl e" "\<forall>b \<in> set bs. comparison b \<noteq> Equal"
  shows "\<not> admits A bs v"
proof -
  obtain l u where lu: "tightest A None None bs = (Some l, Some u)" "empty_range A l u"
    using assms(2) by (auto simp: satisfiable_def split: prod.splits option.splits if_splits)
  then have "l \<in> set bs" "is_lower l" "u \<in> set bs" "\<not> is_lower u"
    using tightest_mem by fastforce+
  then show ?thesis using empty_range_unsat [OF A lu(2)] assms(3) by blast
qed

text \<open>The two ways a bound meets a pin: it admits the pinned version, or nothing satisfies both.\<close>

lemma pin_decides:
  assumes A: "alpm_ord A" and "comparison pin = Equal" "is_satisfied_by A pin v"
  shows "is_satisfied_by A b v \<longleftrightarrow> bound_admits_version A b (version pin)"
proof -
  have eq: "ale A v (version pin)" "ale A (version pin) v"
    using assms by (auto simp: satisfied_iff [OF A])
  have "ale A x v \<longleftrightarrow> ale A x (version pin)" "ale A v x \<longleftrightarrow> ale A (version pin) x" for x
    using eq ale_trans [OF A] by blast+
  then show ?thesis
    by (auto simp: bound_admits_version_iff [OF A] satisfied_iff [OF A] split: version_comparison.splits)
qed

lemma find_None_all: "find P xs = None \<longleftrightarrow> (\<forall>x \<in> set xs. \<not> P x)"
  by (induction xs) auto

lemma merge_keeps:
  assumes A: "alpm_ord A" and nopin: "\<forall>b \<in> set bs. comparison b \<noteq> Equal" "comparison b \<noteq> Equal"
    and "\<not> list_ex (\<lambda>x. at_least_as_strict A x b) (filter (\<lambda>x. is_lower x = is_lower b) bs)"
  shows "admits A (filter (\<lambda>x. is_lower x \<noteq> is_lower b) bs @ [b]) v \<longleftrightarrow>
         admits A bs v \<and> is_satisfied_by A b v"
proof -
  have "is_satisfied_by A x v" if "x \<in> set bs" "is_lower x = is_lower b" "is_satisfied_by A b v" for x
  proof -
    have "\<not> at_least_as_strict A x b" using that(1,2) assms(4) by (auto simp: list_ex_iff)
    then have "at_least_as_strict A b x"
      using at_least_as_strict_total [OF A that(2)] nopin that(1) by blast
    then show ?thesis
      using at_least_as_strict_sound [OF A _ that(2) [symmetric] nopin(2) _ that(3)] nopin(1) that(1) by blast
  qed
  then show ?thesis by auto
qed

lemma merge_bound_Inr:
  assumes A: "alpm_ord A" and ok: "merge_bound A bs name b = Inr bs'"
  shows "admits A bs' v \<longleftrightarrow> admits A bs v \<and> is_satisfied_by A b v"
proof (cases "comparison b = Equal")
  case True
  then have "bs' = [b]" "\<forall>x \<in> set bs. bound_admits_version A x (version b)"
    using ok by (auto simp: merge_bound_def find_None_all split: option.splits)
  then show ?thesis using pin_decides [OF A True, of v] by auto
next
  case False
  show ?thesis
  proof (cases "find (\<lambda>b. comparison b = Equal) bs")
    case (Some pin)
    then have pin: "pin \<in> set bs" "comparison pin = Equal" by (auto dest: find_Some_mem)
    from ok False Some have "bs' = bs" "bound_admits_version A b (version pin)"
      by (auto simp: merge_bound_def split: if_splits)
    then show ?thesis using pin_decides [OF A pin(2), of v b] pin(1) by blast
  next
    case None
    then have nopin: "\<forall>x \<in> set bs. comparison x \<noteq> Equal" by (simp add: find_None_all)
    show ?thesis
    proof (cases "list_ex (\<lambda>x. at_least_as_strict A x b) (filter (\<lambda>x. is_lower x = is_lower b) bs)")
      case True
      then obtain x where "x \<in> set bs" "is_lower x = is_lower b" "at_least_as_strict A x b"
        by (auto simp: list_ex_iff)
      moreover have "bs' = bs" using ok False None True by (simp add: merge_bound_def)
      ultimately show ?thesis using at_least_as_strict_sound [OF A, of x b v] nopin False by blast
    next
      case nodom: False
      then have "bs' = filter (\<lambda>x. is_lower x \<noteq> is_lower b) bs @ [b]"
        using ok False None by (auto simp: merge_bound_def Let_def split: sum.splits)
      then show ?thesis using merge_keeps [OF A nopin False nodom] by simp
    qed
  qed
qed

lemma merge_bound_Inl:
  assumes A: "alpm_ord A" and no: "merge_bound A bs name b = Inl e"
  shows "\<not> (admits A bs v \<and> is_satisfied_by A b v)"
proof (cases "comparison b = Equal")
  case True
  then obtain x where "x \<in> set bs" "\<not> bound_admits_version A x (version b)"
    using no by (auto simp: merge_bound_def split: option.splits dest: find_Some_mem)
  then show ?thesis using pin_decides [OF A True, of v] by blast
next
  case False
  show ?thesis
  proof (cases "find (\<lambda>b. comparison b = Equal) bs")
    case (Some pin)
    then have pin: "pin \<in> set bs" "comparison pin = Equal" by (auto dest: find_Some_mem)
    from no False Some have "\<not> bound_admits_version A b (version pin)"
      by (auto simp: merge_bound_def split: if_splits)
    then show ?thesis using pin_decides [OF A pin(2), of v b] pin(1) by blast
  next
    case None
    then have nopin: "\<forall>x \<in> set bs. comparison x \<noteq> Equal" by (simp add: find_None_all)
    let ?m = "filter (\<lambda>x. is_lower x \<noteq> is_lower b) bs @ [b]"
    have sat: "satisfiable A name ?m = Inl e"
      and nodom: "\<not> list_ex (\<lambda>x. at_least_as_strict A x b) (filter (\<lambda>x. is_lower x = is_lower b) bs)"
      using no False None by (auto simp: merge_bound_def Let_def split: sum.splits if_splits)
    have "\<forall>x \<in> set ?m. comparison x \<noteq> Equal" using nopin False by simp
    with sat have "\<not> admits A ?m v" by (rule satisfiable_refuses [OF A])
    then show ?thesis unfolding merge_keeps [OF A nopin False nodom] .
  qed
qed

section \<open>The stored form of a conjunction\<close>

lemma join_trimmed:
  "\<forall>w \<in> set ws. trimmed w \<and> w \<noteq> [] \<Longrightarrow> trimmed (join sep ws) \<and> (ws \<noteq> [] \<longrightarrow> join sep ws \<noteq> [])"
proof (induction sep ws rule: join.induct)
  case (3 sep w v vs)
  then have "trimmed (join sep (v # vs))" "join sep (v # vs) \<noteq> []" "trimmed w" "w \<noteq> []" by auto
  then show ?case by (auto simp: trimmed_def last_append)
qed auto

lemma satisfies_join_constraints:
  assumes A: "alpm_display A" and v: "parse_version A ver = Some v"
  shows "satisfies_constraint A ver (join_constraints A bounds) \<longleftrightarrow> admits A bounds v"
proof (cases "bounds = []")
  case True
  then show ?thesis by (simp add: satisfies_constraint_def join_constraints_def)
next
  case False
  let ?ws = "map (show_requirement A) bounds"
  have ws: "\<forall>w \<in> set ?ws. trimmed w \<and> w \<noteq> []" "\<forall>w \<in> set ?ws. CHR '','' \<notin> set w"
    using A by (auto simp: alpm_display_def)
  have "trim (join '','' ?ws) = join '','' ?ws" "join '','' ?ws \<noteq> []"
    using join_trimmed [OF ws(1), of "'',''"] False by (auto simp: trim_trimmed)
  moreover have "split_on CHR '','' (join '','' ?ws) = ?ws"
    using split_on_join [OF _ ws(2)] False by simp
  moreover have "parse_requirement A (show_requirement A b) = Some b" "show_requirement A b \<noteq> []"
    "trim (show_requirement A b) = show_requirement A b" for b
    using A by (auto simp: alpm_display_def trim_trimmed)
  ultimately show ?thesis
    using v by (simp add: satisfies_constraint_def join_constraints_def list_all_iff)
qed

section \<open>A parsed dependency set\<close>

definition dep_set_wf :: "'v dependency_set \<Rightarrow> bool" where
  "dep_set_wf ds \<longleftrightarrow> distinct (names ds) \<and> dom (constraints ds) = set (names ds)"

definition bounds_on :: "'v dependency_set \<Rightarrow> string \<Rightarrow> 'v bound list" where
  "bounds_on ds name = (case constraints ds name of None \<Rightarrow> [] | Some bs \<Rightarrow> bs)"

text \<open>What a list of raw entries asks of \<open>name\<close>: every bound declared on it that parses.\<close>

definition asked :: "'v alpm \<Rightarrow> string list \<Rightarrow> string \<Rightarrow> 'v bound list" where
  "asked A raws name =
     concat (map (\<lambda>raw. let dep = parse_dep raw in
         if dep_name dep = name
         then (case parse_dep_constraint A (dep_constraint dep) of None \<Rightarrow> [] | Some b \<Rightarrow> [b])
         else []) raws)"

lemma dep_set_add_wf:
  assumes wf: "dep_set_wf ds" and add: "dep_set_add A ds raw = Inr ds'"
  shows "dep_set_wf ds' \<and> set (names ds') = insert (dep_name (parse_dep raw)) (set (names ds))"
proof -
  let ?n = "dep_name (parse_dep raw)"
  obtain bs where "ds' = \<lparr>names = if constraints ds ?n = None then names ds @ [?n] else names ds,
                          constraints = (constraints ds)(?n \<mapsto> bs)\<rparr>"
    using add by (auto simp: dep_set_add_def Let_def split: option.splits sum.splits)
  moreover have "constraints ds ?n = None \<longleftrightarrow> ?n \<notin> set (names ds)"
    using wf by (auto simp: dep_set_wf_def)
  ultimately show ?thesis using wf by (auto simp: dep_set_wf_def)
qed

lemma dep_set_add_sound:
  assumes A: "alpm_ord A" and add: "dep_set_add A ds raw = Inr ds'"
  shows "admits A (bounds_on ds' n) v \<longleftrightarrow> admits A (bounds_on ds n) v \<and> admits A (asked A [raw] n) v"
proof (cases "n = dep_name (parse_dep raw)")
  case False
  then have "constraints ds' n = constraints ds n"
    using add by (auto simp: dep_set_add_def Let_def split: option.splits sum.splits)
  then show ?thesis using False by (simp add: bounds_on_def asked_def Let_def)
next
  case True
  show ?thesis
  proof (cases "parse_dep_constraint A (dep_constraint (parse_dep raw))")
    case None
    then have "bounds_on ds' n = bounds_on ds n" using add True
      by (auto simp: dep_set_add_def bounds_on_def Let_def)
    then show ?thesis using None True by (simp add: asked_def Let_def)
  next
    case (Some b)
    then obtain bs where "merge_bound A (bounds_on ds n) n b = Inr bs" "bounds_on ds' n = bs"
      using add True by (auto simp: dep_set_add_def bounds_on_def Let_def split: sum.splits)
    then show ?thesis using merge_bound_Inr [OF A] Some True by (auto simp: asked_def Let_def)
  qed
qed

lemma dep_set_fold_sound:
  assumes A: "alpm_ord A"
  shows "dep_set_wf ds \<Longrightarrow> dep_set_fold A ds raws = Inr ds' \<Longrightarrow>
     dep_set_wf ds' \<and> set (names ds') = set (names ds) \<union> (\<lambda>raw. dep_name (parse_dep raw)) ` set raws \<and>
     (admits A (bounds_on ds' n) v \<longleftrightarrow> admits A (bounds_on ds n) v \<and> admits A (asked A raws n) v)"
proof (induction raws arbitrary: ds)
  case Nil
  then show ?case by (simp add: asked_def)
next
  case (Cons raw raws)
  then obtain ds1 where ds1: "dep_set_add A ds raw = Inr ds1" "dep_set_fold A ds1 raws = Inr ds'"
    by (auto split: sum.splits)
  have split: "asked A (raw # raws) n = asked A [raw] n @ asked A raws n"
    by (simp add: asked_def)
  from dep_set_add_wf [OF Cons.prems(1) ds1(1)] Cons.IH [OF _ ds1(2)]
    dep_set_add_sound [OF A ds1(1), of n v]
  show ?case unfolding split by auto
qed

lemma dep_set_add_Inl:
  assumes A: "alpm_ord A" and add: "dep_set_add A ds raw = Inl e"
  shows "\<exists>n. \<forall>v. \<not> (admits A (bounds_on ds n) v \<and> admits A (asked A [raw] n) v)"
proof -
  let ?n = "dep_name (parse_dep raw)"
  obtain b where b: "parse_dep_constraint A (dep_constraint (parse_dep raw)) = Some b"
      "merge_bound A (bounds_on ds ?n) ?n b = Inl e"
    using add by (auto simp: dep_set_add_def bounds_on_def Let_def split: sum.splits option.splits)
  then have "\<not> (admits A (bounds_on ds ?n) v \<and> admits A (asked A [raw] ?n) v)" for v
    using merge_bound_Inl [OF A b(2), of v] by (auto simp: asked_def Let_def)
  then show ?thesis by blast
qed

lemma dep_set_fold_Inl:
  assumes A: "alpm_ord A"
  shows "dep_set_wf ds \<Longrightarrow> dep_set_fold A ds raws = Inl e \<Longrightarrow>
     \<exists>n. \<forall>v. \<not> (admits A (bounds_on ds n) v \<and> admits A (asked A raws n) v)"
proof (induction raws arbitrary: ds)
  case Nil
  then show ?case by simp
next
  case (Cons raw raws)
  have split: "asked A (raw # raws) n = asked A [raw] n @ asked A raws n" for n
    by (simp add: asked_def)
  show ?case
  proof (cases "dep_set_add A ds raw")
    case (Inl e')
    then show ?thesis using dep_set_add_Inl [OF A Inl] unfolding split set_append ball_Un by blast
  next
    case (Inr ds1)
    then obtain n where "\<forall>v. \<not> (admits A (bounds_on ds1 n) v \<and> admits A (asked A raws n) v)"
      using Cons.IH [of ds1] Cons.prems dep_set_add_wf [OF Cons.prems(1) Inr] by auto
    then show ?thesis using dep_set_add_sound [OF A Inr, of n] unfolding split set_append ball_Un by blast
  qed
qed

end
