(* ===== verification/Build_Rows.thy ===== *)
theory Build_Rows
  imports Db_Model Versions
begin

text \<open>
  \<^verbatim>\<open>aurcache-db/src/helpers/builds.rs\<close>: the queries on build rows that the update,
  dependency and completion paths share, the status a package shows, and the
  compare-and-swap every status change goes through.
\<close>

section \<open>The newest successful build\<close>

definition recency :: "build \<Rightarrow> timestamp option" where
  "recency b = (case b_end_time b of Some t \<Rightarrow> Some t | None \<Rightarrow> b_start_time b)"

text \<open>
  The key of \<^verbatim>\<open>ORDER BY recency DESC, id DESC\<close>, a row with neither time last.
\<close>

definition recency_desc :: "build \<Rightarrow> (int \<times> int) \<times> int" where
  "recency_desc b = (case recency b of None \<Rightarrow> (1, 0) | Some t \<Rightarrow> (0, - t), - b_id b)"

definition newest_success :: "id \<Rightarrow> platform option \<Rightarrow> tables \<Rightarrow> build option" where
  "newest_success pkg_id pf d =
     min_by_key recency_desc
       (filter (\<lambda>b. b_pkg_id b = pkg_id \<and> b_status b = Successful \<and>
                    (case pf of None \<Rightarrow> True | Some p \<Rightarrow> b_platform b = p))
          (builds d))"

definition known_version :: "string \<Rightarrow> string option" where
  "known_version v = (if v \<noteq> [] then Some v else None)"

definition latest_successful_version :: "id \<Rightarrow> platform option \<Rightarrow> string option dbm" where
  "latest_successful_version pkg_id pf =
     dbind (select (newest_success pkg_id pf)) (\<lambda>row.
     ret (case row of None \<Rightarrow> None | Some b \<Rightarrow> known_version (b_version b)))"

definition dependency_satisfied :: "'v alpm \<Rightarrow> id \<Rightarrow> platform \<Rightarrow> string \<Rightarrow> bool dbm" where
  "dependency_satisfied A dependee_id pf constraint =
     dbind (latest_successful_version dependee_id (Some pf)) (\<lambda>v.
     ret (case v of None \<Rightarrow> False | Some ver \<Rightarrow> satisfies_constraint A ver constraint))"

fun dependencies_satisfied :: "'v alpm \<Rightarrow> dependency list \<Rightarrow> platform \<Rightarrow> bool dbm" where
  "dependencies_satisfied A [] pf = ret True"
| "dependencies_satisfied A (dep # deps) pf =
     dbind (dependency_satisfied A (d_dependee_id dep) pf (d_version_constraint dep)) (\<lambda>ok.
     if \<not> ok then ret False else dependencies_satisfied A deps pf)"

definition is_pending_for :: "id \<Rightarrow> platform \<Rightarrow> build \<Rightarrow> bool" where
  "is_pending_for pkg_id pf b \<longleftrightarrow>
     b_pkg_id b = pkg_id \<and> b_platform b = pf \<and> b_status b \<in> set IN_PROGRESS"

definition pending_build :: "id \<Rightarrow> platform \<Rightarrow> build option dbm" where
  "pending_build pkg_id pf = select (\<lambda>d. find (is_pending_for pkg_id pf) (builds d))"

definition latest_successful_build_vcs_sources ::
    "id \<Rightarrow> platform option \<Rightarrow> (string \<times> string) list dbm" where
  "latest_successful_build_vcs_sources pkg_id pf =
     dbind (select (newest_success pkg_id pf)) (\<lambda>row.
     ret (case row of
            None \<Rightarrow> []
          | Some b \<Rightarrow> (case b_vcs_sources b of None \<Rightarrow> [] | Some commits \<Rightarrow> commits)))"

definition record_build_vcs_sources :: "id \<Rightarrow> (string \<times> string) list \<Rightarrow> unit dbm" where
  "record_build_vcs_sources build_id commits =
     dthen (update_builds (\<lambda>b. b_id b = build_id)
              (\<lambda>b. b\<lparr>b_vcs_sources := (if commits \<noteq> [] then Some commits else None)\<rparr>))
       (ret ())"

text \<open>The same version as a correlated subquery on the package row of a listing.\<close>

definition latest_successful_version_expr :: "tables \<Rightarrow> package \<Rightarrow> string option" where
  "latest_successful_version_expr d p =
     (case min_by_key recency_desc
             (filter (\<lambda>b. b_pkg_id b = p_id p \<and> b_status b = Successful) (builds d)) of
        None \<Rightarrow> None
      | Some b \<Rightarrow> if b_version b = [] then None else Some (b_version b))"

section \<open>The status a package shows\<close>

definition PRECEDENCE :: "build_state list" where
  "PRECEDENCE = [Active, Publishing, Enqueued, WaitingForDeps, Failed, Successful]"

fun position :: "('a \<Rightarrow> bool) \<Rightarrow> 'a list \<Rightarrow> nat option" where
  "position p [] = None"
| "position p (x # xs) = (if p x then Some 0 else map_option Suc (position p xs))"

definition precedence :: "build_state \<Rightarrow> nat" where
  "precedence state = (case position (\<lambda>s. s = state) PRECEDENCE of None \<Rightarrow> 0 | Some i \<Rightarrow> Suc i)"

definition combined_status :: "build_state list \<Rightarrow> build_state option" where
  "combined_status states = min_by_key precedence states"

text \<open>SQL's \<^verbatim>\<open>MAX\<close>, which is \<^verbatim>\<open>NULL\<close> over no rows.\<close>

fun sql_max :: "int list \<Rightarrow> int option" where
  "sql_max [] = None"
| "sql_max (x # xs) = (case sql_max xs of None \<Rightarrow> Some x | Some m \<Rightarrow> Some (max x m))"

definition newest_builds :: "id \<Rightarrow> tables \<Rightarrow> (platform \<times> build_state) list" where
  "newest_builds pkg_id d =
     map (\<lambda>b. (b_platform b, b_status b))
       (filter (\<lambda>b. b_pkg_id b = pkg_id \<and>
            Some (b_number b) =
              sql_max (map b_number
                (filter (\<lambda>l. b_pkg_id l = b_pkg_id b \<and> b_platform l = b_platform b) (builds d))))
          (builds d))"

definition unwrap_or_default :: "'a list option \<Rightarrow> 'a list" where
  "unwrap_or_default xs = (case xs of None \<Rightarrow> [] | Some ys \<Rightarrow> ys)"

definition refresh_package_status :: "id \<Rightarrow> unit dbm" where
  "refresh_package_status pkg_id =
     dbind (select (\<lambda>d. map_option p_platforms (find_package_by_id pkg_id d))) (\<lambda>row.
     case row of
       None \<Rightarrow> ret ()
     | Some cfg \<Rightarrow>
         let configured = unwrap_or_default cfg in
         dbind (select (newest_builds pkg_id)) (\<lambda>newest.
         case combined_status (map snd (filter (\<lambda>(pf, _). pf \<in> set configured) newest)) of
           None \<Rightarrow> ret ()
         | Some status \<Rightarrow>
             modify (set_packages (\<lambda>p. p_id p = pkg_id) (\<lambda>p. p\<lparr>p_status := status\<rparr>))))"

section \<open>Changing a build\<close>

definition rollback_stmt :: "unit dbm" where
  "rollback_stmt = select (\<lambda>_. ())"

definition delete_build_row :: "build \<Rightarrow> unit dbm" where
  "delete_build_row build =
     transaction
       (dthen (modify (\<lambda>d. d\<lparr>builds := filter (\<lambda>b. b_id b \<noteq> b_id build) (builds d)\<rparr>))
       (dthen (refresh_package_status (b_pkg_id build))
       (ret (Commit ()))))"

datatype transition = Moved | Unchanged

text \<open>
  \<open>guard\<close> and \<open>set\<close> are what the caller's closure adds: further filters, and the
  columns that change along with the status.
\<close>

definition transition ::
    "build \<Rightarrow> build_state list \<Rightarrow> build_state \<Rightarrow> (build \<Rightarrow> bool) \<Rightarrow> (build \<Rightarrow> build) \<Rightarrow> transition dbm" where
  "transition build from to_state guard upd =
     transaction
       (dbind (update_builds
                 (\<lambda>b. b_id b = b_id build \<and> b_status b \<in> set from \<and> guard b)
                 (\<lambda>b. upd (b\<lparr>b_status := to_state\<rparr>))) (\<lambda>rows_affected.
        if rows_affected = 0 then dthen rollback_stmt (ret (Rollback Unchanged))
        else dthen (refresh_package_status (b_pkg_id build)) (ret (Commit Moved))))"

definition build_refs :: "id list \<Rightarrow> build_ref list dbm" where
  "build_refs ids =
     (if ids = [] then ret []
      else select (\<lambda>d.
        concat (map (\<lambda>b. case find_package_by_id (b_pkg_id b) d of
                     None \<Rightarrow> []
                   | Some p \<Rightarrow> [\<lparr>pkgbase = p_name p, number = b_number b\<rparr>])
          (sort_key b_id (filter (\<lambda>b. b_id b \<in> set ids) (builds d))))))"

section \<open>The status as a function of the tables\<close>

text \<open>
  What a package's own builds add up to: the specification the query of
  \<open>refresh_package_status\<close> is measured against.
\<close>

definition own_builds :: "id \<Rightarrow> tables \<Rightarrow> build list" where
  "own_builds pkg_id d = filter (\<lambda>b. b_pkg_id b = pkg_id) (builds d)"

definition is_newest :: "build list \<Rightarrow> build \<Rightarrow> bool" where
  "is_newest own b \<longleftrightarrow>
     (\<forall>l \<in> set own. b_platform l = b_platform b \<longrightarrow> b_number l \<le> b_number b)"

definition shown_status :: "package \<Rightarrow> tables \<Rightarrow> build_state option" where
  "shown_status p d =
     (let own = own_builds (p_id p) d; configured = unwrap_or_default (p_platforms p)
      in combined_status (map b_status
           (filter (\<lambda>b. is_newest own b \<and> b_platform b \<in> set configured) own)))"

definition status_in_line :: "tables \<Rightarrow> bool" where
  "status_in_line d \<longleftrightarrow>
     (\<forall>p \<in> set (packages d). \<forall>st. shown_status p d = Some st \<longrightarrow> p_status p = st)"

definition refreshed :: "id \<Rightarrow> tables \<Rightarrow> tables" where
  "refreshed pkg_id d =
     (case find_package_by_id pkg_id d of
        None \<Rightarrow> d
      | Some p \<Rightarrow>
          (case shown_status p d of
             None \<Rightarrow> d
           | Some st \<Rightarrow> set_packages (\<lambda>p. p_id p = pkg_id) (\<lambda>p. p\<lparr>p_status := st\<rparr>) d))"

lemma sql_max_None [simp]: "sql_max xs = None \<longleftrightarrow> xs = []"
  by (cases xs) (auto split: option.splits)

lemma sql_max_bound: "sql_max xs = Some m \<Longrightarrow> m \<in> set xs \<and> (\<forall>x \<in> set xs. x \<le> m)"
  by (induction xs arbitrary: m) (auto split: option.splits simp: max_def)

lemma sql_max_Some:
  "sql_max xs = Some m \<longleftrightarrow> m \<in> set xs \<and> (\<forall>x \<in> set xs. x \<le> m)"
proof
  assume m: "m \<in> set xs \<and> (\<forall>x \<in> set xs. x \<le> m)"
  then obtain k where "sql_max xs = Some k" by (cases "sql_max xs") auto
  with m sql_max_bound [OF this] show "sql_max xs = Some m" by (simp add: antisym)
qed (rule sql_max_bound)

lemma newest_builds_eq:
  "newest_builds pkg_id d =
     map (\<lambda>b. (b_platform b, b_status b))
       (filter (is_newest (own_builds pkg_id d)) (own_builds pkg_id d))"
proof -
  have "(Some (b_number b) = sql_max (map b_number
            (filter (\<lambda>l. b_pkg_id l = b_pkg_id b \<and> b_platform l = b_platform b) (builds d)))) \<longleftrightarrow>
        is_newest (own_builds pkg_id d) b"
    if "b \<in> set (builds d)" "b_pkg_id b = pkg_id" for b
    using that unfolding eq_commute [of "Some _"] sql_max_Some
    by (auto simp: is_newest_def own_builds_def)
  then have "filter (\<lambda>b. b_pkg_id b = pkg_id \<and> (Some (b_number b) = sql_max (map b_number
            (filter (\<lambda>l. b_pkg_id l = b_pkg_id b \<and> b_platform l = b_platform b) (builds d))))) (builds d) =
        filter (\<lambda>b. b_pkg_id b = pkg_id \<and> is_newest (own_builds pkg_id d) b) (builds d)"
    by (intro filter_cong) auto
  then show ?thesis
    by (simp add: newest_builds_def own_builds_def [of pkg_id d] conj_commute)
qed

lemma newest_filter:
  "map snd (filter (\<lambda>(pf, _). pf \<in> C) (map (\<lambda>b. (b_platform b, b_status b)) bs)) =
   map b_status (filter (\<lambda>b. b_platform b \<in> C) bs)"
  by (induction bs) auto

lemma refresh_package_status_Inr:
  "refresh_package_status pkg_id s = (Inr x, t) \<Longrightarrow>
     db t = refreshed pkg_id (db s) \<and> clock t = clock s"
  by (auto simp: refresh_package_status_def refreshed_def shown_status_def Let_def db_simps
      newest_builds_eq newest_filter conj_commute find_package_by_id_def
      dest!: find_Some_mem split: option.splits)

lemma refreshed_sel [simp]:
  "builds (refreshed pkg_id d) = builds d"
  "dependencies (refreshed pkg_id d) = dependencies d"
  "workers (refreshed pkg_id d) = workers d"
  "worker_settings (refreshed pkg_id d) = worker_settings d"
  "files (refreshed pkg_id d) = files d"
  "next_build_id (refreshed pkg_id d) = next_build_id d"
  "next_worker_id (refreshed pkg_id d) = next_worker_id d"
  "next_file_id (refreshed pkg_id d) = next_file_id d"
  by (auto simp: refreshed_def split: option.splits)

lemma map_p_id_refreshed [simp]: "map p_id (packages (refreshed pkg_id d)) = map p_id (packages d)"
  by (auto simp: refreshed_def comp_def split: option.splits)

end
