(* ===== verification/Ledger.thy ===== *)
theory Ledger
  imports Db_Model
begin

text \<open>
  The build ledger: what the rest of the program relies on of the \<^verbatim>\<open>builds\<close> table. A row
  is one attempt at building one package on one platform; \<open>row_step\<close> lists every way a
  row may change, \<open>ledger_step\<close> adds the insertion of a pending build and the removal of
  one. The programs of the later theories are shown to make only these steps
  (\<open>refines\<close>), so what is proved of the ledger holds of all of them, whatever statement
  they fail at and however they are interleaved.
\<close>

section \<open>One row\<close>

inductive row_step :: "build \<Rightarrow> build \<Rightarrow> bool" where
  claim: "b_status b = Enqueued \<Longrightarrow>
     row_step b (b\<lparr>b_status := Active, b_start_time := Some now, b_worker_id := Some w,
                   b_lease_expires_at := Some lease\<rparr>)"
| renew: "b_status b = Active \<Longrightarrow> row_step b (b\<lparr>b_lease_expires_at := Some lease\<rparr>)"
| abandon: "b_status b = Active \<Longrightarrow>
     row_step b (b\<lparr>b_status := Failed, b_end_time := Some now, b_lease_expires_at := None,
                   b_end_reason := Some reason\<rparr>)"
| cancel: "b_status b \<in> {Active, Enqueued, WaitingForDeps} \<Longrightarrow>
     row_step b (b\<lparr>b_status := Failed, b_end_time := Some now, b_lease_expires_at := None,
                   b_end_reason := Some Canceled\<rparr>)"
| hand_over: "b_status b = Active \<Longrightarrow>
     row_step b (b\<lparr>b_status := Publishing, b_lease_expires_at := None\<rparr>)"
| worker_failed: "b_status b = Active \<Longrightarrow>
     row_step b (b\<lparr>b_status := Failed, b_end_time := Some now, b_lease_expires_at := None\<rparr>)"
| settled: "b_status b = Publishing \<Longrightarrow> row_step b (b\<lparr>b_status := Successful\<rparr>)"
| publish_failed: "b_status b = Publishing \<Longrightarrow>
     row_step b (b\<lparr>b_status := Failed, b_end_time := Some now\<rparr>)"
| promoted: "b_status b = WaitingForDeps \<Longrightarrow> row_step b (b\<lparr>b_status := Enqueued\<rparr>)"
| demoted: "b_status b = Enqueued \<Longrightarrow> row_step b (b\<lparr>b_status := WaitingForDeps\<rparr>)"
| annotate: "b_id b' = b_id b \<Longrightarrow> b_pkg_id b' = b_pkg_id b \<Longrightarrow> b_number b' = b_number b \<Longrightarrow>
     b_status b' = b_status b \<Longrightarrow> b_platform b' = b_platform b \<Longrightarrow>
     b_worker_id b' = b_worker_id b \<Longrightarrow> b_lease_expires_at b' = b_lease_expires_at b \<Longrightarrow>
     b_start_time b' = b_start_time b \<Longrightarrow>
     b_trigger b' = b_trigger b \<Longrightarrow> b_end_reason b' = b_end_reason b \<Longrightarrow> row_step b b'"

text \<open>The edges of the state machine a row moves along.\<close>

fun may_move :: "build_state \<Rightarrow> build_state \<Rightarrow> bool" where
  "may_move Enqueued s = (s \<in> {Enqueued, WaitingForDeps, Active, Failed})"
| "may_move WaitingForDeps s = (s \<in> {WaitingForDeps, Enqueued, Failed})"
| "may_move Active s = (s \<in> {Active, Publishing, Failed})"
| "may_move Publishing s = (s \<in> {Publishing, Successful, Failed})"
| "may_move Successful s = (s = Successful)"
| "may_move Failed s = (s = Failed)"

lemma row_step_moves: "row_step b b' \<Longrightarrow> may_move (b_status b) (b_status b')"
  by (induction rule: row_step.induct) (auto, (case_tac "b_status b"; simp)+)

lemma row_step_identity:
  "row_step b b' \<Longrightarrow> b_id b' = b_id b \<and> b_pkg_id b' = b_pkg_id b \<and> b_number b' = b_number b \<and>
     b_platform b' = b_platform b \<and> b_trigger b' = b_trigger b"
  by (induction rule: row_step.induct) auto

text \<open>What holds of a row on its own.\<close>

definition row_ok :: "build \<Rightarrow> bool" where
  "row_ok b \<longleftrightarrow>
     (b_status b = Active \<longleftrightarrow> b_lease_expires_at b \<noteq> None) \<and>
     (b_status b \<in> {Active, Publishing, Successful} \<longrightarrow> b_worker_id b \<noteq> None) \<and>
     (b_status b \<in> {Enqueued, WaitingForDeps} \<longrightarrow> b_worker_id b = None) \<and>
     (b_status b \<noteq> Failed \<longrightarrow> b_end_reason b = None)"

lemma row_step_ok: "row_step b b' \<Longrightarrow> row_ok b \<Longrightarrow> row_ok b'"
  by (induction rule: row_step.induct) (auto simp: row_ok_def)

text \<open>A worker, once recorded, stays recorded; a settled row keeps its outcome.\<close>

lemma row_step_worker:
  "row_step b b' \<Longrightarrow> row_ok b \<Longrightarrow> b_worker_id b = Some w \<Longrightarrow> b_worker_id b' = Some w"
  by (induction rule: row_step.induct) (auto simp: row_ok_def)

lemma row_step_settled:
  "row_step b b' \<Longrightarrow> \<not> is_in_progress (b_status b) \<Longrightarrow>
     b_status b' = b_status b \<and> b_worker_id b' = b_worker_id b \<and> b_end_reason b' = b_end_reason b"
  by (induction rule: row_step.induct) auto

section \<open>The table\<close>

type_synonym ledger = "build list \<times> id"

definition ledger :: "tables \<Rightarrow> ledger" where
  "ledger d = (builds d, next_build_id d)"

text \<open>The columns of the \<^verbatim>\<open>INSERT\<close>; every other column is \<^verbatim>\<open>NULL\<close>.\<close>

definition new_build ::
    "id \<Rightarrow> id \<Rightarrow> int \<Rightarrow> build_state \<Rightarrow> timestamp \<Rightarrow> platform \<Rightarrow> string \<Rightarrow> build_trigger \<Rightarrow> build" where
  "new_build i pkg_id num state start pf ver trig =
     \<lparr>b_id = i, b_pkg_id = pkg_id, b_number = num, b_status = state, b_start_time = Some start,
      b_end_time = None, b_platform = pf, b_version = ver, b_size = None, b_peak_memory = None,
      b_disk_chroot = None, b_disk_workdir = None, b_disk_sources = None, b_disk_build_tree = None,
      b_worker_id = None, b_lease_expires_at = None, b_trigger = trig, b_end_reason = None,
      b_vcs_sources = None, b_kept_path = None, b_kept_until = None, b_kept_tree = None\<rparr>"

inductive ledger_step :: "ledger \<Rightarrow> ledger \<Rightarrow> bool" where
  rows: "list_all2 (\<lambda>b b'. b' = b \<or> row_step b b') bs bs' \<Longrightarrow> ledger_step (bs, n) (bs', n)"
| insert: "state \<in> {Enqueued, WaitingForDeps} \<Longrightarrow>
     \<forall>b \<in> set bs. b_pkg_id b = pkg_id \<longrightarrow> b_platform b = pf \<longrightarrow> \<not> is_in_progress (b_status b) \<Longrightarrow>
     \<forall>b \<in> set bs. b_pkg_id b = pkg_id \<longrightarrow> b_number b < num \<Longrightarrow>
     num = 1 \<or> (\<exists>b \<in> set bs. num = b_number b + 1) \<Longrightarrow>
     ledger_step (bs, n) (bs @ [new_build n pkg_id num state start pf ver trig], n + 1)"
| remove: "ledger_step (bs, n) (filter (\<lambda>b. b_id b \<noteq> i) bs, n)"

text \<open>
  What holds of the whole table: row identities, the numbers within a package, at most
  one unsettled build per package and platform, which is the newest there.
\<close>

definition rows_ok :: "ledger \<Rightarrow> bool" where
  "rows_ok L \<longleftrightarrow> (\<forall>b \<in> set (fst L). b_id b < snd L \<and> 0 < b_number b \<and> row_ok b)"

definition numbers_ok :: "ledger \<Rightarrow> bool" where
  "numbers_ok L \<longleftrightarrow> (\<forall>a \<in> set (fst L). \<forall>b \<in> set (fst L).
     b_pkg_id a = b_pkg_id b \<longrightarrow> b_number a = b_number b \<longrightarrow> b_id a = b_id b)"

definition pending_newest :: "ledger \<Rightarrow> bool" where
  "pending_newest L \<longleftrightarrow> (\<forall>a \<in> set (fst L). \<forall>b \<in> set (fst L).
     b_pkg_id a = b_pkg_id b \<longrightarrow> b_platform a = b_platform b \<longrightarrow>
     is_in_progress (b_status a) \<longrightarrow> b_number b \<le> b_number a)"

definition ledger_ok :: "ledger \<Rightarrow> bool" where
  "ledger_ok L \<longleftrightarrow> distinct (map b_id (fst L)) \<and> rows_ok L \<and> numbers_ok L \<and> pending_newest L"

lemma numbers_okD:
  "numbers_ok L \<Longrightarrow> a \<in> set (fst L) \<Longrightarrow> b \<in> set (fst L) \<Longrightarrow> b_pkg_id a = b_pkg_id b \<Longrightarrow>
     b_number a = b_number b \<Longrightarrow> b_id a = b_id b"
  unfolding numbers_ok_def by blast

lemma pending_newestD:
  "pending_newest L \<Longrightarrow> a \<in> set (fst L) \<Longrightarrow> b \<in> set (fst L) \<Longrightarrow> b_pkg_id a = b_pkg_id b \<Longrightarrow>
     b_platform a = b_platform b \<Longrightarrow> is_in_progress (b_status a) \<Longrightarrow> b_number b \<le> b_number a"
  unfolding pending_newest_def by blast

lemma ledger_okD:
  assumes "ledger_ok L"
  shows "distinct (map b_id (fst L))" "rows_ok L" "numbers_ok L" "pending_newest L"
  using assms by (simp_all add: ledger_ok_def)

lemma ledger_ok_one_pending:
  assumes ok: "ledger_ok L" and ab: "a \<in> set (fst L)" "b \<in> set (fst L)" "b_pkg_id a = b_pkg_id b"
    "b_platform a = b_platform b" "is_in_progress (b_status a)" "is_in_progress (b_status b)"
  shows "a = b"
proof -
  have "b_number b \<le> b_number a"
    by (rule pending_newestD [OF ledger_okD(4) [OF ok]]) (use ab in auto)
  moreover have "b_number a \<le> b_number b"
    by (rule pending_newestD [OF ledger_okD(4) [OF ok]]) (use ab in auto)
  ultimately have "b_id a = b_id b"
    by (intro numbers_okD [OF ledger_okD(3) [OF ok]]) (use ab in auto)
  with ledger_okD(1) [OF ok] ab(1,2) show ?thesis by (rule distinct_map_eq)
qed

lemma in_progress_before: "may_move s s' \<Longrightarrow> is_in_progress s' \<Longrightarrow> is_in_progress s"
  by (cases s; cases s') auto

text \<open>Rows before and after a bulk step, paired by position.\<close>

lemma list_all2_rows_before:
  assumes "list_all2 (\<lambda>b b'. b' = b \<or> row_step b b') bs bs'" and "b' \<in> set bs'"
  shows "\<exists>b \<in> set bs. b' = b \<or> row_step b b'"
  using assms by (induction rule: list_all2_induct) auto

lemma row_step_back:
  assumes "b' = b \<or> row_step b b'"
  shows "b_id b' = b_id b \<and> b_pkg_id b' = b_pkg_id b \<and> b_number b' = b_number b \<and>
    b_platform b' = b_platform b \<and> (row_ok b \<longrightarrow> row_ok b') \<and>
    (is_in_progress (b_status b') \<longrightarrow> is_in_progress (b_status b))"
  using assms
proof
  assume "row_step b b'"
  then show ?thesis
    using row_step_identity row_step_ok in_progress_before [OF row_step_moves] by blast
qed simp

lemma list_all2_rows_ids:
  "list_all2 (\<lambda>b b'. b' = b \<or> row_step b b') bs bs' \<Longrightarrow> map b_id bs' = map b_id bs"
  by (induction rule: list_all2_induct) (auto dest: row_step_identity)

lemma ledger_ok_rows:
  assumes step: "list_all2 (\<lambda>b b'. b' = b \<or> row_step b b') bs bs'" and ok: "ledger_ok (bs, n)"
  shows "ledger_ok (bs', n)"
proof -
  have prev: "\<exists>b \<in> set bs. b_id b' = b_id b \<and> b_pkg_id b' = b_pkg_id b \<and> b_number b' = b_number b \<and>
      b_platform b' = b_platform b \<and> (row_ok b \<longrightarrow> row_ok b') \<and>
      (is_in_progress (b_status b') \<longrightarrow> is_in_progress (b_status b))" if "b' \<in> set bs'" for b'
    using list_all2_rows_before [OF step that] row_step_back by blast
  have "rows_ok (bs', n)" unfolding rows_ok_def
  proof
    fix b' assume "b' \<in> set (fst (bs', n))"
    with prev [of b'] ok show "b_id b' < snd (bs', n) \<and> 0 < b_number b' \<and> row_ok b'"
      by (auto simp: ledger_ok_def rows_ok_def)
  qed
  moreover have "numbers_ok (bs', n)" "pending_newest (bs', n)"
    unfolding numbers_ok_def pending_newest_def
  proof (safe, goal_cases)
    case (1 a' b')
    with prev [of a'] prev [of b'] show ?case
      using numbers_okD [OF ledger_okD(3) [OF ok]] by (metis fst_conv)
  next
    case (2 a' b')
    with prev [of a'] prev [of b'] show ?case
      using pending_newestD [OF ledger_okD(4) [OF ok]] by (metis fst_conv)
  qed
  moreover have "distinct (map b_id bs')"
    using ok list_all2_rows_ids [OF step] by (simp add: ledger_ok_def)
  ultimately show ?thesis by (simp add: ledger_ok_def)
qed

lemma new_build_sel [simp]:
  "b_id (new_build i pkg_id num state start pf ver trig) = i"
  "b_pkg_id (new_build i pkg_id num state start pf ver trig) = pkg_id"
  "b_number (new_build i pkg_id num state start pf ver trig) = num"
  "b_status (new_build i pkg_id num state start pf ver trig) = state"
  "b_start_time (new_build i pkg_id num state start pf ver trig) = Some start"
  "b_end_time (new_build i pkg_id num state start pf ver trig) = None"
  "b_platform (new_build i pkg_id num state start pf ver trig) = pf"
  "b_version (new_build i pkg_id num state start pf ver trig) = ver"
  "b_worker_id (new_build i pkg_id num state start pf ver trig) = None"
  "b_lease_expires_at (new_build i pkg_id num state start pf ver trig) = None"
  "b_trigger (new_build i pkg_id num state start pf ver trig) = trig"
  "b_end_reason (new_build i pkg_id num state start pf ver trig) = None"
  by (simp_all add: new_build_def)

lemma ledger_ok_insert:
  assumes ok: "ledger_ok (bs, n)" and b: "b_id b = n" "0 < b_number b" "row_ok b"
    and settled: "\<forall>x \<in> set bs. b_pkg_id x = b_pkg_id b \<longrightarrow> b_platform x = b_platform b \<longrightarrow>
      \<not> is_in_progress (b_status x)"
    and newer: "\<forall>x \<in> set bs. b_pkg_id x = b_pkg_id b \<longrightarrow> b_number x < b_number b"
  shows "ledger_ok (bs @ [b], n + 1)"
proof -
  have "n \<notin> b_id ` set bs" using ok by (auto simp: ledger_ok_def rows_ok_def)
  then have "distinct (map b_id (bs @ [b]))" using ok b by (auto simp: ledger_ok_def)
  moreover have "rows_ok (bs @ [b], n + 1)" using ok b by (auto simp: ledger_ok_def rows_ok_def)
  moreover have "numbers_ok (bs @ [b], n + 1)"
    unfolding numbers_ok_def
  proof (intro ballI impI)
    fix x y
    assume xy: "x \<in> set (fst (bs @ [b], n + 1))" "y \<in> set (fst (bs @ [b], n + 1))"
      "b_pkg_id x = b_pkg_id y" "b_number x = b_number y"
    then show "b_id x = b_id y"
      using newer numbers_okD [OF ledger_okD(3) [OF ok], of x y] by (cases "x = b"; cases "y = b") auto
  qed
  moreover have "pending_newest (bs @ [b], n + 1)"
    unfolding pending_newest_def
  proof (intro ballI impI)
    fix x y
    assume xy: "x \<in> set (fst (bs @ [b], n + 1))" "y \<in> set (fst (bs @ [b], n + 1))"
      "b_pkg_id x = b_pkg_id y" "b_platform x = b_platform y" "is_in_progress (b_status x)"
    then show "b_number y \<le> b_number x"
      using newer settled pending_newestD [OF ledger_okD(4) [OF ok], of x y]
      by (cases "x = b"; cases "y = b") (auto intro: less_imp_le)
  qed
  ultimately show ?thesis by (simp add: ledger_ok_def)
qed

lemma ledger_ok_remove: "ledger_ok (bs, n) \<Longrightarrow> ledger_ok (filter P bs, n)"
  by (simp add: ledger_ok_def rows_ok_def numbers_ok_def pending_newest_def distinct_map_filter)

lemma ledger_step_ok: "ledger_step L L' \<Longrightarrow> ledger_ok L \<Longrightarrow> ledger_ok L'"
proof (induction rule: ledger_step.induct)
  case (rows bs bs' n)
  then show ?case by (rule ledger_ok_rows)
next
  case (insert state bs pkg_id pf num n start ver trig)
  then have "0 < num" by (auto simp: ledger_ok_def rows_ok_def)
  with insert show ?case by (intro ledger_ok_insert) (auto simp: row_ok_def)
next
  case (remove bs n i)
  then show ?case by (rule ledger_ok_remove)
qed

section \<open>Programs that only make ledger steps\<close>

text \<open>
  The programs refine the ledger: whatever they return, and whatever statement they fail
  at, the table they leave behind is reached by ledger steps. They leave the registry of
  workers and their settings alone.
\<close>

type_synonym registry = "worker list \<times> worker_setting list \<times> id"

definition registry :: "tables \<Rightarrow> registry" where
  "registry d = (workers d, worker_settings d, next_worker_id d)"

definition refines :: "('e, 'a) prog \<Rightarrow> bool" where
  "refines m \<longleftrightarrow> (\<forall>s r t. m s = (r, t) \<longrightarrow>
     ledger_step\<^sup>*\<^sup>* (ledger (db s)) (ledger (db t)) \<and> registry (db t) = registry (db s))"

named_theorems refine \<open>programs that refine the ledger\<close>

lemma refinesD: "refines m \<Longrightarrow> m s = (r, t) \<Longrightarrow> ledger_step\<^sup>*\<^sup>* (ledger (db s)) (ledger (db t))"
  unfolding refines_def by blast

lemma refines_registry: "refines m \<Longrightarrow> m s = (r, t) \<Longrightarrow> registry (db t) = registry (db s)"
  unfolding refines_def by blast

lemma registry_set_builds [simp]: "registry (set_builds p f d) = registry d"
  by (simp add: registry_def)

lemma registry_set_packages [simp]: "registry (set_packages p f d) = registry d"
  by (simp add: registry_def)

lemma registry_builds [simp]: "registry (d\<lparr>builds := bs\<rparr>) = registry d"
  "registry (d\<lparr>next_build_id := n\<rparr>) = registry d"
  by (simp_all add: registry_def)

lemma ledger_step1: "ledger_step L L' \<Longrightarrow> ledger_step\<^sup>*\<^sup>* L L'"
  by (rule r_into_rtranclp)

lemma ledger_steps_ok: "ledger_step\<^sup>*\<^sup>* L L' \<Longrightarrow> ledger_ok L \<Longrightarrow> ledger_ok L'"
  by (induction rule: rtranclp_induct) (auto intro: ledger_step_ok)

lemma refines_preserves: "refines m \<Longrightarrow> preserves (\<lambda>d. ledger_ok (ledger d)) m"
  unfolding preserves_def by (blast dest: refinesD ledger_steps_ok)

lemma refines_pure: "(\<And>s. db (snd (m s)) = db s) \<Longrightarrow> refines m"
  unfolding refines_def by (metis rtranclp.rtrancl_refl snd_conv)

lemma refines_ret [refine]: "refines (ret x)"
  by (rule refines_pure) (simp add: ret_def)

lemma refines_raise [refine]: "refines (raise e)"
  by (rule refines_pure) (simp add: raise_def)

lemma refines_now_secs [refine]: "refines now_secs"
  by (rule refines_pure) (simp add: now_secs_def)

lemma refines_perform [refine]: "refines (perform e)"
  by (rule refines_pure) (simp add: perform_def)

lemma refines_emit [refine]: "refines (emit e)"
  unfolding emit_def by (rule refine)

lemma refines_append [refine]: "refines (append_build_output base num txt)"
  by (rule refines_pure) (simp add: append_build_output_def)

lemma refines_map_err [refine]: "refines m \<Longrightarrow> refines (map_err f m)"
  unfolding refines_def map_err_def by (fastforce split: prod.splits sum.splits)

lemma refines_attempt [refine]: "refines m \<Longrightarrow> refines (attempt m)"
  unfolding refines_def attempt_def by (auto split: prod.splits)

lemma refines_select [refine]: "refines (select q)"
  by (rule refines_pure) (simp add: select_def statement_def)

lemma refines_dbind [refine]:
  assumes "refines m" and "\<And>x. refines (f x)"
  shows "refines (dbind m f)"
proof -
  have "ledger_step\<^sup>*\<^sup>* (ledger (db s)) (ledger (db t)) \<and> registry (db t) = registry (db s)"
    if "dbind m f s = (r, t)" for s r t
  proof -
    obtain q u where u: "m s = (q, u)" by fastforce
    note su = refinesD [OF assms(1) u] refines_registry [OF assms(1) u]
    show ?thesis
    proof (cases q)
      case (Inl e)
      then show ?thesis using that u su by (simp add: dbind_def)
    next
      case (Inr x)
      then have "f x u = (r, t)" using that u by (simp add: dbind_def)
      from refinesD [OF assms(2) this] refines_registry [OF assms(2) this] su show ?thesis
        by (simp add: rtranclp_trans)
    qed
  qed
  then show ?thesis unfolding refines_def by blast
qed

lemma refines_dthen [refine]: "refines m \<Longrightarrow> refines k \<Longrightarrow> refines (dthen m k)"
  unfolding dthen_def by (rule refines_dbind)

lemma refines_for_each [refine]: "(\<And>x. refines (f x)) \<Longrightarrow> refines (for_each f xs)"
  by (induction xs) (auto intro!: refines_dbind refines_ret)

lemma refines_statement:
  assumes "\<And>d. ledger_step\<^sup>*\<^sup>* (ledger d) (ledger (snd (q d)))" and "\<And>d. registry (snd (q d)) = registry d"
  shows "refines (statement q)"
  using assms unfolding refines_def statement_def by (auto simp: case_prod_beta)

lemma refines_modify:
  "(\<And>d. ledger (f d) = ledger d) \<Longrightarrow> (\<And>d. registry (f d) = registry d) \<Longrightarrow> refines (modify f)"
  unfolding modify_def by (rule refines_statement) simp_all

lemma ledger_set_packages [simp]: "ledger (set_packages p f d) = ledger d"
  by (simp add: ledger_def)

lemma ledger_set_workers [simp]: "ledger (set_workers p f d) = ledger d"
  by (simp add: ledger_def)

text \<open>A bulk update whose every write is a step of its row.\<close>

lemma ledger_step_set_builds:
  assumes "\<And>b. p b \<Longrightarrow> row_step b (f b)"
  shows "ledger_step (ledger d) (ledger (set_builds p f d))"
proof -
  have "list_all2 (\<lambda>b b'. b' = b \<or> row_step b b') bs (map (\<lambda>b. if p b then f b else b) bs)" for bs
    by (induction bs) (auto simp: assms)
  then show ?thesis unfolding ledger_def by (simp add: ledger_step.rows)
qed

lemma refines_update_builds: "(\<And>b. p b \<Longrightarrow> row_step b (f b)) \<Longrightarrow> refines (update_builds p f)"
  unfolding update_builds_def
  by (rule refines_statement) (auto intro: ledger_step_set_builds)

lemma refines_transaction [refine]:
  assumes "refines body"
  shows "refines (transaction body)"
proof -
  have "ledger_step\<^sup>*\<^sup>* (ledger (db s)) (ledger (db t)) \<and> registry (db t) = registry (db s)"
    if "transaction body s = (r, t)" for s r t
  proof -
    obtain q u where u: "body (tick s) = (q, u)" by fastforce
    with refinesD [OF assms u] refines_registry [OF assms u] that show ?thesis
      by (auto simp: transaction_def split: sum.splits txn_end.splits if_splits)
  qed
  then show ?thesis unfolding refines_def by blast
qed

end
