(* ===== verification/Consistency.thy ===== *)
theory Consistency
  imports Build_Rows Ledger
begin

text \<open>
  The invariant of the tables that every build program keeps, and the contract of such a
  program: it makes only ledger steps, leaves every settled build as it ended, and keeps
  the statuses the packages show in line with their builds.
\<close>

section \<open>The invariant\<close>

text \<open>The registry: workers have distinct ids and keys, and at most one value per setting.\<close>

definition setting_key :: "worker_setting \<Rightarrow> id \<times> string" where
  "setting_key s = (ws_worker_id s, ws_key s)"

fun registry_ok :: "registry \<Rightarrow> bool" where
  "registry_ok (ws, ss, n) \<longleftrightarrow>
     distinct (map w_id ws) \<and> distinct (map w_cert_fingerprint ws) \<and> (\<forall>w \<in> set ws. w_id w < n) \<and>
     distinct (map setting_key ss) \<and> ws_worker_id ` set ss \<subseteq> w_id ` set ws"

definition db_ok :: "tables \<Rightarrow> bool" where
  "db_ok d \<longleftrightarrow> ledger_ok (ledger d) \<and> distinct (map p_id (packages d)) \<and> status_in_line d \<and>
     registry_ok (registry d)"

lemma db_okD:
  assumes "db_ok d"
  shows "ledger_ok (ledger d)" "distinct (map p_id (packages d))" "status_in_line d"
    "distinct (map b_id (builds d))" "distinct (map w_id (workers d))" "registry_ok (registry d)"
  using assms by (simp_all add: db_ok_def ledger_def ledger_ok_def registry_def)

lemma registry_refreshed [simp]: "registry (refreshed k d) = registry d"
  by (simp add: registry_def)

lemma ledger_refreshed [simp]: "ledger (refreshed k d) = ledger d"
  by (simp add: ledger_def)

text \<open>What a package shows depends on its own builds alone, and only on some columns.\<close>

definition shown_columns :: "build \<Rightarrow> platform \<times> int \<times> build_state" where
  "shown_columns b = (b_platform b, b_number b, b_status b)"

lemma shown_status_columns:
  assumes "map shown_columns (own_builds (p_id p) d) = map shown_columns (own_builds (p_id p) d')"
  shows "shown_status p d = shown_status p d'"
proof -
  have newest: "is_newest own b \<longleftrightarrow>
      (\<forall>(pf, num, _) \<in> set (map shown_columns own). pf = b_platform b \<longrightarrow> num \<le> b_number b)" for own b
    by (auto simp: is_newest_def shown_columns_def)
  have key: "map b_status (filter (\<lambda>b. is_newest own b \<and> b_platform b \<in> C) own) =
      map (\<lambda>(_, _, st). st) (filter (\<lambda>(pf, num, _).
        (\<forall>(pf', num', _) \<in> set (map shown_columns own). pf' = pf \<longrightarrow> num' \<le> num) \<and> pf \<in> C)
        (map shown_columns own))" for own C
    unfolding newest filter_map map_map comp_def by (simp add: shown_columns_def)
  show ?thesis by (simp only: shown_status_def Let_def key assms)
qed

lemma shown_status_own:
  "own_builds (p_id p) d = own_builds (p_id p) d' \<Longrightarrow> shown_status p d = shown_status p d'"
  by (rule shown_status_columns) simp

lemma shown_status_cong:
  "p_id p = p_id q \<Longrightarrow> p_platforms p = p_platforms q \<Longrightarrow> shown_status p d = shown_status q d"
  by (simp add: shown_status_def)

lemma own_builds_refreshed [simp]: "own_builds i (refreshed k d) = own_builds i d"
  by (simp add: own_builds_def)

lemma refreshed_package:
  assumes "q \<in> set (packages (refreshed k d))"
  obtains p where "p \<in> set (packages d)" "p_id q = p_id p" "p_platforms q = p_platforms p"
    "p_id p \<noteq> k \<Longrightarrow> q = p"
  using assms by (auto simp: refreshed_def split: option.splits if_splits)

lemma refreshed_idem [simp]: "refreshed k (refreshed k d) = refreshed k d"
proof (cases "find_package_by_id k d")
  case None
  then show ?thesis by (simp add: refreshed_def)
next
  case (Some p)
  show ?thesis
  proof (cases "shown_status p d")
    case None
    with Some show ?thesis by (simp add: refreshed_def)
  next
    case st: (Some st)
    let ?f = "\<lambda>p. p\<lparr>p_status := st\<rparr>"
    let ?d = "set_packages (\<lambda>p. p_id p = k) ?f d"
    have d: "refreshed k d = ?d" using Some st by (simp add: refreshed_def)
    have "find_package_by_id k ?d = Some (?f p)"
    proof -
      have "find (\<lambda>p. p_id p = k) ps = Some p \<Longrightarrow>
          find (\<lambda>p. p_id p = k) (map (\<lambda>p. if p_id p = k then ?f p else p) ps) = Some (?f p)" for ps
        by (induction ps) (auto split: if_splits)
      with Some show ?thesis by (simp add: find_package_by_id_def)
    qed
    moreover have "shown_status (?f p) ?d = Some st"
      using st shown_status_cong [of "?f p" p ?d] shown_status_own [of p ?d d]
      by (simp add: own_builds_def)
    moreover have "set_packages (\<lambda>p. p_id p = k) ?f ?d = ?d"
      by (simp add: set_packages_def)
    ultimately show ?thesis unfolding d by (simp add: refreshed_def)
  qed
qed

text \<open>Refreshing the one package whose builds changed brings every status in line.\<close>

lemma status_in_line_refreshed:
  assumes line: "status_in_line d" and ids: "distinct (map p_id (packages d'))"
    and pkgs: "packages d' = packages d"
    and others: "\<And>i. i \<noteq> k \<Longrightarrow> own_builds i d' = own_builds i d"
  shows "status_in_line (refreshed k d')"
  unfolding status_in_line_def
proof (intro ballI allI impI)
  fix q st
  assume q: "q \<in> set (packages (refreshed k d'))" and st: "shown_status q (refreshed k d') = Some st"
  obtain p where p: "p \<in> set (packages d')" "p_id q = p_id p" "p_platforms q = p_platforms p"
    "p_id p \<noteq> k \<Longrightarrow> q = p" using q by (rule refreshed_package) blast
  have shown: "shown_status p d' = Some st"
    using st p shown_status_own [of q d' "refreshed k d'"] shown_status_cong [of q p d'] by simp
  show "p_status q = st"
  proof (cases "p_id p = k")
    case False
    then have "shown_status p d = Some st"
      using shown others shown_status_own [of p d d'] by simp
    with line p False pkgs show ?thesis by (auto simp: status_in_line_def)
  next
    case True
    then have "find_package_by_id k d' = Some p"
      unfolding find_package_by_id_def
      by (intro find_unique) (use p ids in \<open>auto dest: distinct_map_eq\<close>)
    with True shown q p(2) show ?thesis by (auto simp: refreshed_def split: if_splits)
  qed
qed

lemma status_in_line_columns:
  assumes "status_in_line d" "packages d' = packages d"
    and "\<And>i. map shown_columns (own_builds i d') = map shown_columns (own_builds i d)"
  shows "status_in_line d'"
  using assms shown_status_columns [of _ d' d] by (auto simp: status_in_line_def)

section \<open>Updates that keep it\<close>

lemma own_builds_set_builds:
  assumes "\<And>b. b \<in> set (builds d) \<Longrightarrow> p b \<Longrightarrow> b_pkg_id b = k \<and> b_pkg_id (f b) = k" and "i \<noteq> k"
  shows "own_builds i (set_builds p f d) = own_builds i d"
proof -
  have "filter (\<lambda>b. b_pkg_id b = i) (map (\<lambda>b. if p b then f b else b) bs) =
      filter (\<lambda>b. b_pkg_id b = i) bs" if "set bs \<subseteq> set (builds d)" for bs
    using that by (induction bs) (use assms in auto)
  then show ?thesis by (simp add: own_builds_def)
qed

text \<open>Ledger steps within one package, and a refresh of that package.\<close>

lemma db_ok_steps:
  assumes ok: "db_ok d" and steps: "ledger_step\<^sup>*\<^sup>* (ledger d) (ledger d')"
    and same: "packages d' = packages d" "registry d' = registry d"
    and others: "\<And>i. i \<noteq> k \<Longrightarrow> own_builds i d' = own_builds i d"
  shows "db_ok (refreshed k d')"
  unfolding db_ok_def
  using ledger_steps_ok [OF steps db_okD(1) [OF ok]] db_okD(2,6) [OF ok] same
    status_in_line_refreshed [OF db_okD(3) [OF ok] _ same(1) others]
  by simp

lemma db_ok_update:
  assumes ok: "db_ok d" and step: "\<And>b. p b \<Longrightarrow> row_step b (f b)"
    and own: "\<And>b. b \<in> set (builds d) \<Longrightarrow> p b \<Longrightarrow> b_pkg_id b = k"
  shows "db_ok (refreshed k (set_builds p f d))"
proof (rule db_ok_steps [OF ok])
  show "ledger_step\<^sup>*\<^sup>* (ledger d) (ledger (set_builds p f d))"
    by (rule ledger_step1 [OF ledger_step_set_builds]) (rule step)
  show "own_builds i (set_builds p f d) = own_builds i d" if "i \<noteq> k" for i
    by (rule own_builds_set_builds [OF _ that]) (use own row_step_identity [OF step] in auto)
qed simp_all

text \<open>An update of the columns nothing is shown from needs no refresh.\<close>

lemma own_builds_set_builds_columns:
  assumes "\<And>b. p b \<Longrightarrow> b_pkg_id (f b) = b_pkg_id b \<and> shown_columns (f b) = shown_columns b"
  shows "map shown_columns (own_builds i (set_builds p f d)) = map shown_columns (own_builds i d)"
proof -
  have "map shown_columns (filter (\<lambda>b. b_pkg_id b = i) (map (\<lambda>b. if p b then f b else b) bs)) =
      map shown_columns (filter (\<lambda>b. b_pkg_id b = i) bs)" for bs
    by (induction bs) (use assms in auto)
  then show ?thesis by (simp add: own_builds_def)
qed

lemma db_ok_annotate:
  assumes ok: "db_ok d" and step: "\<And>b. p b \<Longrightarrow> row_step b (f b)"
    and same: "\<And>b. p b \<Longrightarrow> b_status (f b) = b_status b"
  shows "db_ok (set_builds p f d)"
  unfolding db_ok_def
proof (intro conjI)
  have "ledger_step (ledger d) (ledger (set_builds p f d))" by (rule ledger_step_set_builds) (rule step)
  then show "ledger_ok (ledger (set_builds p f d))" using db_okD(1) [OF ok] by (rule ledger_step_ok)
  show "status_in_line (set_builds p f d)"
    using row_step_identity [OF step] same
    by (intro status_in_line_columns [OF db_okD(3) [OF ok]] own_builds_set_builds_columns)
      (auto simp: shown_columns_def)
qed (use db_okD(2,6) [OF ok] in simp_all)

lemma db_ok_remove:
  assumes ok: "db_ok d" and own: "\<And>b. b \<in> set (builds d) \<Longrightarrow> b_id b = i \<Longrightarrow> b_pkg_id b = k"
  shows "db_ok (refreshed k (d\<lparr>builds := filter (\<lambda>b. b_id b \<noteq> i) (builds d)\<rparr>))"
  by (rule db_ok_steps [OF ok])
    (use own in \<open>auto simp: ledger_def own_builds_def intro!: ledger_step.remove filter_cong\<close>)

lemma db_ok_refreshed: "db_ok d \<Longrightarrow> db_ok (refreshed k d)"
  using status_in_line_refreshed [of d d k] by (simp add: db_ok_def)

section \<open>What becomes of a row\<close>

text \<open>
  A later reading of a row: the same build, further along the state machine, run by the
  worker it was run by, and unchanged in its outcome once it has one.
\<close>

definition later :: "build \<Rightarrow> build \<Rightarrow> bool" where
  "later b b' \<longleftrightarrow>
     b_id b' = b_id b \<and> b_pkg_id b' = b_pkg_id b \<and> b_number b' = b_number b \<and>
     b_platform b' = b_platform b \<and> b_trigger b' = b_trigger b \<and>
     may_move\<^sup>*\<^sup>* (b_status b) (b_status b') \<and>
     (b_worker_id b \<noteq> None \<longrightarrow> b_worker_id b' = b_worker_id b) \<and>
     (b_status b = Publishing \<longrightarrow> b_end_reason b' = b_end_reason b) \<and>
     (\<not> is_in_progress (b_status b) \<longrightarrow> b_status b' = b_status b \<and> b_end_reason b' = b_end_reason b)"

definition follows :: "build \<Rightarrow> ledger \<Rightarrow> bool" where
  "follows b L \<longleftrightarrow> b_id b < snd L \<and> (\<forall>b' \<in> set (fst L). b_id b' = b_id b \<longrightarrow> later b b')"

lemma handed_over_moves: "may_move\<^sup>*\<^sup>* Publishing s \<Longrightarrow> s \<in> {Publishing, Successful, Failed}"
  by (induction rule: rtranclp_induct) auto

lemma handed_over_step: "row_step b b' \<Longrightarrow> b_status b \<in> {Publishing, Successful, Failed} \<Longrightarrow> b_end_reason b' = b_end_reason b"
  by (induction rule: row_step.induct) auto

lemma later_refl: "later b b"
  by (simp add: later_def)

lemma later_row_step:
  assumes "later b x" and "row_step x x'" and "row_ok x"
  shows "later b x'"
proof -
  have "may_move\<^sup>*\<^sup>* (b_status b) (b_status x')"
    using assms(1) row_step_moves [OF assms(2)] unfolding later_def by (meson rtranclp.rtrancl_into_rtrancl)
  moreover have "b_worker_id x' = b_worker_id b" if "b_worker_id b \<noteq> None"
    using that assms row_step_worker by (auto simp: later_def)
  moreover have "b_end_reason x' = b_end_reason b" if "b_status b = Publishing"
    using that assms(1) handed_over_moves handed_over_step [OF assms(2)] by (auto simp: later_def)
  moreover have "b_status x' = b_status b \<and> b_end_reason x' = b_end_reason b"
    if "\<not> is_in_progress (b_status b)"
    using that assms(1) row_step_settled [OF assms(2)] by (simp add: later_def)
  ultimately show ?thesis using assms(1) row_step_identity [OF assms(2)] by (simp add: later_def)
qed

lemma follows_own: "ledger_ok L \<Longrightarrow> b \<in> set (fst L) \<Longrightarrow> follows b L"
  unfolding follows_def
  by (auto simp: later_refl ledger_ok_def rows_ok_def dest: distinct_map_eq)

lemma follows_step:
  assumes "ledger_step L L'" and "ledger_ok L" and "follows b L"
  shows "follows b L'"
  using assms
proof (induction rule: ledger_step.induct)
  case (rows bs bs' n)
  have "later b b'" if b': "b' \<in> set bs'" "b_id b' = b_id b" for b'
  proof -
    obtain x where x: "x \<in> set bs" "b' = x \<or> row_step x b'"
      using list_all2_rows_before [OF rows(1) b'(1)] by blast
    then have "b_id x = b_id b" using row_step_back [OF x(2)] b'(2) by simp
    with x(1) rows.prems have "later b x" "row_ok x" by (auto simp: follows_def ledger_ok_def rows_ok_def)
    with x(2) show ?thesis using later_row_step by blast
  qed
  with rows.prems show ?case by (simp add: follows_def)
next
  case (insert state bs pkg_id pf num n start ver trig)
  then show ?case by (auto simp: follows_def)
next
  case (remove bs n i)
  then show ?case by (auto simp: follows_def)
qed

lemma follows_steps: "ledger_step\<^sup>*\<^sup>* L L' \<Longrightarrow> ledger_ok L \<Longrightarrow> follows b L \<Longrightarrow> follows b L'"
  by (induction rule: rtranclp_induct) (auto intro: follows_step ledger_steps_ok)

lemma followsD: "follows b L \<Longrightarrow> b' \<in> set (fst L) \<Longrightarrow> b_id b' = b_id b \<Longrightarrow> later b b'"
  by (simp add: follows_def)

section \<open>The contracts of the programs\<close>

text \<open>Any program of the server: what it does to the builds are ledger steps, and it keeps the invariant.\<close>

locale server_program =
  fixes pre :: "'x \<Rightarrow> tables \<Rightarrow> bool"
    and prog :: "'x \<Rightarrow> ('e, 'r) prog"
  assumes moves_on: "db_ok (db s) \<Longrightarrow> pre x (db s) \<Longrightarrow> prog x s = (r, t) \<Longrightarrow>
      ledger_step\<^sup>*\<^sup>* (ledger (db s)) (ledger (db t))"
    and stays_ok: "db_ok (db s) \<Longrightarrow> pre x (db s) \<Longrightarrow> prog x s = (r, t) \<Longrightarrow> db_ok (db t)"
begin

lemma row_later:
  assumes "db_ok (db s)" "pre x (db s)" "prog x s = (r, t)" "b \<in> set (builds (db s))"
    "b' \<in> set (builds (db t))" "b_id b' = b_id b"
  shows "later b b'"
proof -
  have "follows b (ledger (db s))"
    by (rule follows_own) (use assms db_okD(1) in \<open>auto simp: ledger_def\<close>)
  then have "follows b (ledger (db t))"
    using moves_on [OF assms(1-3)] db_okD(1) [OF assms(1)] by (blast intro: follows_steps)
  then show ?thesis using assms(5,6) by (auto simp: ledger_def intro: followsD)
qed

lemma one_pending:
  assumes "db_ok (db s)" "pre x (db s)" "prog x s = (r, t)"
    "a \<in> set (builds (db t))" "b \<in> set (builds (db t))" "b_pkg_id a = b_pkg_id b"
    "b_platform a = b_platform b" "is_in_progress (b_status a)" "is_in_progress (b_status b)"
  shows "a = b"
  using ledger_ok_one_pending [OF db_okD(1) [OF stays_ok [OF assms(1-3)]]] assms(4-)
  by (simp add: ledger_def)

end

text \<open>A program about builds leaves the registry of workers alone.\<close>

locale build_program =
  fixes pre :: "'x \<Rightarrow> tables \<Rightarrow> bool"
    and prog :: "'x \<Rightarrow> ('e, 'r) prog"
  assumes steps: "refines (prog x)"
    and keeps: "db_ok (db s) \<Longrightarrow> pre x (db s) \<Longrightarrow> prog x s = (r, t) \<Longrightarrow> db_ok (db t)"

sublocale build_program \<subseteq> server_program pre prog
  by unfold_locales (auto intro: refinesD [OF steps] keeps)

text \<open>A program about workers leaves the builds and packages alone.\<close>

definition admin_inv :: "(build list \<times> id \<times> package list) \<Rightarrow> tables \<Rightarrow> bool" where
  "admin_inv X d \<longleftrightarrow> (builds d, next_build_id d, packages d) = X \<and> registry_ok (registry d)"

locale registry_program =
  fixes prog :: "'x \<Rightarrow> ('e, 'r) prog"
  assumes admin: "preserves (admin_inv X) (prog x)"
begin

lemma frame:
  assumes "db_ok (db s)" "prog x s = (r, t)"
  shows "builds (db t) = builds (db s)" "next_build_id (db t) = next_build_id (db s)"
    "packages (db t) = packages (db s)" "registry_ok (registry (db t))"
  using preservesD [OF admin [of "(builds (db s), next_build_id (db s), packages (db s))"] _ assms(2)] db_okD(6) [OF assms(1)]
  by (simp_all add: admin_inv_def)

lemma frame_ok:
  assumes ok: "db_ok (db s)" and run: "prog x s = (r, t)"
  shows "db_ok (db t)" "ledger (db t) = ledger (db s)"
proof -
  note same = frame [OF assms]
  show l: "ledger (db t) = ledger (db s)" using same by (simp add: ledger_def)
  have "status_in_line (db t)"
    using db_okD(3) [OF ok] same by (simp add: status_in_line_def shown_status_def own_builds_def)
  then show "db_ok (db t)" using db_okD [OF ok] same l by (simp add: db_ok_def)
qed

end

sublocale registry_program \<subseteq> server_program "\<lambda>_ _. True" prog
  by unfold_locales (simp_all add: frame_ok)

text \<open>Programs that do both are put together from programs that do either.\<close>

definition serves :: "('e, 'a) prog \<Rightarrow> bool" where
  "serves m \<longleftrightarrow> (\<forall>s r t. db_ok (db s) \<longrightarrow> m s = (r, t) \<longrightarrow>
     db_ok (db t) \<and> ledger_step\<^sup>*\<^sup>* (ledger (db s)) (ledger (db t)))"

named_theorems serve \<open>programs of the server\<close>

lemma servesD: "serves m \<Longrightarrow> db_ok (db s) \<Longrightarrow> m s = (r, t) \<Longrightarrow>
    db_ok (db t) \<and> ledger_step\<^sup>*\<^sup>* (ledger (db s)) (ledger (db t))"
  unfolding serves_def by blast

lemma serves_pure [serve]: "(\<And>s. db (snd (m s)) = db s) \<Longrightarrow> serves m"
  unfolding serves_def by (metis rtranclp.rtrancl_refl snd_conv)

lemma serves_admin:
  assumes "\<And>X. preserves (admin_inv X) m"
  shows "serves m"
proof -
  have "registry_program (\<lambda>_ :: unit. m)" by unfold_locales (rule assms)
  then show ?thesis unfolding serves_def using registry_program.frame_ok by (metis rtranclp.rtrancl_refl)
qed

lemma serves_dbind [serve]:
  assumes "serves m" and "\<And>x. serves (f x)"
  shows "serves (dbind m f)"
  unfolding serves_def
proof (intro allI impI)
  fix s r t
  assume ok: "db_ok (db s)" and run: "dbind m f s = (r, t)"
  from run show "db_ok (db t) \<and> ledger_step\<^sup>*\<^sup>* (ledger (db s)) (ledger (db t))"
  proof (cases rule: dbind_cases)
    case (1 e)
    then show ?thesis using servesD [OF assms(1) ok] by blast
  next
    case (2 x u)
    then show ?thesis
      using servesD [OF assms(1) ok 2(1)] servesD [OF assms(2) _ 2(2)] by (meson rtranclp_trans)
  qed
qed

lemma serves_dthen [serve]: "serves m \<Longrightarrow> serves k \<Longrightarrow> serves (dthen m k)"
  unfolding dthen_def by (rule serves_dbind)

lemma serves_map_err [serve]: "serves m \<Longrightarrow> serves (map_err f m)"
  unfolding serves_def map_err_def by (fastforce split: prod.splits sum.splits)

lemma serves_attempt [serve]: "serves m \<Longrightarrow> serves (attempt m)"
  unfolding serves_def attempt_def by (auto split: prod.splits)

lemma serves_basic [serve]: "serves (ret x)" "serves (raise e)" "serves now_secs" "serves (perform f)" "serves (emit ev)"
  "serves (select q)" "serves (append_build_output base num txt)"
  by (rule serves_pure; simp add: ret_def raise_def now_secs_def perform_def emit_def select_def statement_def
      append_build_output_def)+

context server_program
begin

lemma serves_prog: "(\<And>d. pre x d) \<Longrightarrow> serves (prog x)"
  unfolding serves_def using moves_on stays_ok by blast

end

text \<open>A program in one transaction also leaves nothing behind when it fails.\<close>

locale atomic_program = build_program pre prog
  for pre :: "'x \<Rightarrow> tables \<Rightarrow> bool" and prog :: "'x \<Rightarrow> ('e, 'r) prog" +
  assumes failed: "prog x s = (Inl e, t) \<Longrightarrow> db t = db s"

text \<open>
  A program whose precondition outlives ledger steps (it is asked about rows read earlier)
  can be run over a list of requests that were all read at the start.
\<close>

locale stable_program = build_program pre prog
  for pre :: "'x \<Rightarrow> tables \<Rightarrow> bool" and prog :: "'x \<Rightarrow> ('e, 'r) prog" +
  assumes stable: "ledger_ok (ledger d) \<Longrightarrow> pre x d \<Longrightarrow>
    ledger_step\<^sup>*\<^sup>* (ledger d) (ledger d') \<Longrightarrow> pre x d'"
begin

lemma for_each_keeps:
  "db_ok (db s) \<Longrightarrow> \<forall>x \<in> set xs. pre x (db s) \<Longrightarrow> for_each prog xs s = (r, t) \<Longrightarrow> db_ok (db t)"
proof (induction xs arbitrary: s r t)
  case Nil
  then show ?case by (simp add: ret_def)
next
  case (Cons x xs)
  obtain q u where u: "prog x s = (q, u)" by fastforce
  have ok: "db_ok (db u)" using keeps [OF Cons.prems(1) _ u] Cons.prems(2) by simp
  have pres: "\<forall>y \<in> set xs. pre y (db u)"
    using Cons.prems(1,2) stable [OF db_okD(1) _ refinesD [OF steps u]] by simp
  show ?case
  proof (cases q)
    case (Inl e)
    with Cons.prems(3) u ok show ?thesis by (simp add: dbind_def)
  next
    case (Inr y)
    obtain v w where v: "for_each prog xs u = (v, w)" by fastforce
    with Cons.IH [OF ok pres v] Cons.prems(3) u Inr show ?thesis
      by (cases v) (auto simp: dbind_def ret_def)
  qed
qed

end

section \<open>Acting on a row read earlier\<close>

definition ok_with :: "build \<Rightarrow> tables \<Rightarrow> bool" where
  "ok_with b d \<longleftrightarrow> db_ok d \<and> follows b (ledger d)"

lemma ok_with_own: "db_ok d \<Longrightarrow> b \<in> set (builds d) \<Longrightarrow> ok_with b d"
  using follows_own [OF db_okD(1)] by (simp add: ok_with_def ledger_def)

lemma preserves_ok_with:
  assumes "refines m"
    and "\<And>s r t. db_ok (db s) \<Longrightarrow> follows b (ledger (db s)) \<Longrightarrow> m s = (r, t) \<Longrightarrow> db_ok (db t)"
  shows "preserves (ok_with b) m"
  unfolding preserves_def ok_with_def
  using assms(2) follows_steps [OF refinesD [OF assms(1)]] db_okD(1) by blast

lemma preserves_ok_withD:
  "preserves (ok_with b) m \<Longrightarrow> db_ok (db s) \<Longrightarrow> follows b (ledger (db s)) \<Longrightarrow> m s = (r, t) \<Longrightarrow> db_ok (db t)"
  using preservesD [of "ok_with b" m s r t] by (simp add: ok_with_def)

lemma preserves_ok_with_any: "refines m \<Longrightarrow> preserves db_ok m \<Longrightarrow> preserves (ok_with b) m"
  by (rule preserves_ok_with) (auto dest: preservesD)

lemma preserves_annotate:
  assumes "\<And>b. p b \<Longrightarrow> row_step b (f b)" and "\<And>b. p b \<Longrightarrow> b_status (f b) = b_status b"
  shows "preserves db_ok (update_builds p f)"
  by (rule preserves_update_builds, rule db_ok_annotate) (use assms in auto)

text \<open>The compare-and-swap every change of status goes through.\<close>

definition moves :: "build \<Rightarrow> build_state list \<Rightarrow> (build \<Rightarrow> bool) \<Rightarrow> build \<Rightarrow> bool" where
  "moves build from guard b \<longleftrightarrow> b_id b = b_id build \<and> b_status b \<in> set from \<and> guard b"

definition moved_to :: "build_state \<Rightarrow> (build \<Rightarrow> build) \<Rightarrow> build \<Rightarrow> build" where
  "moved_to state upd b = upd (b\<lparr>b_status := state\<rparr>)"

lemma transition_Inr:
  assumes "transition build from state guard upd s = (Inr r, t)"
  shows "if \<exists>b \<in> set (builds (db s)). moves build from guard b
    then r = Moved \<and> db t = refreshed (b_pkg_id build)
      (set_builds (moves build from guard) (moved_to state upd) (db s))
    else r = Unchanged \<and> db t = db s"
proof -
  have fold: "(\<lambda>b. b_id b = b_id build \<and> b_status b \<in> set from \<and> guard b) = moves build from guard"
    "(\<lambda>b. upd (b\<lparr>b_status := state\<rparr>)) = moved_to state upd"
    by (auto simp: moves_def moved_to_def)
  from assms show ?thesis
    unfolding transition_def fold
    by (auto simp: transaction_Inr db_simps rollback_stmt_def filter_empty_conv
        dest!: refresh_package_status_Inr split: if_splits)
qed

lemma transition_effects:
  "transition build from state guard upd s = (r, t) \<Longrightarrow> r = Inl e \<Longrightarrow> db t = db s"
  unfolding transition_def by (auto dest: transaction_Inl)

lemma keeps_transition:
  assumes ok: "db_ok (db s)" and pre: "follows build (ledger (db s))"
    and step: "\<And>b. moves build from guard b \<Longrightarrow> row_step b (moved_to state upd b)"
    and run: "transition build from state guard upd s = (r, t)"
  shows "db_ok (db t)"
proof (cases r)
  case (Inl e)
  with run ok show ?thesis using transition_effects by metis
next
  case (Inr x)
  have "db_ok (refreshed (b_pkg_id build) (set_builds (moves build from guard) (moved_to state upd) (db s)))"
    by (rule db_ok_update [OF ok step])
      (use pre in \<open>auto simp: moves_def ledger_def later_def dest!: followsD\<close>)
  with transition_Inr [OF run [unfolded Inr]] ok show ?thesis by (simp split: if_splits)
qed

lemma refines_refresh_package_status [refine]: "refines (refresh_package_status pkg_id)"
  unfolding refresh_package_status_def Let_def
  by (auto intro!: refine refines_modify split: option.splits)

lemma refines_transition:
  assumes "\<And>b. moves build from guard b \<Longrightarrow> row_step b (moved_to state upd b)"
  shows "refines (transition build from state guard upd)"
proof -
  have "refines (update_builds (\<lambda>b. b_id b = b_id build \<and> b_status b \<in> set from \<and> guard b)
      (\<lambda>b. upd (b\<lparr>b_status := state\<rparr>)))"
    by (rule refines_update_builds) (use assms in \<open>simp add: moves_def moved_to_def\<close>)
  then show ?thesis unfolding transition_def rollback_stmt_def by (auto intro!: refine)
qed

lemma preserves_transition:
  "(\<And>b. moves build from guard b \<Longrightarrow> row_step b (moved_to state upd b)) \<Longrightarrow>
   preserves (ok_with build) (transition build from state guard upd)"
  by (rule preserves_ok_with) (auto intro: refines_transition keeps_transition)

lemma refines_delete_build_row [refine]: "refines (delete_build_row build)"
  unfolding delete_build_row_def modify_def
  by (intro refine refines_statement) (auto simp: ledger_def intro!: ledger_step1 ledger_step.remove)

lemma delete_build_row_Inr:
  "delete_build_row build s = (Inr x, t) \<Longrightarrow>
     db t = refreshed (b_pkg_id build)
       ((db s)\<lparr>builds := filter (\<lambda>b. b_id b \<noteq> b_id build) (builds (db s))\<rparr>)"
  unfolding delete_build_row_def
  by (auto simp: transaction_Inr db_simps dest!: refresh_package_status_Inr)

lemma preserves_delete_build_row: "preserves (ok_with build) (delete_build_row build)"
proof (rule preserves_ok_with [OF refines_delete_build_row])
  fix s :: server and r t
  assume ok: "db_ok (db s)" and pre: "follows build (ledger (db s))" and run: "delete_build_row build s = (r, t)"
  show "db_ok (db t)"
  proof (cases r)
    case (Inl e)
    with run ok show ?thesis unfolding delete_build_row_def by (auto dest: transaction_Inl)
  next
    case (Inr x)
    with run have "db t = refreshed (b_pkg_id build)
       ((db s)\<lparr>builds := filter (\<lambda>b. b_id b \<noteq> b_id build) (builds (db s))\<rparr>)"
      by (auto dest: delete_build_row_Inr)
    moreover have "b_pkg_id b = b_pkg_id build" if "b \<in> set (builds (db s))" "b_id b = b_id build" for b
      using followsD [OF pre, of b] that by (simp add: ledger_def later_def)
    ultimately show ?thesis using db_ok_remove [OF ok] by simp
  qed
qed

end
