(* ===== verification/Sample.thy ===== *)
theory Sample
  imports Consistency
begin

text \<open>
  Small concrete tables: two packages, of which one depends on the other, three workers
  and the builds of a short history. The theorems of the later theories are applied to
  them.
\<close>

definition sample_package :: "id \<Rightarrow> string \<Rightarrow> build_state \<Rightarrow> package" where
  "sample_package i n st =
     \<lparr>p_id = i, p_name = n, p_status = st, p_out_of_date = False, p_upstream_version = Some ''2-1'',
      p_build_flags = [], p_platforms = Some [X86_64], p_directly_requested = True,
      p_split_packages = None, p_provides = None\<rparr>"

definition sample_worker :: "id \<Rightarrow> string \<Rightarrow> string list \<Rightarrow> int \<Rightarrow> worker" where
  "sample_worker i n affinity prio =
     \<lparr>w_id = i, w_name = n, w_status = Approved, w_cert_fingerprint = n, w_signed_cert = None,
      w_not_after = None, w_arches = [''x86_64''], w_last_seen = Some 990, w_version = None,
      w_kind = None, w_package_affinity = affinity, w_priority = prio, w_concurrency = 1,
      w_settings_declaration = ''[]'', w_effective_config = None, w_paused = False, w_embedded = False\<rparr>"

definition sample_build :: "id \<Rightarrow> id \<Rightarrow> int \<Rightarrow> build_state \<Rightarrow> id option \<Rightarrow> timestamp option \<Rightarrow> build" where
  "sample_build i pkg num st w lease =
     \<lparr>b_id = i, b_pkg_id = pkg, b_number = num, b_status = st, b_start_time = Some 900,
      b_end_time = None, b_platform = X86_64, b_version = ''1-1'', b_size = None, b_peak_memory = None,
      b_disk_chroot = None, b_disk_workdir = None, b_disk_sources = None, b_disk_build_tree = None,
      b_worker_id = w, b_lease_expires_at = lease, b_trigger = User, b_end_reason = None,
      b_vcs_sources = None, b_kept_path = None, b_kept_until = None, b_kept_tree = None\<rparr>"

definition sample_tables :: tables where
  "sample_tables =
     \<lparr>packages = [sample_package 1 ''lib'' Active, sample_package 2 ''app'' Enqueued],
      builds = [sample_build 1 1 1 Successful (Some 1) None,
                sample_build 2 1 2 Active (Some 1) (Some 950),
                sample_build 3 2 1 Enqueued None None],
      dependencies = [\<lparr>d_id = 1, d_dependent_id = 2, d_dependee_id = 1, d_version_constraint = []\<rparr>],
      workers = [sample_worker 1 ''one'' [] 0, sample_worker 2 ''two'' [''app''] 0],
      worker_settings = [], files = [], settings = [], next_build_id = 4, next_worker_id = 3, next_file_id = 1\<rparr>"

definition sample_server :: server where
  "sample_server = \<lparr>db = sample_tables, outage = None, clock = 1000, effects = [], log_ok = True\<rparr>"

lemmas sample_defs = sample_server_def sample_tables_def sample_build_def sample_package_def sample_worker_def

lemma sample_db_ok: "db_ok sample_tables"
  by (simp add: db_ok_def sample_defs ledger_ok_def ledger_def rows_ok_def numbers_ok_def pending_newest_def
      row_ok_def status_in_line_def shown_status_def own_builds_def unwrap_or_default_def is_newest_def
      combined_status_def precedence_def PRECEDENCE_def registry_def)

lemma sample_server_sel [simp]: "db sample_server = sample_tables" "outage sample_server = None"
  "clock sample_server = 1000"
  by (simp_all add: sample_server_def)

text \<open>
  Versions counted in strokes: the simplest instance of what is relied on of \<^verbatim>\<open>alpm-types\<close>.
\<close>

definition stroke :: char where "stroke = CHR ''I''"

fun show_comparison :: "version_comparison \<Rightarrow> string" where
  "show_comparison Less = ''<''"
| "show_comparison LessOrEqual = ''<=''"
| "show_comparison Equal = ''=''"
| "show_comparison GreaterOrEqual = ''>=''"
| "show_comparison Greater = ''>''"

definition parse_strokes :: "string \<Rightarrow> nat option" where
  "parse_strokes s = (if list_all (\<lambda>c. c = stroke) s then Some (length s) else None)"

definition parse_comparison :: "string \<Rightarrow> (version_comparison \<times> string) option" where
  "parse_comparison s =
     (if prefix ''<='' s then Some (LessOrEqual, drop 2 s)
      else if prefix ''>='' s then Some (GreaterOrEqual, drop 2 s)
      else if prefix ''<'' s then Some (Less, drop 1 s)
      else if prefix ''>'' s then Some (Greater, drop 1 s)
      else if prefix ''='' s then Some (Equal, drop 1 s)
      else None)"

definition strokes :: "nat alpm" where
  "strokes =
     \<lparr>parse_version = parse_strokes,
      parse_requirement = (\<lambda>s. case parse_comparison s of
          None \<Rightarrow> None
        | Some (c, rest) \<Rightarrow> map_option (\<lambda>v. \<lparr>comparison = c, version = v\<rparr>) (parse_strokes rest)),
      show_requirement = (\<lambda>r. show_comparison (comparison r) @ replicate (version r) stroke),
      partial_cmp = (\<lambda>a b. Some (if a < b then OLess else if a = b then OEqual else OGreater)),
      is_satisfied_by = (\<lambda>r v. holds (comparison r)
        (if v < version r then OLess else if v = version r then OEqual else OGreater))\<rparr>"

lemma strokes_ord: "alpm_ord strokes"
  by (auto simp: alpm_ord_def strokes_def)

lemma strokes_display: "alpm_display strokes"
proof -
  have "parse_requirement strokes (show_requirement strokes r) = Some r" for r
    by (cases r; cases "comparison r"; cases "version r")
      (auto simp: strokes_def parse_comparison_def parse_strokes_def stroke_def list_all_iff)
  moreover have "trimmed (show_requirement strokes r) \<and> show_requirement strokes r \<noteq> [] \<and>
      CHR '','' \<notin> set (show_requirement strokes r)" for r
    by (cases "comparison r"; cases "version r") (auto simp: strokes_def stroke_def trimmed_def is_whitespace_def)
  ultimately show ?thesis by (simp add: alpm_display_def)
qed

end
