(* ===== verification/Build_Enqueue.thy ===== *)
theory Build_Enqueue
  imports Sample
begin

text \<open>
  \<^verbatim>\<open>aurcache-db/src/helpers/build_enqueue.rs\<close>: queueing a build unless one is pending for the
  same package and platform, and moving a pending build between waiting for its
  dependencies and waiting for a worker.
\<close>

section \<open>The operations\<close>

datatype queued = Inserted | Promoted | Existing

record enqueue_build_result =
  eq_build :: build
  eq_queued :: queued

datatype pending = Pending_Enqueued | Pending_WaitingForDeps

fun pending_state :: "pending \<Rightarrow> build_state" where
  "pending_state Pending_Enqueued = Enqueued"
| "pending_state Pending_WaitingForDeps = WaitingForDeps"

definition NUMBER_RACE_ATTEMPTS :: nat where
  "NUMBER_RACE_ATTEMPTS = 5"

definition next_build_number_expr :: "id \<Rightarrow> tables \<Rightarrow> int" where
  "next_build_number_expr pkg_id d =
     (case sql_max (map b_number (filter (\<lambda>b. b_pkg_id b = pkg_id) (builds d))) of
        None \<Rightarrow> 0 | Some m \<Rightarrow> m) + 1"

text \<open>
  The insert: the two unique indexes of the table (one pending build per package and
  platform, one row per package and number) make it do nothing, and a package that does
  not exist makes it fail.
\<close>

definition insert_build ::
    "id \<Rightarrow> platform \<Rightarrow> string \<Rightarrow> timestamp \<Rightarrow> pending \<Rightarrow> build_trigger \<Rightarrow> nat dbm" where
  "insert_build pkg_id pf ver start pending trig =
     statement (\<lambda>d.
       let next_number = next_build_number_expr pkg_id d in
       if (\<exists>b \<in> set (builds d). is_pending_for pkg_id pf b) \<or>
          (\<exists>b \<in> set (builds d). b_pkg_id b = pkg_id \<and> b_number b = next_number)
       then (Inr 0, d)
       else if find_package_by_id pkg_id d = None then (Inl ForeignKey, d)
       else (Inr 1, d\<lparr>builds := builds d @
               [new_build (next_build_id d) pkg_id next_number (pending_state pending) start pf ver trig],
             next_build_id := next_build_id d + 1\<rparr>))"

fun enqueue_attempts ::
    "nat \<Rightarrow> id \<Rightarrow> platform \<Rightarrow> string \<Rightarrow> timestamp \<Rightarrow> pending \<Rightarrow> build_trigger \<Rightarrow>
     enqueue_build_result txn_end dbm" where
  "enqueue_attempts 0 pkg_id pf ver start pending trig =
     raise (Custom ''Could not assign a build number'')"
| "enqueue_attempts (Suc n) pkg_id pf ver start pending trig =
     dbind (insert_build pkg_id pf ver start pending trig) (\<lambda>rows_affected.
     dbind (pending_build pkg_id pf) (\<lambda>existing.
     case existing of
       Some build \<Rightarrow>
         (if rows_affected = 1
          then dthen (refresh_package_status pkg_id)
                 (ret (Commit \<lparr>eq_build = build, eq_queued = Inserted\<rparr>))
          else ret (Commit \<lparr>eq_build = build, eq_queued = Existing\<rparr>))
     | None \<Rightarrow> enqueue_attempts n pkg_id pf ver start pending trig))"

definition enqueue_build_if_missing ::
    "id \<Rightarrow> platform \<Rightarrow> string \<Rightarrow> timestamp \<Rightarrow> pending \<Rightarrow> build_trigger \<Rightarrow> enqueue_build_result dbm" where
  "enqueue_build_if_missing pkg_id pf ver start pending trig =
     transaction (enqueue_attempts NUMBER_RACE_ATTEMPTS pkg_id pf ver start pending trig)"

definition promote_waiting_build :: "id \<Rightarrow> platform \<Rightarrow> build option dbm" where
  "promote_waiting_build pkg_id pf =
     transaction
       (dbind (select (\<lambda>d. find (\<lambda>b. b_pkg_id b = pkg_id \<and> b_platform b = pf \<and>
                                      b_status b = WaitingForDeps) (builds d))) (\<lambda>row.
        case row of
          None \<Rightarrow> ret (Rollback None)
        | Some build \<Rightarrow>
            dbind (update_builds (\<lambda>b. b_id b = b_id build \<and> b_status b = WaitingForDeps)
                     (\<lambda>b. b\<lparr>b_status := Enqueued\<rparr>)) (\<lambda>rows_affected.
            if rows_affected = 0 then ret (Rollback None)
            else dthen (refresh_package_status pkg_id)
                   (ret (Commit (Some (build\<lparr>b_status := Enqueued\<rparr>)))))))"

datatype demotion = Demoted | Demotion_Unchanged

definition demote_enqueued_build :: "id \<Rightarrow> platform \<Rightarrow> demotion dbm" where
  "demote_enqueued_build pkg_id pf =
     transaction
       (dbind (update_builds
                 (\<lambda>b. b_pkg_id b = pkg_id \<and> b_platform b = pf \<and> b_status b = Enqueued)
                 (\<lambda>b. b\<lparr>b_status := WaitingForDeps\<rparr>)) (\<lambda>rows_affected.
        if rows_affected = 0 then ret (Rollback Demotion_Unchanged)
        else dthen (refresh_package_status pkg_id) (ret (Commit Demoted))))"

section \<open>The number is free, so one attempt is enough\<close>

lemma next_build_number_fresh:
  assumes "b \<in> set (builds d)" "b_pkg_id b = pkg_id"
  shows "b_number b < next_build_number_expr pkg_id d"
proof -
  let ?ns = "map b_number (filter (\<lambda>b. b_pkg_id b = pkg_id) (builds d))"
  have "b_number b \<in> set ?ns" using assms by auto
  moreover obtain m where m: "sql_max ?ns = Some m" using assms by (cases "sql_max ?ns") (auto simp: filter_empty_conv)
  ultimately show ?thesis using sql_max_bound [OF m] by (auto simp: next_build_number_expr_def m)
qed

definition inserted_build ::
    "id \<Rightarrow> platform \<Rightarrow> string \<Rightarrow> timestamp \<Rightarrow> pending \<Rightarrow> build_trigger \<Rightarrow> tables \<Rightarrow> build" where
  "inserted_build pkg_id pf ver start pending trig d =
     new_build (next_build_id d) pkg_id (next_build_number_expr pkg_id d) (pending_state pending)
       start pf ver trig"

definition with_build :: "build \<Rightarrow> tables \<Rightarrow> tables" where
  "with_build b d = d\<lparr>builds := builds d @ [b], next_build_id := next_build_id d + 1\<rparr>"

lemma insert_build_Inr:
  "insert_build pkg_id pf ver start pending trig s = (Inr n, t) \<longleftrightarrow>
     up s \<and>
     (n = 0 \<and> t = tick s \<and> (\<exists>b \<in> set (builds (db s)). is_pending_for pkg_id pf b) \<or>
      n = 1 \<and> (\<forall>b \<in> set (builds (db s)). \<not> is_pending_for pkg_id pf b) \<and>
        find_package_by_id pkg_id (db s) \<noteq> None \<and>
        t = (tick s)\<lparr>db := with_build (inserted_build pkg_id pf ver start pending trig (db s)) (db s)\<rparr>)"
proof -
  have "\<not> (\<exists>b \<in> set (builds (db s)).
      b_pkg_id b = pkg_id \<and> b_number b = next_build_number_expr pkg_id (db s))"
    using next_build_number_fresh by fastforce
  then show ?thesis
    by (auto simp: insert_build_def statement_Inr Let_def inserted_build_def with_build_def)
qed

lemma with_build_sel [simp]:
  "builds (with_build b d) = builds d @ [b]"
  "packages (with_build b d) = packages d"
  "next_build_id (with_build b d) = next_build_id d + 1"
  "dependencies (with_build b d) = dependencies d"
  "workers (with_build b d) = workers d" "registry (with_build b d) = registry d"
  by (simp_all add: with_build_def)

lemma inserted_build_pending: "is_pending_for pkg_id pf (inserted_build pkg_id pf ver start pending trig d)"
  by (cases pending) (simp_all add: is_pending_for_def inserted_build_def IN_PROGRESS_def)

lemma inserted_build_pkg [simp]: "b_pkg_id (inserted_build pkg_id pf ver start pending trig d) = pkg_id"
  by (simp add: inserted_build_def)

lemma is_pending_for_iff:
  "is_pending_for pkg_id pf b \<longleftrightarrow> b_pkg_id b = pkg_id \<and> b_platform b = pf \<and> is_in_progress (b_status b)"
  by (simp add: is_pending_for_def in_progress_iff)

lemma find_pending_fresh:
  "\<forall>x \<in> set bs. \<not> is_pending_for pkg_id pf x \<Longrightarrow> is_pending_for pkg_id pf b \<Longrightarrow>
   find (is_pending_for pkg_id pf) (bs @ [b]) = Some b"
  by (induction bs) auto

lemma find_None_iff_ball: "find P xs = None \<longleftrightarrow> (\<forall>x \<in> set xs. \<not> P x)"
  by (auto simp: find_None_iff)

text \<open>What a call that returns has done.\<close>

lemma enqueue_attempts_Inr:
  assumes "enqueue_attempts n pkg_id pf ver start pending trig s = (Inr res, t)"
  shows "(\<exists>b. find (is_pending_for pkg_id pf) (builds (db s)) = Some b \<and>
            res = Commit \<lparr>eq_build = b, eq_queued = Existing\<rparr> \<and> db t = db s) \<or>
         (\<exists>b. b = inserted_build pkg_id pf ver start pending trig (db s) \<and>
            (\<forall>x \<in> set (builds (db s)). \<not> is_pending_for pkg_id pf x) \<and>
            find_package_by_id pkg_id (db s) \<noteq> None \<and>
            res = Commit \<lparr>eq_build = b, eq_queued = Inserted\<rparr> \<and>
            db t = refreshed pkg_id (with_build b (db s)))"
proof (cases n)
  case 0
  with assms show ?thesis by (simp add: raise_iff)
next
  case (Suc m)
  from assms obtain k u v where ins: "insert_build pkg_id pf ver start pending trig s = (Inr k, u)"
    and v: "v = find (is_pending_for pkg_id pf) (builds (db u))"
    and rest: "(case v of
       Some build \<Rightarrow>
         (if k = 1
          then dthen (refresh_package_status pkg_id)
                 (ret (Commit \<lparr>eq_build = build, eq_queued = Inserted\<rparr>))
          else ret (Commit \<lparr>eq_build = build, eq_queued = Existing\<rparr>))
     | None \<Rightarrow> enqueue_attempts m pkg_id pf ver start pending trig) (tick u) = (Inr res, t)"
    by (auto simp: Suc dbind_Inr pending_build_def select_Inr simp del: One_nat_def)
  show ?thesis
  proof (cases "\<exists>b \<in> set (builds (db s)). is_pending_for pkg_id pf b")
    case True
    then have "k = 0" "u = tick s" using ins by (auto simp: insert_build_Inr)
    moreover obtain b where "v = Some b"
      using True v \<open>u = tick s\<close> find_None_iff_ball [of "is_pending_for pkg_id pf" "builds (db s)"]
      by (cases v) auto
    ultimately show ?thesis using v rest by (auto simp: ret_iff)
  next
    case False
    let ?b = "inserted_build pkg_id pf ver start pending trig (db s)"
    from False have k: "k = 1" and u: "u = (tick s)\<lparr>db := with_build ?b (db s)\<rparr>"
      and pkg: "find_package_by_id pkg_id (db s) \<noteq> None"
      using ins by (auto simp: insert_build_Inr)
    have "v = Some ?b" using False v u by (simp add: find_pending_fresh inserted_build_pending)
    then show ?thesis using rest k u False pkg
      by (auto simp: dthen_Inr ret_iff dest!: refresh_package_status_Inr)
  qed
qed

lemma enqueue_Inr:
  assumes "enqueue_build_if_missing pkg_id pf ver start pending trig s = (Inr res, t)"
  shows "eq_queued res = Existing \<and> db t = db s \<and>
           find (is_pending_for pkg_id pf) (builds (db s)) = Some (eq_build res) \<or>
         eq_queued res = Inserted \<and> find (is_pending_for pkg_id pf) (builds (db s)) = None \<and>
           find_package_by_id pkg_id (db s) \<noteq> None \<and>
           eq_build res = inserted_build pkg_id pf ver start pending trig (db s) \<and>
           db t = refreshed pkg_id (with_build (eq_build res) (db s))"
  using assms unfolding enqueue_build_if_missing_def transaction_Inr find_None_iff_ball
  by (auto dest!: enqueue_attempts_Inr)

section \<open>The contract\<close>

lemma next_build_number_next:
  "next_build_number_expr pkg_id d = 1 \<or> (\<exists>b \<in> set (builds d). next_build_number_expr pkg_id d = b_number b + 1)"
  by (auto simp: next_build_number_expr_def dest!: sql_max_bound split: option.splits)

lemma ledger_step_with_build:
  assumes "\<forall>b \<in> set (builds d). \<not> is_pending_for pkg_id pf b"
  shows "ledger_step (ledger d) (ledger (with_build (inserted_build pkg_id pf ver start pending trig d) d))"
  unfolding ledger_def with_build_sel inserted_build_def
proof (rule ledger_step.insert)
  show "pending_state pending \<in> {Enqueued, WaitingForDeps}" by (cases pending) auto
qed (use assms in \<open>auto simp: is_pending_for_iff next_build_number_fresh next_build_number_next\<close>)

lemma refines_insert_build [refine]: "refines (insert_build pkg_id pf ver start pending trig)"
  unfolding insert_build_def
proof (rule refines_statement, goal_cases)
  case (1 d)
  show ?case
    using ledger_step_with_build [of d pkg_id pf ver start pending trig]
    by (auto simp: Let_def inserted_build_def with_build_def)
qed (simp add: Let_def)

lemma refines_pending_build [refine]: "refines (pending_build pkg_id pf)"
  unfolding pending_build_def by (rule refine)

lemma refines_enqueue_attempts: "refines (enqueue_attempts n pkg_id pf ver start pending trig)"
  by (induction n) (auto intro!: refine split: option.splits)

lemma refines_enqueue [refine]: "refines (enqueue_build_if_missing pkg_id pf ver start pending trig)"
  unfolding enqueue_build_if_missing_def by (intro refine refines_enqueue_attempts)

lemma fixed_clock_refresh [clk]: "fixed_clock (refresh_package_status pkg_id)"
  unfolding refresh_package_status_def Let_def by (auto intro!: clk split: option.splits)

lemma fixed_clock_enqueue_attempts: "fixed_clock (enqueue_attempts n pkg_id pf ver start pending trig)"
  by (induction n) (auto intro!: clk simp: insert_build_def pending_build_def split: option.splits)

lemma fixed_clock_enqueue [clk]: "fixed_clock (enqueue_build_if_missing pkg_id pf ver start pending trig)"
  unfolding enqueue_build_if_missing_def by (intro clk fixed_clock_enqueue_attempts)

lemma db_ok_with_build:
  assumes ok: "db_ok d" and none: "\<forall>b \<in> set (builds d). \<not> is_pending_for pkg_id pf b"
  shows "db_ok (refreshed pkg_id (with_build (inserted_build pkg_id pf ver start pending trig d) d))"
  by (rule db_ok_steps [OF ok ledger_step1 [OF ledger_step_with_build [OF none]]])
    (auto simp: own_builds_def)

lemma keeps_enqueue:
  assumes ok: "db_ok (db s)" and run: "enqueue_build_if_missing pkg_id pf ver start pending trig s = (r, t)"
  shows "db_ok (db t)"
proof (cases r)
  case (Inl e)
  with run ok show ?thesis unfolding enqueue_build_if_missing_def by (auto dest: transaction_Inl)
next
  case (Inr res)
  with enqueue_Inr [OF run [unfolded Inr]] ok show ?thesis
    by (auto simp: find_None_iff_ball intro: db_ok_with_build)
qed

lemma refines_promote [refine]: "refines (promote_waiting_build pkg_id pf)"
  unfolding promote_waiting_build_def
  by (auto intro!: refine refines_update_builds row_step.promoted split: option.splits)

lemma refines_demote [refine]: "refines (demote_enqueued_build pkg_id pf)"
  unfolding demote_enqueued_build_def
  by (auto intro!: refine refines_update_builds row_step.demoted)

definition is_waiting_for :: "id \<Rightarrow> platform \<Rightarrow> build \<Rightarrow> bool" where
  "is_waiting_for pkg_id pf b \<longleftrightarrow> b_pkg_id b = pkg_id \<and> b_platform b = pf \<and> b_status b = WaitingForDeps"

definition promoted_row :: "build \<Rightarrow> tables \<Rightarrow> tables" where
  "promoted_row b d = set_builds (\<lambda>x. b_id x = b_id b \<and> b_status x = WaitingForDeps)
     (\<lambda>x. x\<lparr>b_status := Enqueued\<rparr>) d"

lemma promote_Inr:
  assumes "promote_waiting_build pkg_id pf s = (Inr r, t)"
  shows "r = None \<and> db t = db s \<and> find (is_waiting_for pkg_id pf) (builds (db s)) = None \<or>
    (\<exists>b. find (is_waiting_for pkg_id pf) (builds (db s)) = Some b \<and> r = Some (b\<lparr>b_status := Enqueued\<rparr>) \<and>
       db t = refreshed pkg_id (promoted_row b (db s)))"
proof (cases "find (is_waiting_for pkg_id pf) (builds (db s))")
  case None
  with assms show ?thesis
    unfolding promote_waiting_build_def is_waiting_for_def [abs_def] by (auto simp: transaction_Inr db_simps)
next
  case (Some b)
  then have b: "b \<in> set (builds (db s))" "is_waiting_for pkg_id pf b" by (auto dest: find_Some_mem)
  then have "filter (\<lambda>x. b_id x = b_id b \<and> b_status x = WaitingForDeps) (builds (db s)) \<noteq> []"
    by (auto simp: filter_empty_conv is_waiting_for_def)
  with assms Some show ?thesis
    unfolding promote_waiting_build_def is_waiting_for_def [abs_def]
    by (auto simp: transaction_Inr db_simps promoted_row_def dest!: refresh_package_status_Inr)
qed

lemma keeps_promote:
  assumes ok: "db_ok (db s)" and run: "promote_waiting_build pkg_id pf s = (r, t)"
  shows "db_ok (db t)"
proof (cases r)
  case (Inl e)
  with run ok show ?thesis unfolding promote_waiting_build_def by (auto dest: transaction_Inl)
next
  case (Inr res)
  from promote_Inr [OF run [unfolded Inr]] show ?thesis
  proof
    assume "\<exists>b. find (is_waiting_for pkg_id pf) (builds (db s)) = Some b \<and> res = Some (b\<lparr>b_status := Enqueued\<rparr>) \<and>
       db t = refreshed pkg_id (promoted_row b (db s))"
    then obtain b where b: "b \<in> set (builds (db s))" "b_pkg_id b = pkg_id"
      and t: "db t = refreshed pkg_id (promoted_row b (db s))"
      by (auto simp: is_waiting_for_def dest!: find_Some_mem)
    show ?thesis unfolding t promoted_row_def
      by (rule db_ok_update [OF ok])
        (use b db_okD(4) [OF ok] in \<open>auto intro: row_step.promoted dest: distinct_map_eq\<close>)
  qed (use ok in simp)
qed

lemma demote_Inr:
  assumes "demote_enqueued_build pkg_id pf s = (Inr r, t)"
  shows "r = Demotion_Unchanged \<and> db t = db s \<and>
      (\<forall>b \<in> set (builds (db s)). b_pkg_id b = pkg_id \<longrightarrow> b_platform b = pf \<longrightarrow> b_status b \<noteq> Enqueued) \<or>
    r = Demoted \<and>
      (\<exists>b \<in> set (builds (db s)). b_pkg_id b = pkg_id \<and> b_platform b = pf \<and> b_status b = Enqueued) \<and>
      db t = refreshed pkg_id (set_builds
        (\<lambda>b. b_pkg_id b = pkg_id \<and> b_platform b = pf \<and> b_status b = Enqueued)
        (\<lambda>b. b\<lparr>b_status := WaitingForDeps\<rparr>) (db s))"
  using assms unfolding demote_enqueued_build_def
  by (auto simp: transaction_Inr db_simps filter_empty_conv dest!: refresh_package_status_Inr
      split: if_splits)

lemma keeps_demote:
  assumes ok: "db_ok (db s)" and run: "demote_enqueued_build pkg_id pf s = (r, t)"
  shows "db_ok (db t)"
proof (cases r)
  case (Inl e)
  with run ok show ?thesis unfolding demote_enqueued_build_def by (auto dest: transaction_Inl)
next
  case (Inr res)
  with demote_Inr [OF run [unfolded Inr]] ok show ?thesis
    by (auto intro!: db_ok_update row_step.demoted)
qed

lemma failed_enqueue: "enqueue_build_if_missing pkg_id pf ver start pending trig s = (Inl e, t) \<Longrightarrow> db t = db s"
  unfolding enqueue_build_if_missing_def by (rule transaction_Inl)

lemma failed_promote: "promote_waiting_build pkg_id pf s = (Inl e, t) \<Longrightarrow> db t = db s"
  unfolding promote_waiting_build_def by (rule transaction_Inl)

lemma failed_demote: "demote_enqueued_build pkg_id pf s = (Inl e, t) \<Longrightarrow> db t = db s"
  unfolding demote_enqueued_build_def by (rule transaction_Inl)

text \<open>The three operations meet the contract of an atomic program, whatever they are asked.\<close>

interpretation enqueue: atomic_program "\<lambda>_ _. True"
    "\<lambda>(pkg_id, pf, ver, start, pending, trig). enqueue_build_if_missing pkg_id pf ver start pending trig"
  by unfold_locales
    (auto intro: refines_enqueue keeps_enqueue dest: failed_enqueue)

interpretation promote: atomic_program "\<lambda>_ _. True" "\<lambda>(pkg_id, pf). promote_waiting_build pkg_id pf"
  by unfold_locales
    (auto intro: refines_promote keeps_promote dest: failed_promote)

interpretation demote: atomic_program "\<lambda>_ _. True" "\<lambda>(pkg_id, pf). demote_enqueued_build pkg_id pf"
  by unfold_locales
    (auto intro: refines_demote keeps_demote dest: failed_demote)

section \<open>Totality\<close>

text \<open>With the database reachable, every statement of these programs goes through.\<close>

lemma refresh_package_status_total:
  "outage s = None \<Longrightarrow> \<exists>t. refresh_package_status k s = (Inr (), t) \<and> outage t = None"
  by (auto simp: refresh_package_status_def dbind_def select_def statement_def up_None modify_def ret_def
      Let_def tick_None split: option.splits)

lemma enqueue_total:
  assumes "outage s = None" and "find_package_by_id pkg_id (db s) \<noteq> None"
  shows "\<exists>res t. enqueue_build_if_missing pkg_id pf ver start pending trig s = (Inr res, t) \<and> outage t = None"
proof -
  let ?P = "is_pending_for pkg_id pf" and ?b = "inserted_build pkg_id pf ver start pending trig (db s)"
  let ?u = "if \<exists>b \<in> set (builds (db s)). ?P b then s else s\<lparr>db := with_build ?b (db s)\<rparr>"
  let ?k = "if \<exists>b \<in> set (builds (db s)). ?P b then 0 else 1 :: nat"
  have ins: "insert_build pkg_id pf ver start pending trig s = (Inr ?k, ?u)"
    using assms by (auto simp: insert_build_Inr up_None tick_None)
  have u: "outage ?u = None" using assms(1) by simp
  obtain b where "find ?P (builds (db ?u)) = Some b"
    using find_None_iff_ball [of ?P "builds (db ?u)"] inserted_build_pending
    by (cases "find ?P (builds (db ?u))") (auto split: if_splits)
  then have pend: "pending_build pkg_id pf ?u = (Inr (Some b), ?u)"
    using u by (simp add: pending_build_def select_def statement_def up_None tick_None)
  obtain t where t: "refresh_package_status pkg_id ?u = (Inr (), t)" "outage t = None"
    using refresh_package_status_total [OF u] by blast
  have "\<exists>res t. enqueue_attempts NUMBER_RACE_ATTEMPTS pkg_id pf ver start pending trig s = (Inr (Commit res), t) \<and>
      outage t = None"
    using ins pend t u
    by (simp add: NUMBER_RACE_ATTEMPTS_def eval_nat_numeral dbind_def dthen_def ret_def)
  then show ?thesis using assms(1)
    by (auto simp: enqueue_build_if_missing_def transaction_def up_None tick_None)
qed

section \<open>Properties\<close>

lemma pending_unique:
  assumes "db_ok d" "a \<in> set (builds d)" "b \<in> set (builds d)" "is_pending_for k pf a" "is_pending_for k pf b"
  shows "a = b"
  using ledger_ok_one_pending [OF db_okD(1) [OF assms(1)], of a b] assms(2-5)
  by (simp add: ledger_def is_pending_for_iff)

text \<open>C12: Queueing a build of a known package while the database is reachable always succeeds, on
  the first attempt at a build number, and leaves exactly one unsettled build of the package on
  the platform: the one that was there, untouched, or else a new row in the requested state whose
  number is above all others of the package.\<close>

theorem enqueue_outcome:
  assumes ok: "db_ok (db s)" and "outage s = None" and "find_package_by_id pkg_id (db s) \<noteq> None"
  shows "\<exists>res t. enqueue_build_if_missing pkg_id pf ver start pending trig s = (Inr res, t) \<and>
    {b \<in> set (builds (db t)). is_pending_for pkg_id pf b} = {eq_build res} \<and>
    (if \<exists>b \<in> set (builds (db s)). is_pending_for pkg_id pf b
     then eq_queued res = Existing \<and> db t = db s
     else eq_queued res = Inserted \<and> builds (db t) = builds (db s) @ [eq_build res] \<and>
       b_status (eq_build res) = pending_state pending \<and> b_trigger (eq_build res) = trig \<and>
       b_version (eq_build res) = ver \<and>
       (\<forall>b \<in> set (builds (db s)). b_pkg_id b = pkg_id \<longrightarrow> b_number b < b_number (eq_build res)))"
proof -
  obtain res t where run: "enqueue_build_if_missing pkg_id pf ver start pending trig s = (Inr res, t)"
    using enqueue_total [OF assms(2,3)] by blast
  have okt: "db_ok (db t)" by (rule keeps_enqueue [OF ok run])
  have "eq_build res \<in> set (builds (db t)) \<and> is_pending_for pkg_id pf (eq_build res)"
    using enqueue_Inr [OF run] inserted_build_pending by (auto dest: find_Some_mem)
  then have one: "{b \<in> set (builds (db t)). is_pending_for pkg_id pf b} = {eq_build res}"
    using pending_unique [OF okt] by blast
  from enqueue_Inr [OF run] show ?thesis
  proof
    assume "eq_queued res = Existing \<and> db t = db s \<and>
      find (is_pending_for pkg_id pf) (builds (db s)) = Some (eq_build res)"
    with run one show ?thesis by (intro exI [of _ res] exI [of _ t]) (auto dest: find_Some_mem)
  next
    assume "eq_queued res = Inserted \<and> find (is_pending_for pkg_id pf) (builds (db s)) = None \<and>
      find_package_by_id pkg_id (db s) \<noteq> None \<and>
      eq_build res = inserted_build pkg_id pf ver start pending trig (db s) \<and>
      db t = refreshed pkg_id (with_build (eq_build res) (db s))"
    with run one show ?thesis
      by (intro exI [of _ res] exI [of _ t])
        (auto simp: find_None_iff_ball inserted_build_def next_build_number_fresh)
  qed
qed

theorem enqueue_outcome_witness:
  "\<exists>res t. enqueue_build_if_missing 2 Aarch64 ''2-1'' 1000 Pending_WaitingForDeps User sample_server = (Inr res, t) \<and>
     eq_queued res = Inserted \<and> b_status (eq_build res) = WaitingForDeps"
proof -
  have "find_package_by_id 2 sample_tables \<noteq> None"
    "\<not> (\<exists>b \<in> set (builds sample_tables). is_pending_for 2 Aarch64 b)" by code_simp+
  then show ?thesis
    using enqueue_outcome [of sample_server 2 Aarch64 "''2-1''" 1000 Pending_WaitingForDeps User] sample_db_ok
    by auto
qed

lemma reliable_refresh [rel]: "reliable (refresh_package_status k)"
  using refresh_package_status_total unfolding reliable_def by blast

lemma reliable_promote [rel]: "reliable (promote_waiting_build k pf)"
  unfolding promote_waiting_build_def by (auto intro!: rel split: option.split)

lemma reliable_demote [rel]: "reliable (demote_enqueued_build k pf)"
  unfolding demote_enqueued_build_def by (auto intro!: rel)

text \<open>Sending a queued build back to wait for its dependencies and then releasing it is a round
  trip: both go through, the build that is released is the one that was sent back, and every
  build row is as it was.\<close>

theorem demote_then_promote:
  assumes ok: "db_ok (db s)" and "outage s = None"
    and b: "b \<in> set (builds (db s))" "b_status b = Enqueued"
  shows "\<exists>t u. demote_enqueued_build (b_pkg_id b) (b_platform b) s = (Inr Demoted, t) \<and>
    b\<lparr>b_status := WaitingForDeps\<rparr> \<in> set (builds (db t)) \<and>
    promote_waiting_build (b_pkg_id b) (b_platform b) t = (Inr (Some b), u) \<and>
    builds (db u) = builds (db s)"
proof -
  let ?k = "b_pkg_id b" and ?pf = "b_platform b" and ?w = "b\<lparr>b_status := WaitingForDeps\<rparr>"
  have only: "x = b" if "x \<in> set (builds (db s))" "b_id x = b_id b \<or> is_pending_for ?k ?pf x" for x
    using that pending_unique [OF ok _ b(1), of x ?k ?pf] distinct_map_eq [OF db_okD(4) [OF ok] _ b(1)] b(2)
    by (auto simp: is_pending_for_iff)
  obtain r t where t: "demote_enqueued_build ?k ?pf s = (Inr r, t)" "outage t = None"
    using reliableE [OF reliable_demote assms(2)] by metis
  obtain q u where u: "promote_waiting_build ?k ?pf t = (Inr q, u)"
    using reliableE [OF reliable_promote t(2)] by metis
  from demote_Inr [OF t(1)] b have r: "r = Demoted" and db_t: "builds (db t) =
      map (\<lambda>x. if b_pkg_id x = ?k \<and> b_platform x = ?pf \<and> b_status x = Enqueued
           then x\<lparr>b_status := WaitingForDeps\<rparr> else x) (builds (db s))" by auto
  have rows: "builds (db t) = map (\<lambda>x. if x = b then ?w else x) (builds (db s))"
    unfolding db_t by (rule map_cong) (use only b in \<open>auto simp: is_pending_for_iff\<close>)
  have w: "?w \<in> set (builds (db t))" using b(1) unfolding rows by auto
  have "find (is_waiting_for ?k ?pf) (builds (db t)) = Some ?w"
  proof (rule find_unique [OF _ w])
    show "x = y" if "x \<in> set (builds (db t))" "y \<in> set (builds (db t))" "is_waiting_for ?k ?pf x"
      "is_waiting_for ?k ?pf y" for x y
      using that pending_unique [OF keeps_demote [OF ok t(1)], of x y ?k ?pf]
      by (auto simp: is_waiting_for_def is_pending_for_iff)
  qed (simp add: is_waiting_for_def)
  with promote_Inr [OF u] have q: "q = Some (?w\<lparr>b_status := Enqueued\<rparr>)"
    and db_u: "db u = refreshed ?k (promoted_row ?w (db t))" by auto
  have "builds (db u) = builds (db s)"
    unfolding db_u promoted_row_def refreshed_sel set_builds_sel rows map_map
    by (rule map_idI) (use only b in auto)
  moreover have "?w\<lparr>b_status := Enqueued\<rparr> = b" using b(2) by simp
  ultimately show ?thesis using r t u w q by auto
qed

theorem demote_then_promote_witness:
  "\<exists>t u. demote_enqueued_build 2 X86_64 sample_server = (Inr Demoted, t) \<and>
     promote_waiting_build 2 X86_64 t = (Inr (Some (sample_build 3 2 1 Enqueued None None)), u) \<and>
     builds (db u) = builds sample_tables"
proof -
  let ?b = "sample_build 3 2 1 Enqueued None None"
  have "?b \<in> set (builds sample_tables)" "b_status ?b = Enqueued" "b_pkg_id ?b = 2" "b_platform ?b = X86_64"
    by (simp_all add: sample_tables_def sample_build_def)
  then show ?thesis using demote_then_promote [of sample_server ?b] sample_db_ok by auto
qed

end
