(* ===== verification/Worker_Jobs.thy ===== *)
theory Worker_Jobs
  imports Build_Enqueue
begin

text \<open>
  \<^verbatim>\<open>aurcache-db/src/helpers/worker_jobs.rs\<close>: the life of a job on a worker. Which queued build
  a worker is handed, how its lease is renewed, how a build is taken back and retried,
  and why a queued build waits.
\<close>

section \<open>The queue and the fleet\<close>

record queued_build =
  q_id :: id
  q_pkg_id :: id
  q_platform :: platform
  q_start_time :: "timestamp option"

definition queued_rows :: "tables \<Rightarrow> queued_build list" where
  "queued_rows d =
     map (\<lambda>b. \<lparr>q_id = b_id b, q_pkg_id = b_pkg_id b, q_platform = b_platform b,
               q_start_time = b_start_time b\<rparr>)
       (filter (\<lambda>b. b_status b = Enqueued) (builds d))"

definition queued_builds :: "queued_build list dbm" where
  "queued_builds = select queued_rows"

text \<open>\<^verbatim>\<open>collect\<close> into a \<^verbatim>\<open>HashMap\<close>: a later pair replaces an earlier one.\<close>

definition collect_map :: "('k \<times> 'v) list \<Rightarrow> 'k \<rightharpoonup> 'v" where
  "collect_map kvs = map_of (rev kvs)"

definition package_names :: "queued_build list \<Rightarrow> (id \<rightharpoonup> string) dbm" where
  "package_names qs =
     select (\<lambda>d. collect_map (map (\<lambda>p. (p_id p, p_name p))
       (filter (\<lambda>p. p_id p \<in> set (map q_pkg_id qs)) (packages d))))"

record worker_cap =
  wc_id :: id
  wc_name :: string
  wc_priority :: int
  wc_concurrency :: int
  wc_arches :: "string list"
  wc_last_seen :: "timestamp option"
  wc_active :: int
  wc_paused :: bool

record fleet =
  fl_workers :: "worker_cap list"
  fl_affinity :: "string \<rightharpoonup> id set"

text \<open>The columns of an approved worker the router reads, and its share of the active builds.\<close>

definition approved_rows :: "tables \<Rightarrow> worker list" where
  "approved_rows d = filter (\<lambda>w. w_status w = Approved) (workers d)"

definition active_counts :: "tables \<Rightarrow> (id option \<times> nat) list" where
  "active_counts d =
     (let active = map b_worker_id (filter (\<lambda>b. b_status b = Active) (builds d))
      in map (\<lambda>w. (w, count_list active w)) (remdups active))"

definition active_map :: "(id option \<times> nat) list \<Rightarrow> id \<rightharpoonup> int" where
  "active_map counts =
     collect_map (concat (map (\<lambda>(i, n). case i of None \<Rightarrow> [] | Some w \<Rightarrow> [(w, min (int n) i32_MAX)]) counts))"

definition add_affinity :: "id \<Rightarrow> string list \<Rightarrow> (string \<rightharpoonup> id set) \<Rightarrow> (string \<rightharpoonup> id set)" where
  "add_affinity i pkgs m =
     fold (\<lambda>pkg m. m(pkg \<mapsto> insert i (case m pkg of None \<Rightarrow> {} | Some ws \<Rightarrow> ws))) pkgs m"

definition add_worker :: "(id \<rightharpoonup> int) \<Rightarrow> worker \<Rightarrow> fleet \<Rightarrow> fleet" where
  "add_worker active row fl =
     \<lparr>fl_workers = fl_workers fl @
        [\<lparr>wc_id = w_id row, wc_name = w_name row, wc_priority = w_priority row,
          wc_concurrency = w_concurrency row, wc_arches = w_arches row,
          wc_last_seen = w_last_seen row,
          wc_active = (case active (w_id row) of None \<Rightarrow> 0 | Some n \<Rightarrow> n),
          wc_paused = w_paused row\<rparr>],
      fl_affinity = add_affinity (w_id row) (w_package_affinity row) (fl_affinity fl)\<rparr>"

definition load_fleet :: "fleet dbm" where
  "load_fleet =
     dbind (select approved_rows) (\<lambda>rows.
     dbind (select active_counts) (\<lambda>counts.
     ret (fold (add_worker (active_map counts)) rows \<lparr>fl_workers = [], fl_affinity = Map.empty\<rparr>)))"

definition affinity_holders :: "fleet \<Rightarrow> string \<Rightarrow> string list" where
  "affinity_holders fl pkg =
     (case fl_affinity fl pkg of
        None \<Rightarrow> []
      | Some ids \<Rightarrow> sort (map wc_name (filter (\<lambda>w. wc_id w \<in> ids) (fl_workers fl))))"

definition fleet_worker :: "fleet \<Rightarrow> id \<Rightarrow> worker_cap option" where
  "fleet_worker fl i = find (\<lambda>w. wc_id w = i) (fl_workers fl)"

definition reserved :: "fleet \<Rightarrow> string \<Rightarrow> bool" where
  "reserved fl pkg \<longleftrightarrow> fl_affinity fl pkg \<noteq> None"

definition affine :: "fleet \<Rightarrow> id \<Rightarrow> string \<Rightarrow> bool" where
  "affine fl i pkg \<longleftrightarrow> (case fl_affinity fl pkg of None \<Rightarrow> False | Some ws \<Rightarrow> i \<in> ws)"

definition arch_ok :: "worker_cap \<Rightarrow> string \<Rightarrow> bool" where
  "arch_ok w pf \<longleftrightarrow> (\<exists>a \<in> set (wc_arches w). a = pf)"

definition capable :: "fleet \<Rightarrow> worker_cap \<Rightarrow> string \<Rightarrow> string \<Rightarrow> bool" where
  "capable fl w pf pkg \<longleftrightarrow> arch_ok w pf \<and> (\<not> reserved fl pkg \<or> affine fl (wc_id w) pkg)"

definition is_live :: "timestamp option \<Rightarrow> timestamp \<Rightarrow> int \<Rightarrow> bool" where
  "is_live seen_at now liveness_timeout \<longleftrightarrow>
     (case seen_at of None \<Rightarrow> False | Some seen \<Rightarrow> now - seen \<le> liveness_timeout)"

definition available :: "worker_cap \<Rightarrow> timestamp \<Rightarrow> int \<Rightarrow> bool" where
  "available w now liveness_timeout \<longleftrightarrow>
     is_live (wc_last_seen w) now liveness_timeout \<and> \<not> wc_paused w \<and> wc_active w < wc_concurrency w"

definition blocked :: "fleet \<Rightarrow> worker_cap \<Rightarrow> string \<Rightarrow> string \<Rightarrow> timestamp \<Rightarrow> int \<Rightarrow> bool" where
  "blocked fl me pf pkg now liveness_timeout \<longleftrightarrow>
     (\<exists>w \<in> set (fl_workers fl).
        wc_id w \<noteq> wc_id me \<and> wc_priority w > wc_priority me \<and> capable fl w pf pkg \<and>
        available w now liveness_timeout)"

section \<open>Claiming\<close>

text \<open>\<^verbatim>\<open>ClaimRank\<close>, compared field by field: not affine, queued at, id, package.\<close>

type_synonym claim_rank = "bool \<times> timestamp \<times> id \<times> id"

definition rank_build ::
    "fleet \<Rightarrow> worker_cap \<Rightarrow> id set \<Rightarrow> (id \<rightharpoonup> string) \<Rightarrow> timestamp \<Rightarrow> int \<Rightarrow> int \<Rightarrow> queued_build \<Rightarrow>
     claim_rank list" where
  "rank_build fl me busy_pkgs pkgbases now spill_delay liveness_timeout build =
     (case pkgbases (q_pkg_id build) of
        None \<Rightarrow> []
      | Some pkg \<Rightarrow>
          if q_pkg_id build \<in> busy_pkgs then []
          else let pf = platform_as_str (q_platform build) in
          if \<not> capable fl me pf pkg then []
          else let age = now - (case q_start_time build of None \<Rightarrow> now | Some t \<Rightarrow> t) in
          if age < spill_delay \<and> blocked fl me pf pkg now liveness_timeout then []
          else [(\<not> affine fl (wc_id me) pkg, (case q_start_time build of None \<Rightarrow> 0 | Some t \<Rightarrow> t),
                 q_id build, q_pkg_id build)])"

fun claim_ranked :: "id \<Rightarrow> timestamp \<Rightarrow> int \<Rightarrow> claim_rank list \<Rightarrow> build option txn_end dbm" where
  "claim_ranked w now ttl [] = ret (Rollback None)"
| "claim_ranked w now ttl ((_, _, i, pkg_id) # ranked) =
     dbind (update_builds (\<lambda>b. b_id b = i \<and> b_status b = Enqueued)
              (\<lambda>b. b\<lparr>b_status := Active, b_start_time := Some now, b_worker_id := Some w,
                     b_lease_expires_at := Some (now + ttl)\<rparr>)) (\<lambda>rows_affected.
     if rows_affected = 1 then
       dthen (refresh_package_status pkg_id)
       (dbind (select (find_build_by_id i)) (\<lambda>claimed.
        ret (Commit claimed)))
     else claim_ranked w now ttl ranked)"

definition claim_body :: "id \<Rightarrow> int \<Rightarrow> int \<Rightarrow> int \<Rightarrow> build option txn_end dbm" where
  "claim_body worker_id lease_ttl_secs spill_delay_secs liveness_timeout_secs =
     dbind load_fleet (\<lambda>fl.
     case fleet_worker fl worker_id of
       None \<Rightarrow> ret (Rollback None)
     | Some me \<Rightarrow>
         if wc_paused me then ret (Rollback None)
         else
           dbind queued_builds (\<lambda>candidates.
           if candidates = [] then ret (Rollback None)
           else
             dbind (select (\<lambda>d. set (map b_pkg_id
               (filter (\<lambda>b. b_status b = Active \<and> b_worker_id b = Some worker_id) (builds d))))) (\<lambda>busy_pkgs.
             dbind (package_names candidates) (\<lambda>pkgbases.
             dbind now_secs (\<lambda>now.
             let ranked = sort (concat (map (rank_build fl me busy_pkgs pkgbases now spill_delay_secs
                            liveness_timeout_secs) candidates))
             in claim_ranked worker_id now lease_ttl_secs ranked)))))"

definition claim_job :: "id \<Rightarrow> int \<Rightarrow> int \<Rightarrow> int \<Rightarrow> build option dbm" where
  "claim_job worker_id lease_ttl_secs spill_delay_secs liveness_timeout_secs =
     transaction (claim_body worker_id lease_ttl_secs spill_delay_secs liveness_timeout_secs)"

section \<open>Abandoning\<close>

datatype retry = Queued id | Adopted id | Spent

record abandoned =
  ab_build_id :: id
  ab_number :: int
  ab_pkgbase :: "string option"
  ab_end_reason :: end_reason
  ab_worker_id :: "id option"
  ab_retry :: retry

definition abandoned_build_ref :: "abandoned \<Rightarrow> build_ref option" where
  "abandoned_build_ref a =
     (case ab_pkgbase a of None \<Rightarrow> None | Some n \<Rightarrow> Some \<lparr>pkgbase = n, number = ab_number a\<rparr>)"

definition still_held :: "build \<Rightarrow> build \<Rightarrow> bool" where
  "still_held observed b \<longleftrightarrow>
     b_id b = b_id observed \<and> b_status b = Active \<and> b_worker_id b = b_worker_id observed \<and>
     b_lease_expires_at b = b_lease_expires_at observed"

definition recent_builds :: "id \<Rightarrow> platform \<Rightarrow> int \<Rightarrow> tables \<Rightarrow> build list" where
  "recent_builds pkg_id pf max_attempts d =
     take (nat (max max_attempts 1))
       (sort_key (\<lambda>b. - b_number b)
          (filter (\<lambda>b. b_pkg_id b = pkg_id \<and> b_platform b = pf) (builds d)))"

definition spent_retry :: "build \<Rightarrow> bool" where
  "spent_retry row \<longleftrightarrow>
     b_trigger row = TimeoutRetry \<and> (case b_end_reason row of None \<Rightarrow> False | Some r \<Rightarrow> spends_retry r)"

definition futile_run :: "build list \<Rightarrow> nat" where
  "futile_run recent = length (takeWhile spent_retry recent)"

definition retry_of :: "enqueue_build_result \<Rightarrow> retry" where
  "retry_of res =
     (case eq_queued res of
        Inserted \<Rightarrow> Queued (b_id (eq_build res))
      | Promoted \<Rightarrow> Queued (b_id (eq_build res))
      | Existing \<Rightarrow> Adopted (b_id (eq_build res)))"

definition queue_retry :: "build \<Rightarrow> int \<Rightarrow> timestamp \<Rightarrow> package option \<Rightarrow> build list \<Rightarrow> retry dbm" where
  "queue_retry observed max_attempts now pkg recent =
     (case pkg of
        None \<Rightarrow> ret Spent
      | Some p \<Rightarrow>
          if futile_run recent < nat max_attempts then
            dbind (enqueue_build_if_missing (b_pkg_id observed) (b_platform observed)
                     (unwrap_or_default (p_upstream_version p)) now Pending_Enqueued TimeoutRetry) (\<lambda>res.
            ret (retry_of res))
          else ret Spent)"

definition abandon_body :: "build \<Rightarrow> end_reason \<Rightarrow> int \<Rightarrow> timestamp \<Rightarrow> abandoned option txn_end dbm" where
  "abandon_body observed reason max_attempts now =
     dbind (update_builds (still_held observed)
              (\<lambda>b. b\<lparr>b_status := Failed, b_end_time := Some now, b_lease_expires_at := None,
                     b_end_reason := Some reason\<rparr>)) (\<lambda>cas.
     if cas = 0 then dthen rollback_stmt (ret (Rollback None))
     else
       dbind (select (find_package_by_id (b_pkg_id observed))) (\<lambda>pkg.
       dbind (select (recent_builds (b_pkg_id observed) (b_platform observed) max_attempts)) (\<lambda>recent.
       dbind (queue_retry observed max_attempts now pkg recent) (\<lambda>retry.
       dthen (refresh_package_status (b_pkg_id observed))
       (ret (Commit (Some
          \<lparr>ab_build_id = b_id observed, ab_number = b_number observed,
           ab_pkgbase = map_option p_name pkg, ab_end_reason = reason,
           ab_worker_id = b_worker_id observed, ab_retry = retry\<rparr>)))))))"

definition abandon_build :: "build \<Rightarrow> end_reason \<Rightarrow> int \<Rightarrow> abandoned option dbm" where
  "abandon_build observed reason max_attempts =
     dbind now_secs (\<lambda>now. transaction (abandon_body observed reason max_attempts now))"

definition option_list :: "'a option \<Rightarrow> 'a list" where
  "option_list x = (case x of None \<Rightarrow> [] | Some y \<Rightarrow> [y])"

definition held_by :: "id \<Rightarrow> tables \<Rightarrow> build list" where
  "held_by worker_id d = filter (\<lambda>b. b_worker_id b = Some worker_id \<and> b_status b = Active) (builds d)"

definition abandon_worker_builds :: "id \<Rightarrow> int \<Rightarrow> abandoned list dbm" where
  "abandon_worker_builds worker_id max_attempts =
     dbind (select (held_by worker_id)) (\<lambda>owned.
     dbind (for_each (\<lambda>build. abandon_build build WorkerRevoked max_attempts) owned) (\<lambda>rs.
     ret (concat (map option_list rs))))"

section \<open>Heartbeats\<close>

record heartbeat_outcome =
  ho_renewed :: "id list"
  ho_dropped :: "abandoned list"
  ho_cancel_requested :: "id list"

fun heartbeat_scan ::
    "timestamp \<Rightarrow> id list \<Rightarrow> int \<Rightarrow> int \<Rightarrow> build list \<Rightarrow> (id list \<times> abandoned list) dbm" where
  "heartbeat_scan now active_ids ttl max_attempts [] = ret ([], [])"
| "heartbeat_scan now active_ids ttl max_attempts (build # owned) =
     (if b_id build \<in> set active_ids then
        dbind (heartbeat_scan now active_ids ttl max_attempts owned) (\<lambda>(renew, dropped).
        ret (b_id build # renew, dropped))
      else if (case b_start_time build of None \<Rightarrow> False | Some claimed \<Rightarrow> claimed > now - ttl) then
        heartbeat_scan now active_ids ttl max_attempts owned
      else
        dbind (abandon_build build Dropped max_attempts) (\<lambda>a.
        dbind (heartbeat_scan now active_ids ttl max_attempts owned) (\<lambda>(renew, dropped).
        ret (renew, option_list a @ dropped))))"

definition cancel_list :: "id \<Rightarrow> (id \<rightharpoonup> build) \<Rightarrow> id list \<Rightarrow> id list" where
  "cancel_list worker_id reported_rows active_ids =
     filter (\<lambda>i. case reported_rows i of
                   None \<Rightarrow> True
                 | Some b \<Rightarrow> b_status b \<noteq> Active \<or> b_worker_id b \<noteq> Some worker_id) active_ids"

definition heartbeat :: "id \<Rightarrow> id list \<Rightarrow> int \<Rightarrow> int \<Rightarrow> heartbeat_outcome dbm" where
  "heartbeat worker_id active_ids ttl max_attempts =
     dbind now_secs (\<lambda>now.
     dbind (select (held_by worker_id)) (\<lambda>owned.
     dbind (heartbeat_scan now active_ids ttl max_attempts owned) (\<lambda>(renew, dropped).
     dthen
       (if renew \<noteq> [] then
          dthen (update_builds
                   (\<lambda>b. b_id b \<in> set renew \<and> b_worker_id b = Some worker_id \<and> b_status b = Active)
                   (\<lambda>b. b\<lparr>b_lease_expires_at := Some (now + ttl)\<rparr>))
            (ret ())
        else ret ())
     (if active_ids \<noteq> [] then
        dbind (select (\<lambda>d. collect_map (map (\<lambda>b. (b_id b, b))
                 (filter (\<lambda>b. b_id b \<in> set active_ids) (builds d))))) (\<lambda>reported_rows.
        ret \<lparr>ho_renewed = renew, ho_dropped = dropped,
             ho_cancel_requested = cancel_list worker_id reported_rows active_ids\<rparr>)
      else ret \<lparr>ho_renewed = renew, ho_dropped = dropped, ho_cancel_requested = []\<rparr>))))"

section \<open>Why a build waits\<close>

datatype waiting_reason =
    Waiting_Affinity "string list"
  | Waiting_Arch string
  | Waiting_Offline
  | Waiting_Paused "string list"

definition waiting_reason :: "fleet \<Rightarrow> timestamp \<Rightarrow> int \<Rightarrow> string \<Rightarrow> string \<Rightarrow> waiting_reason option" where
  "waiting_reason fl now liveness_timeout pf pkg =
     (let cap = filter (\<lambda>w. capable fl w pf pkg) (fl_workers fl);
          live = filter (\<lambda>w. is_live (wc_last_seen w) now liveness_timeout) cap
      in if \<exists>w \<in> set live. \<not> wc_paused w then None
         else if live \<noteq> [] then Some (Waiting_Paused (sort (map wc_name live)))
         else if reserved fl pkg then Some (Waiting_Affinity (affinity_holders fl pkg))
         else if cap = [] then Some (Waiting_Arch pf)
         else Some Waiting_Offline)"

definition waiting_reasons :: "int \<Rightarrow> (id \<rightharpoonup> waiting_reason) dbm" where
  "waiting_reasons liveness_timeout_secs =
     dbind queued_builds (\<lambda>queued.
     if queued = [] then ret Map.empty
     else
       dbind load_fleet (\<lambda>fl.
       dbind (package_names queued) (\<lambda>pkgbases.
       dbind now_secs (\<lambda>now.
       ret (collect_map (concat (map (\<lambda>build.
         case pkgbases (q_pkg_id build) of
           None \<Rightarrow> []
         | Some pkg \<Rightarrow>
             (case waiting_reason fl now liveness_timeout_secs (platform_as_str (q_platform build)) pkg of
                None \<Rightarrow> []
              | Some reason \<Rightarrow> [(q_id build, reason)])) queued)))))))"

section \<open>The reaper\<close>

record build_ages =
  ages_default :: int
  ages_by_package :: "(id \<times> int) list"

definition ages_all :: "int \<Rightarrow> build_ages" where
  "ages_all age = \<lparr>ages_default = age, ages_by_package = []\<rparr>"

definition ages_of :: "build_ages \<Rightarrow> id \<Rightarrow> int" where
  "ages_of ages pkg_id =
     (case map_of (ages_by_package ages) pkg_id of None \<Rightarrow> ages_default ages | Some a \<Rightarrow> a)"

definition ages_shortest :: "build_ages \<Rightarrow> int" where
  "ages_shortest ages = fold min (map snd (ages_by_package ages)) (ages_default ages)"

definition expired :: "timestamp \<Rightarrow> timestamp option \<Rightarrow> bool" where
  "expired now lease \<longleftrightarrow> (case lease of None \<Rightarrow> True | Some expires \<Rightarrow> expires < now)"

definition started_before :: "timestamp \<Rightarrow> build \<Rightarrow> bool" where
  "started_before t b \<longleftrightarrow> (case b_start_time b of None \<Rightarrow> False | Some start \<Rightarrow> start < t)"

definition reap_candidates :: "timestamp \<Rightarrow> build_ages \<Rightarrow> tables \<Rightarrow> build list" where
  "reap_candidates now ages d =
     filter (\<lambda>b. b_status b = Active \<and>
                 (expired now (b_lease_expires_at b) \<or> started_before (now - ages_shortest ages) b))
       (builds d)"

definition reap_reason :: "timestamp \<Rightarrow> build_ages \<Rightarrow> build \<Rightarrow> end_reason option" where
  "reap_reason now ages build =
     (if started_before (now - ages_of ages (b_pkg_id build)) build then Some MaxDuration
      else if expired now (b_lease_expires_at build) then Some LeaseExpired
      else None)"

definition reap_expired_builds :: "timestamp \<Rightarrow> int \<Rightarrow> build_ages \<Rightarrow> abandoned list dbm" where
  "reap_expired_builds now max_attempts ages =
     dbind (select (reap_candidates now ages)) (\<lambda>candidates.
     dbind (for_each (\<lambda>build.
       case reap_reason now ages build of
         None \<Rightarrow> ret None
       | Some reason \<Rightarrow> abandon_build build reason max_attempts) candidates) (\<lambda>rs.
     ret (concat (map option_list rs))))"

end
