(* ===== verification/Job_Routing.thy ===== *)
theory Job_Routing
  imports Worker_Jobs
begin

text \<open>
  What \<open>claim_job\<close> and \<open>waiting_reasons\<close> decide, stated over the tables: who may build
  what, who holds whom back, and which of the claimable builds a worker is handed.
\<close>

section \<open>The routing rules\<close>

definition has_affinity :: "worker \<Rightarrow> string \<Rightarrow> bool" where
  "has_affinity w pkg \<longleftrightarrow> pkg \<in> set (w_package_affinity w)"

definition reserved_pkg :: "tables \<Rightarrow> string \<Rightarrow> bool" where
  "reserved_pkg d pkg \<longleftrightarrow> (\<exists>w \<in> set (approved_rows d). has_affinity w pkg)"

definition may_build :: "tables \<Rightarrow> worker \<Rightarrow> platform \<Rightarrow> string \<Rightarrow> bool" where
  "may_build d w pf pkg \<longleftrightarrow>
     platform_as_str pf \<in> set (w_arches w) \<and> (reserved_pkg d pkg \<longrightarrow> has_affinity w pkg)"

definition worker_load :: "tables \<Rightarrow> id \<Rightarrow> nat" where
  "worker_load d i = length (filter (\<lambda>b. b_status b = Active \<and> b_worker_id b = Some i) (builds d))"

definition could_take :: "tables \<Rightarrow> timestamp \<Rightarrow> int \<Rightarrow> worker \<Rightarrow> bool" where
  "could_take d now live w \<longleftrightarrow>
     is_live (w_last_seen w) now live \<and> \<not> w_paused w \<and>
     min (int (worker_load d (w_id w))) i32_MAX < w_concurrency w"

definition held_back :: "tables \<Rightarrow> timestamp \<Rightarrow> int \<Rightarrow> worker \<Rightarrow> platform \<Rightarrow> string \<Rightarrow> bool" where
  "held_back d now live me pf pkg \<longleftrightarrow>
     (\<exists>w \<in> set (approved_rows d).
        w_priority w > w_priority me \<and> may_build d w pf pkg \<and> could_take d now live w)"

definition package_name :: "tables \<Rightarrow> id \<Rightarrow> string option" where
  "package_name d i = map_option p_name (find_package_by_id i d)"

definition claimable :: "tables \<Rightarrow> timestamp \<Rightarrow> int \<Rightarrow> int \<Rightarrow> worker \<Rightarrow> build \<Rightarrow> bool" where
  "claimable d now spill live me b \<longleftrightarrow>
     b_status b = Enqueued \<and>
     (case package_name d (b_pkg_id b) of
        None \<Rightarrow> False
      | Some pkg \<Rightarrow>
          may_build d me (b_platform b) pkg \<and>
          (\<forall>x \<in> set (builds d). b_status x = Active \<longrightarrow> b_worker_id x = Some (w_id me) \<longrightarrow>
             b_pkg_id x \<noteq> b_pkg_id b) \<and>
          (spill \<le> now - (case b_start_time b of None \<Rightarrow> now | Some t \<Rightarrow> t) \<or>
           \<not> held_back d now live me (b_platform b) pkg))"

definition claim_order :: "tables \<Rightarrow> worker \<Rightarrow> build \<Rightarrow> claim_rank" where
  "claim_order d me b =
     (\<not> has_affinity me (the (package_name d (b_pkg_id b))),
      (case b_start_time b of None \<Rightarrow> 0 | Some t \<Rightarrow> t), b_id b, b_pkg_id b)"

definition approved_worker :: "tables \<Rightarrow> id \<Rightarrow> worker option" where
  "approved_worker d i = find (\<lambda>w. w_id w = i) (approved_rows d)"

section \<open>The loaded fleet is the table's\<close>

lemma collect_map_functional:
  assumes "\<And>k v. (k, v) \<in> set kvs \<Longrightarrow> v = f k"
  shows "collect_map kvs k = (if k \<in> fst ` set kvs then Some (f k) else None)"
proof (cases "map_of (rev kvs) k")
  case None
  then show ?thesis by (simp add: collect_map_def map_of_eq_None_iff)
next
  case (Some v)
  then have "(k, v) \<in> set kvs" by (auto dest: map_of_SomeD)
  with assms [OF this] Some show ?thesis by (force simp: collect_map_def)
qed

definition cap_of :: "tables \<Rightarrow> worker \<Rightarrow> worker_cap" where
  "cap_of d w =
     \<lparr>wc_id = w_id w, wc_name = w_name w, wc_priority = w_priority w, wc_concurrency = w_concurrency w,
      wc_arches = w_arches w, wc_last_seen = w_last_seen w,
      wc_active = min (int (worker_load d (w_id w))) i32_MAX, wc_paused = w_paused w\<rparr>"

definition fleet_of :: "tables \<Rightarrow> fleet" where
  "fleet_of d = fold (add_worker (active_map (active_counts d))) (approved_rows d)
     \<lparr>fl_workers = [], fl_affinity = Map.empty\<rparr>"

lemma load_fleet_Inr [db_simps]:
  "load_fleet s = (Inr fl, t) \<longleftrightarrow> up s \<and> up (tick s) \<and> fl = fleet_of (db s) \<and> t = tick (tick s)"
  by (auto simp: load_fleet_def db_simps fleet_of_def)

lemma count_active:
  "count_list (map b_worker_id (filter (\<lambda>b. b_status b = Active) (builds d))) (Some i) = worker_load d i"
proof -
  have "count_list (map b_worker_id (filter (\<lambda>b. b_status b = Active) bs)) (Some i) =
      length (filter (\<lambda>b. b_status b = Active \<and> b_worker_id b = Some i) bs)" for bs
    by (induction bs) auto
  then show ?thesis by (simp add: worker_load_def)
qed

lemma active_of_load:
  "(case active_map (active_counts d) i of None \<Rightarrow> 0 | Some n \<Rightarrow> n) = min (int (worker_load d i)) i32_MAX"
proof -
  let ?active = "map b_worker_id (filter (\<lambda>b. b_status b = Active) (builds d))"
  let ?kvs = "concat (map (\<lambda>(i, n). case i of None \<Rightarrow> [] | Some w \<Rightarrow> [(w, min (int n) i32_MAX)])
      (active_counts d))"
  have "collect_map ?kvs i =
      (if i \<in> fst ` set ?kvs then Some (min (int (worker_load d i)) i32_MAX) else None)"
    by (rule collect_map_functional)
      (auto simp: active_counts_def Let_def count_active [symmetric] split: option.splits)
  moreover have "i \<in> fst ` set ?kvs \<longleftrightarrow> Some i \<in> set ?active"
    by (force simp: active_counts_def Let_def split: option.splits)
  moreover have "worker_load d i = 0" if "Some i \<notin> set ?active"
    using that count_active [of d i] count_notin [of "Some i" ?active] by simp
  ultimately show ?thesis by (auto simp: active_map_def i32_MAX_def)
qed

lemma add_affinity_apply:
  "add_affinity i pkgs m pkg =
     (if pkg \<in> set pkgs then Some (insert i (case m pkg of None \<Rightarrow> {} | Some ws \<Rightarrow> ws)) else m pkg)"
  unfolding add_affinity_def by (induction pkgs arbitrary: m) (auto split: option.splits)

lemma fold_add_worker:
  "fl_workers (fold (add_worker act) ws fl) =
     fl_workers fl @ map (\<lambda>w. \<lparr>wc_id = w_id w, wc_name = w_name w, wc_priority = w_priority w,
       wc_concurrency = w_concurrency w, wc_arches = w_arches w, wc_last_seen = w_last_seen w,
       wc_active = (case act (w_id w) of None \<Rightarrow> 0 | Some n \<Rightarrow> n), wc_paused = w_paused w\<rparr>) ws"
  "fl_affinity (fold (add_worker act) ws fl) pkg =
     (if \<exists>w \<in> set ws. has_affinity w pkg
      then Some (w_id ` {w \<in> set ws. has_affinity w pkg} \<union>
                 (case fl_affinity fl pkg of None \<Rightarrow> {} | Some is \<Rightarrow> is))
      else fl_affinity fl pkg)"
  by (induction ws arbitrary: fl)
    (auto simp: add_worker_def add_affinity_apply has_affinity_def split: option.splits)

lemma fleet_of_workers: "fl_workers (fleet_of d) = map (cap_of d) (approved_rows d)"
  by (simp add: fleet_of_def fold_add_worker cap_of_def active_of_load)

lemma reserved_fleet_of [simp]: "reserved (fleet_of d) pkg \<longleftrightarrow> reserved_pkg d pkg"
  by (simp add: reserved_def fleet_of_def fold_add_worker reserved_pkg_def)

lemma approved_ids:
  "distinct (map w_id (workers d)) \<Longrightarrow> v \<in> set (approved_rows d) \<Longrightarrow> w \<in> set (approved_rows d) \<Longrightarrow>
   w_id v = w_id w \<Longrightarrow> v = w"
  by (auto simp: approved_rows_def dest: distinct_map_eq)

lemma affine_fleet_of:
  assumes "distinct (map w_id (workers d))" "w \<in> set (approved_rows d)"
  shows "affine (fleet_of d) (w_id w) pkg \<longleftrightarrow> has_affinity w pkg"
proof -
  have "affine (fleet_of d) (w_id w) pkg \<longleftrightarrow>
      (\<exists>v \<in> set (approved_rows d). has_affinity v pkg \<and> w_id v = w_id w)"
    by (auto simp: affine_def fleet_of_def fold_add_worker image_iff)
  then show ?thesis using assms(2) approved_ids [OF assms(1) _ assms(2)] by blast
qed

lemma cap_of_sel [simp]:
  "wc_id (cap_of d w) = w_id w" "wc_name (cap_of d w) = w_name w" "wc_priority (cap_of d w) = w_priority w"
  "wc_concurrency (cap_of d w) = w_concurrency w" "wc_arches (cap_of d w) = w_arches w"
  "wc_last_seen (cap_of d w) = w_last_seen w" "wc_paused (cap_of d w) = w_paused w"
  "wc_active (cap_of d w) = min (int (worker_load d (w_id w))) i32_MAX"
  by (simp_all add: cap_of_def)

lemma capable_fleet_of:
  assumes "distinct (map w_id (workers d))" "w \<in> set (approved_rows d)"
  shows "capable (fleet_of d) (cap_of d w) (platform_as_str pf) pkg \<longleftrightarrow> may_build d w pf pkg"
  using affine_fleet_of [OF assms] by (auto simp: capable_def arch_ok_def may_build_def)

lemma available_cap_of: "available (cap_of d w) now live \<longleftrightarrow> could_take d now live w"
  by (simp add: available_def could_take_def)

lemma blocked_fleet_of:
  assumes "distinct (map w_id (workers d))" "me \<in> set (approved_rows d)"
  shows "blocked (fleet_of d) (cap_of d me) (platform_as_str pf) pkg now live \<longleftrightarrow>
    held_back d now live me pf pkg"
  using assms approved_ids [OF assms(1) _ assms(2)] capable_fleet_of [OF assms(1)]
  by (fastforce simp: blocked_def held_back_def fleet_of_workers available_cap_of)

lemma find_map: "find P (map f xs) = map_option f (find (P \<circ> f) xs)"
  by (induction xs) auto

lemma fleet_worker_of: "fleet_worker (fleet_of d) i = map_option (cap_of d) (approved_worker d i)"
  by (simp add: fleet_worker_def fleet_of_workers find_map comp_def approved_worker_def)

section \<open>The claim\<close>

definition keys_ok :: "tables \<Rightarrow> bool" where
  "keys_ok d \<longleftrightarrow> distinct (map b_id (builds d)) \<and> distinct (map p_id (packages d)) \<and>
     distinct (map w_id (workers d))"

lemma keys_okD:
  assumes "keys_ok d"
  shows "distinct (map b_id (builds d))" "distinct (map p_id (packages d))" "distinct (map w_id (workers d))"
  using assms by (simp_all add: keys_ok_def)

definition taken :: "id \<Rightarrow> timestamp \<Rightarrow> int \<Rightarrow> build \<Rightarrow> build" where
  "taken w now ttl b = b\<lparr>b_status := Active, b_start_time := Some now, b_worker_id := Some w,
     b_lease_expires_at := Some (now + ttl)\<rparr>"

definition claim_choice :: "tables \<Rightarrow> timestamp \<Rightarrow> int \<Rightarrow> int \<Rightarrow> id \<Rightarrow> build option" where
  "claim_choice d now spill live w =
     (case approved_worker d w of
        None \<Rightarrow> None
      | Some me \<Rightarrow>
          if w_paused me then None
          else min_by_key (claim_order d me) (filter (claimable d now spill live me) (builds d)))"

definition queued_of :: "build \<Rightarrow> queued_build" where
  "queued_of b = \<lparr>q_id = b_id b, q_pkg_id = b_pkg_id b, q_platform = b_platform b, q_start_time = b_start_time b\<rparr>"

lemma queued_rows_eq: "queued_rows d = map queued_of (filter (\<lambda>b. b_status b = Enqueued) (builds d))"
  by (simp add: queued_rows_def queued_of_def)

lemma package_name_mem:
  "distinct (map p_id (packages d)) \<Longrightarrow> p \<in> set (packages d) \<Longrightarrow> package_name d (p_id p) = Some (p_name p)"
  unfolding package_name_def find_package_by_id_def
  by (subst find_unique [of _ _ p]) (auto dest: distinct_map_eq)

lemma package_name_None: "package_name d i = None \<longleftrightarrow> i \<notin> p_id ` set (packages d)"
  by (auto simp: package_name_def find_package_by_id_def find_None_iff)

lemma package_names_collected:
  assumes "distinct (map p_id (packages d))" and "i \<in> I"
  shows "collect_map (map (\<lambda>p. (p_id p, p_name p)) (filter (\<lambda>p. p_id p \<in> I) (packages d))) i = package_name d i"
proof -
  have "collect_map (map (\<lambda>p. (p_id p, p_name p)) (filter (\<lambda>p. p_id p \<in> I) (packages d))) i =
      (if i \<in> fst ` set (map (\<lambda>p. (p_id p, p_name p)) (filter (\<lambda>p. p_id p \<in> I) (packages d)))
       then Some (the (package_name d i)) else None)"
    by (rule collect_map_functional) (auto simp: package_name_mem [OF assms(1)])
  also have "i \<in> fst ` set (map (\<lambda>p. (p_id p, p_name p)) (filter (\<lambda>p. p_id p \<in> I) (packages d))) \<longleftrightarrow>
      package_name d i \<noteq> None"
    using assms(2) unfolding package_name_None by force
  finally show ?thesis by (cases "package_name d i") auto
qed

lemma rank_build_eq:
  assumes keys: "keys_ok d" and me: "me \<in> set (approved_rows d)"
    and b: "b \<in> set (builds d)" "b_status b = Enqueued"
    and pkgbases: "pkgbases (b_pkg_id b) = package_name d (b_pkg_id b)"
    and busy: "busy = set (map b_pkg_id
      (filter (\<lambda>x. b_status x = Active \<and> b_worker_id x = Some (w_id me)) (builds d)))"
  shows "rank_build (fleet_of d) (cap_of d me) busy pkgbases now spill live (queued_of b) =
    (if claimable d now spill live me b then [claim_order d me b] else [])"
proof (cases "package_name d (b_pkg_id b)")
  case None
  with pkgbases show ?thesis by (simp add: rank_build_def queued_of_def claimable_def)
next
  case (Some pkg)
  note facts = capable_fleet_of [OF keys_okD(3) [OF keys] me] blocked_fleet_of [OF keys_okD(3) [OF keys] me]
    affine_fleet_of [OF keys_okD(3) [OF keys] me]
  have "b_pkg_id b \<in> busy \<longleftrightarrow> \<not> (\<forall>x \<in> set (builds d). b_status x = Active \<longrightarrow>
      b_worker_id x = Some (w_id me) \<longrightarrow> b_pkg_id x \<noteq> b_pkg_id b)" unfolding busy by (auto simp: image_iff)
  with pkgbases Some b(2) facts show ?thesis
    by (auto simp: rank_build_def queued_of_def claimable_def claim_order_def Let_def)
qed

lemma concat_map_filter:
  "(\<And>x. x \<in> set xs \<Longrightarrow> f x = (if P x then [g x] else [])) \<Longrightarrow> concat (map f xs) = map g (filter P xs)"
  by (induction xs) auto

lemma ranked_eq:
  assumes keys: "keys_ok d" and me: "me \<in> set (approved_rows d)"
    and busy: "busy = set (map b_pkg_id
      (filter (\<lambda>x. b_status x = Active \<and> b_worker_id x = Some (w_id me)) (builds d)))"
    and pkgbases: "\<And>b. b \<in> set (builds d) \<Longrightarrow> b_status b = Enqueued \<Longrightarrow>
      pkgbases (b_pkg_id b) = package_name d (b_pkg_id b)"
  shows "concat (map (rank_build (fleet_of d) (cap_of d me) busy pkgbases now spill live) (queued_rows d)) =
    map (claim_order d me) (filter (claimable d now spill live me) (builds d))"
proof -
  have "concat (map (\<lambda>b. rank_build (fleet_of d) (cap_of d me) busy pkgbases now spill live (queued_of b))
      (filter (\<lambda>b. b_status b = Enqueued) (builds d))) =
    map (claim_order d me) (filter (claimable d now spill live me)
      (filter (\<lambda>b. b_status b = Enqueued) (builds d)))"
  proof (rule concat_map_filter)
    fix b assume "b \<in> set (filter (\<lambda>b. b_status b = Enqueued) (builds d))"
    then have b: "b \<in> set (builds d)" "b_status b = Enqueued" by auto
    show "rank_build (fleet_of d) (cap_of d me) busy pkgbases now spill live (queued_of b) =
        (if claimable d now spill live me b then [claim_order d me b] else [])"
      by (rule rank_build_eq [where pkgbases = pkgbases, OF keys me b pkgbases [OF b] busy])
  qed
  also have "filter (claimable d now spill live me) (filter (\<lambda>b. b_status b = Enqueued) (builds d)) =
      filter (claimable d now spill live me) (builds d)"
    by (auto simp: claimable_def intro!: filter_cong)
  finally show ?thesis by (simp add: queued_rows_eq comp_def)
qed

text \<open>The head of the sorted ranks belongs to the build of least rank.\<close>

lemma sort_ranked:
  assumes "distinct (map b_id bs)" and "min_by_key (claim_order d me) (filter P bs) = Some b"
  shows "\<exists>rest. sort (map (claim_order d me) (filter P bs)) = claim_order d me b # rest"
proof -
  let ?xs = "map (claim_order d me) (filter P bs)"
  have mem: "claim_order d me b \<in> set ?xs" using min_by_key_mem [OF assms(2)] by auto
  then obtain x rest where x: "sort ?xs = x # rest" by (metis list.exhaust list.set(1) set_sort empty_iff)
  have "x \<in> set ?xs" using x by (metis list.set_intros(1) set_sort)
  then have "claim_order d me b \<le> x" using min_by_key_le [OF assms(2)] by auto
  moreover have "x \<le> claim_order d me b"
    using x mem sorted_sort [of ?xs] by (metis set_sort set_ConsD sorted_simps(2) order_refl)
  ultimately show ?thesis using x by auto
qed

lemma claim_ranked_first:
  assumes run: "claim_ranked w now ttl (sort (map (claim_order d me) (filter P (builds (db s))))) s = (Inr res, t)"
    and ids: "distinct (map b_id (builds (db s)))" and P: "\<And>b. P b \<Longrightarrow> b_status b = Enqueued"
  shows "(case min_by_key (claim_order d me) (filter P (builds (db s))) of
      None \<Rightarrow> res = Rollback None \<and> db t = db s
    | Some b \<Rightarrow> res = Commit (Some (taken w now ttl b)) \<and>
        db t = refreshed (b_pkg_id b) (set_builds (\<lambda>x. b_id x = b_id b) (taken w now ttl) (db s)))"
proof (cases "min_by_key (claim_order d me) (filter P (builds (db s)))")
  case None
  with run show ?thesis by (simp add: ret_iff)
next
  case (Some b)
  have b: "b \<in> set (builds (db s))" "P b" using min_by_key_mem [OF Some] by auto
  let ?p = "\<lambda>x. b_id x = b_id b \<and> b_status x = Enqueued"
  let ?d' = "set_builds ?p (taken w now ttl) (db s)"
  have one: "length (filter ?p (builds (db s))) = 1"
    by (rule filter_unique_one [OF ids b(1)]) (rule P [OF b(2)])
  have same: "?d' = set_builds (\<lambda>x. b_id x = b_id b) (taken w now ttl) (db s)"
    by (rule set_builds_cong) (use ids b P distinct_map_eq in metis)
  have row: "find_build_by_id (b_id b) ?d' = Some (taken w now ttl b)"
    unfolding find_build_by_id_def
  proof (rule find_unique)
    show "taken w now ttl b \<in> set (builds ?d')" using b P by (force simp: image_iff)
    show "x = y" if "x \<in> set (builds ?d')" "y \<in> set (builds ?d')" "b_id x = b_id b" "b_id y = b_id b" for x y
      using that ids by (auto simp: taken_def split: if_splits dest: distinct_map_eq)
  qed (simp add: taken_def)
  have upd: "(\<lambda>b. b\<lparr>b_status := Active, b_start_time := Some now, b_worker_id := Some w,
      b_lease_expires_at := Some (now + ttl)\<rparr>) = taken w now ttl" by (auto simp: taken_def)
  obtain rest where "sort (map (claim_order d me) (filter P (builds (db s)))) = claim_order d me b # rest"
    using sort_ranked [OF ids Some] by blast
  with run show ?thesis using one row
    by (auto simp: claim_order_def upd db_simps Some same find_build_by_id_def dest!: refresh_package_status_Inr)
qed

lemma keys_ok_db_ok: "db_ok d \<Longrightarrow> keys_ok d"
  by (simp add: keys_ok_def db_okD)

lemma claim_body_Inr:
  assumes run: "claim_body w ttl spill live s = (Inr res, t)" and keys: "keys_ok (db s)"
  shows "(case claim_choice (db s) (clock s) spill live w of
      None \<Rightarrow> res = Rollback None
    | Some b \<Rightarrow> res = Commit (Some (taken w (clock s) ttl b)) \<and>
        db t = refreshed (b_pkg_id b) (set_builds (\<lambda>x. b_id x = b_id b) (taken w (clock s) ttl) (db s)))"
proof (cases "approved_worker (db s) w")
  case None
  with run show ?thesis by (auto simp: claim_body_def db_simps fleet_worker_of claim_choice_def)
next
  case (Some me)
  then have me: "me \<in> set (approved_rows (db s))" "w_id me = w"
    unfolding approved_worker_def by (auto dest: find_Some_mem)
  show ?thesis
  proof (cases "w_paused me \<or> queued_rows (db s) = []")
    case True
    moreover have "filter (claimable (db s) (clock s) spill live me) (builds (db s)) = []"
      if "queued_rows (db s) = []"
      using that by (auto simp: queued_rows_def claimable_def filter_empty_conv)
    ultimately show ?thesis using run Some
      by (auto simp: claim_body_def db_simps fleet_worker_of claim_choice_def queued_builds_def
          split: if_splits)
  next
    case False
    define u where "u = tick (tick (tick (tick (tick s))))"
    have u: "db u = db s" "clock u = clock s" by (simp_all add: u_def)
    let ?I = "set (map q_pkg_id (queued_rows (db s)))"
    let ?names = "collect_map (map (\<lambda>p. (p_id p, p_name p)) (filter (\<lambda>p. p_id p \<in> ?I) (packages (db s))))"
    let ?busy = "set (map b_pkg_id
      (filter (\<lambda>x. b_status x = Active \<and> b_worker_id x = Some (w_id me)) (builds (db s))))"
    let ?P = "claimable (db s) (clock s) spill live me"
    have names: "?names (b_pkg_id b) = package_name (db s) (b_pkg_id b)"
      if "b \<in> set (builds (db s))" "b_status b = Enqueued" for b
      by (rule package_names_collected [OF keys_okD(2) [OF keys]])
        (use that in \<open>auto simp: queued_rows_eq queued_of_def\<close>)
    have "claim_ranked w (clock s) ttl (sort (concat (map (rank_build (fleet_of (db s)) (cap_of (db s) me)
        ?busy ?names (clock s) spill live) (queued_rows (db s))))) u = (Inr res, t)"
      using run Some False me(2) unfolding u_def
      by (auto simp: claim_body_def db_simps fleet_worker_of queued_builds_def package_names_def Let_def)
    then have "claim_ranked w (clock s) ttl (sort (map (claim_order (db s) me) (filter ?P (builds (db u))))) u =
        (Inr res, t)" using ranked_eq [OF keys me(1) refl names] by (simp add: u)
    from claim_ranked_first [OF this] keys_okD(1) [OF keys] Some False u show ?thesis
      by (auto simp: claim_choice_def claimable_def split: option.splits)
  qed
qed

text \<open>The claim as a function of the tables and the clock.\<close>

lemma claim_job_Inr:
  assumes run: "claim_job w ttl spill live s = (Inr r, t)" and keys: "keys_ok (db s)"
  shows "(case claim_choice (db s) (clock s) spill live w of
      None \<Rightarrow> r = None \<and> db t = db s
    | Some b \<Rightarrow> r = Some (taken w (clock s) ttl b) \<and>
        db t = refreshed (b_pkg_id b) (set_builds (\<lambda>x. b_id x = b_id b) (taken w (clock s) ttl) (db s)))"
  using run claim_body_Inr [of w ttl spill live "tick s"] keys unfolding claim_job_def transaction_Inr
  by (auto split: option.splits)

lemma claim_choice_Some:
  assumes "claim_choice d now spill live w = Some b"
  shows "\<exists>me \<in> set (approved_rows d). w_id me = w \<and> \<not> w_paused me \<and> claimable d now spill live me b"
    "b \<in> set (builds d)" "b_status b = Enqueued"
  using assms
  by (auto simp: claim_choice_def approved_worker_def claimable_def split: option.splits if_splits
      dest!: find_Some_mem min_by_key_mem)

lemma keeps_claim:
  assumes ok: "db_ok (db s)" and run: "claim_job w ttl spill live s = (r, t)"
  shows "db_ok (db t)"
proof (cases r)
  case (Inl e)
  with run ok show ?thesis unfolding claim_job_def by (auto dest: transaction_Inl)
next
  case (Inr res)
  show ?thesis
  proof (cases "claim_choice (db s) (clock s) spill live w")
    case None
    with claim_job_Inr [OF run [unfolded Inr] keys_ok_db_ok [OF ok]] ok show ?thesis by simp
  next
    case (Some b)
    have b: "b \<in> set (builds (db s))" "b_status b = Enqueued" using claim_choice_Some [OF Some] by auto
    let ?p = "\<lambda>x. b_id x = b_id b \<and> b_status x = Enqueued"
    have "set_builds (\<lambda>x. b_id x = b_id b) (taken w (clock s) ttl) (db s) =
        set_builds ?p (taken w (clock s) ttl) (db s)"
      by (rule set_builds_cong) (use b db_okD(4) [OF ok] distinct_map_eq in metis)
    moreover have "db_ok (refreshed (b_pkg_id b) (set_builds ?p (taken w (clock s) ttl) (db s)))"
      by (rule db_ok_update [OF ok])
        (use b db_okD(4) [OF ok] in \<open>auto simp: taken_def intro: row_step.claim dest: distinct_map_eq\<close>)
    ultimately show ?thesis
      using claim_job_Inr [OF run [unfolded Inr] keys_ok_db_ok [OF ok]] Some by simp
  qed
qed

lemma refines_claim_ranked: "refines (claim_ranked w now ttl ranked)"
  by (induction w now ttl ranked rule: claim_ranked.induct)
    (auto intro!: refine refines_update_builds row_step.claim)

lemma refines_claim [refine]: "refines (claim_job w ttl spill live)"
  unfolding claim_job_def claim_body_def load_fleet_def queued_builds_def package_names_def Let_def
  by (auto intro!: refine refines_claim_ranked split: option.splits)

lemma failed_claim: "claim_job w ttl spill live s = (Inl e, t) \<Longrightarrow> db t = db s"
  unfolding claim_job_def by (rule transaction_Inl)

interpretation claim: atomic_program "\<lambda>_ _. True" "\<lambda>(w, ttl, spill, live). claim_job w ttl spill live"
  by unfold_locales (auto intro: refines_claim keeps_claim dest: failed_claim)

section \<open>A worker that can be served is served\<close>

lemma reliable_claim_ranked: "reliable (claim_ranked w now ttl ranked)"
  by (induction ranked) (auto simp: split_paired_all intro!: rel)

lemma reliable_claim: "reliable (claim_job w ttl spill live)"
  unfolding claim_job_def claim_body_def load_fleet_def queued_builds_def package_names_def Let_def
  by (auto intro!: rel reliable_claim_ranked split: option.split)

section \<open>Properties\<close>

text \<open>C9: \<open>claim_job\<close> refines the routing rules: of the builds the worker may take it claims the one
  that ranks first, marks that row alone as active under the worker's lease, refreshes the status
  of its package and touches nothing else; when there is no such build, or a statement fails, the
  tables are as they were.\<close>

theorem claim_job_refines:
  assumes "db_ok (db s)"
  shows "case claim_job w ttl spill live s of
      (Inl e, t) \<Rightarrow> db t = db s
    | (Inr r, t) \<Rightarrow> (case claim_choice (db s) (clock s) spill live w of
        None \<Rightarrow> r = None \<and> db t = db s
      | Some b \<Rightarrow> r = Some (taken w (clock s) ttl b) \<and>
          db t = refreshed (b_pkg_id b) (set_builds (\<lambda>x. b_id x = b_id b) (taken w (clock s) ttl) (db s)))"
  by (rule outcomeI, erule failed_claim, rule claim_job_Inr [OF _ keys_ok_db_ok [OF assms]])

theorem claim_job_refines_witness:
  "db_ok (db sample_server) \<and> map_option b_id (claim_choice sample_tables 1000 0 60 2) = Some 3 \<and>
   (case claim_job 2 60 0 60 sample_server of (Inl e, t) \<Rightarrow> False | (Inr r, t) \<Rightarrow> map_option b_id r = Some 3)"
proof -
  have choice: "map_option b_id (claim_choice sample_tables 1000 0 60 2) = Some 3" by code_simp
  then obtain b where b: "claim_choice sample_tables 1000 0 60 2 = Some b" "b_id b = 3" by auto
  obtain r t where "claim_job 2 60 0 60 sample_server = (Inr r, t)"
    using reliableE [OF reliable_claim sample_server_sel(2)] by metis
  then show ?thesis using claim_job_refines [of sample_server 2 60 0 60] sample_db_ok b choice
    by (simp add: taken_def)
qed

text \<open>C10: A build that is handed out was queued, its package still exists, the worker is approved,
  not paused, builds the platform, has affinity for a package that is reserved, and runs no
  other build of the same package; while the build is younger than the spill delay no live,
  free worker of higher priority could have taken it.\<close>

theorem claim_job_sound:
  assumes "db_ok (db s)" and "claim_job w ttl spill live s = (Inr (Some b'), t)"
  shows "\<exists>b me pkg. b \<in> set (builds (db s)) \<and> b' = taken w (clock s) ttl b \<and> b_status b = Enqueued \<and>
    package_name (db s) (b_pkg_id b) = Some pkg \<and>
    me \<in> set (workers (db s)) \<and> w_id me = w \<and> w_status me = Approved \<and> \<not> w_paused me \<and>
    platform_as_str (b_platform b) \<in> set (w_arches me) \<and>
    (reserved_pkg (db s) pkg \<longrightarrow> has_affinity me pkg) \<and>
    (\<forall>x \<in> set (builds (db s)). b_status x = Active \<and> b_worker_id x = Some w \<longrightarrow> b_pkg_id x \<noteq> b_pkg_id b) \<and>
    (\<forall>start. b_start_time b = Some start \<and> clock s - start < spill \<longrightarrow>
       \<not> held_back (db s) (clock s) live me (b_platform b) pkg)"
proof -
  obtain b where b: "claim_choice (db s) (clock s) spill live w = Some b" "b' = taken w (clock s) ttl b"
    using claim_job_Inr [OF assms(2) keys_ok_db_ok [OF assms(1)]] by (auto split: option.splits)
  obtain me where me: "me \<in> set (approved_rows (db s))" "w_id me = w" "\<not> w_paused me"
    "claimable (db s) (clock s) spill live me b" using claim_choice_Some(1) [OF b(1)] by blast
  from me(4) obtain pkg where "package_name (db s) (b_pkg_id b) = Some pkg"
    by (auto simp: claimable_def split: option.splits)
  then show ?thesis using me claim_choice_Some(2,3) [OF b(1)] b(2)
    by (intro exI [of _ b] exI [of _ me] exI [of _ pkg])
      (auto simp: claimable_def may_build_def approved_rows_def)
qed

theorem claim_job_sound_witness:
  "\<exists>b' t. claim_job 2 60 0 60 sample_server = (Inr (Some b'), t) \<and> b_id b' = 3 \<and>
     (\<exists>b \<in> set (builds sample_tables). b' = taken 2 1000 60 b \<and> b_status b = Enqueued)"
proof -
  have "(case claim_job 2 60 0 60 sample_server of (Inr (Some b'), t) \<Rightarrow> b_id b' = 3 | _ \<Rightarrow> False)" by code_simp
  then obtain b' t where run: "claim_job 2 60 0 60 sample_server = (Inr (Some b'), t)" and i: "b_id b' = 3"
    by (auto split: prod.splits sum.splits option.splits)
  from claim_job_sound [OF _ run] sample_db_ok obtain b where "b \<in> set (builds sample_tables)"
    "b' = taken 2 1000 60 b" "b_status b = Enqueued" by auto
  with run i show ?thesis by blast
qed

text \<open>C11: With the database reachable, an approved worker that is not paused is handed a build whenever
  some queued build is open to it, and the one it is handed ranks first: affine packages before
  others, then the longest queued, then the lowest identity.\<close>

theorem claim_job_serves:
  assumes "db_ok (db s)" and "outage s = None"
    and "me \<in> set (workers (db s))" "w_status me = Approved" "\<not> w_paused me"
    and "b \<in> set (builds (db s))" and "claimable (db s) (clock s) spill live me b"
  shows "\<exists>b0 t. b0 \<in> set (builds (db s)) \<and> claimable (db s) (clock s) spill live me b0 \<and>
    claim_order (db s) me b0 \<le> claim_order (db s) me b \<and>
    claim_job (w_id me) ttl spill live s = (Inr (Some (taken (w_id me) (clock s) ttl b0)), t)"
proof -
  let ?C = "filter (claimable (db s) (clock s) spill live me) (builds (db s))"
  have me: "me \<in> set (approved_rows (db s))" using assms by (simp add: approved_rows_def)
  have "approved_worker (db s) (w_id me) = Some me" unfolding approved_worker_def
    by (rule find_unique [OF _ me]) (use approved_ids [OF db_okD(5) [OF assms(1)]] in auto)
  moreover have mem: "b \<in> set ?C" using assms by simp
  moreover obtain b0 where b0: "min_by_key (claim_order (db s) me) ?C = Some b0"
    using mem mbk.pick_ex [of ?C "claim_order (db s) me"] by fastforce
  ultimately have "claim_choice (db s) (clock s) spill live (w_id me) = Some b0"
    using assms(5) by (simp add: claim_choice_def)
  moreover obtain r t where run: "claim_job (w_id me) ttl spill live s = (Inr r, t)"
    using reliableE [OF reliable_claim assms(2)] by metis
  ultimately have "r = Some (taken (w_id me) (clock s) ttl b0)"
    using claim_job_Inr [OF run keys_ok_db_ok [OF assms(1)]] by simp
  with run b0 mem min_by_key_mem [OF b0] min_by_key_le [OF b0 mem] show ?thesis by auto
qed

theorem claim_job_serves_witness:
  "\<exists>b0 t. claim_job 2 60 0 60 sample_server = (Inr (Some (taken 2 1000 60 b0)), t) \<and>
     b0 \<in> set (builds sample_tables)"
proof -
  let ?me = "sample_worker 2 ''two'' [''app''] 0" and ?b = "sample_build 3 2 1 Enqueued None None"
  have "?me \<in> set (workers sample_tables) \<and> w_status ?me = Approved \<and> \<not> w_paused ?me \<and> w_id ?me = 2 \<and>
    ?b \<in> set (builds sample_tables)" by (simp add: sample_tables_def sample_worker_def)
  moreover have "claimable sample_tables 1000 0 60 ?me ?b" by code_simp
  ultimately show ?thesis using claim_job_serves [of sample_server ?me ?b 0 60 60] sample_db_ok by auto
qed

text \<open>The reason of one build, over the tables.\<close>

definition explained :: "tables \<Rightarrow> timestamp \<Rightarrow> int \<Rightarrow> platform \<Rightarrow> string \<Rightarrow> waiting_reason option \<Rightarrow> bool" where
  "explained d now live pf pkg reason \<longleftrightarrow>
     (let able = filter (\<lambda>w. may_build d w pf pkg) (approved_rows d);
          alive = filter (\<lambda>w. is_live (w_last_seen w) now live) able
      in case reason of
           None \<Rightarrow> \<exists>w \<in> set alive. \<not> w_paused w
         | Some (Waiting_Paused ns) \<Rightarrow> alive \<noteq> [] \<and> (\<forall>w \<in> set alive. w_paused w) \<and> ns = sort (map w_name alive)
         | Some (Waiting_Affinity ns) \<Rightarrow> alive = [] \<and> reserved_pkg d pkg \<and>
             ns = sort (map w_name (filter (\<lambda>w. has_affinity w pkg) (approved_rows d)))
         | Some (Waiting_Arch a) \<Rightarrow> a = platform_as_str pf \<and> \<not> reserved_pkg d pkg \<and>
             (\<forall>w \<in> set (approved_rows d). a \<notin> set (w_arches w))
         | Some Waiting_Offline \<Rightarrow> able \<noteq> [] \<and> alive = [] \<and> \<not> reserved_pkg d pkg)"

lemma filter_cap_of:
  assumes "distinct (map w_id (workers d))"
  shows "filter (\<lambda>w. capable (fleet_of d) w (platform_as_str pf) pkg) (fl_workers (fleet_of d)) =
    map (cap_of d) (filter (\<lambda>w. may_build d w pf pkg) (approved_rows d))"
  using capable_fleet_of [OF assms] by (simp add: fleet_of_workers filter_map o_def cong: filter_cong)

lemma affinity_holders_of:
  assumes ids: "distinct (map w_id (workers d))" and "reserved_pkg d pkg"
  shows "affinity_holders (fleet_of d) pkg =
    sort (map w_name (filter (\<lambda>w. has_affinity w pkg) (approved_rows d)))"
proof -
  obtain ws where ws: "fl_affinity (fleet_of d) pkg = Some ws"
    using assms(2) reserved_fleet_of [of d pkg] by (auto simp: reserved_def)
  have "w_id w \<in> ws \<longleftrightarrow> has_affinity w pkg" if "w \<in> set (approved_rows d)" for w
    using affine_fleet_of [OF ids that, of pkg] ws by (simp add: affine_def)
  then have "filter (\<lambda>w. w_id w \<in> ws) (approved_rows d) = filter (\<lambda>w. has_affinity w pkg) (approved_rows d)"
    by (rule filter_cong [OF refl])
  then show ?thesis by (simp add: affinity_holders_def ws fleet_of_workers filter_map o_def)
qed

lemma waiting_reason_explained:
  assumes "distinct (map w_id (workers d))"
  shows "explained d now live pf pkg (waiting_reason (fleet_of d) now live (platform_as_str pf) pkg)"
  using affinity_holders_of [OF assms, of pkg]
  unfolding explained_def waiting_reason_def filter_cap_of [OF assms] Let_def
  by (auto simp: filter_map o_def may_build_def filter_empty_conv)

lemma collect_map_concat:
  assumes "\<And>x. x \<in> set xs \<Longrightarrow> f x = (case g x of None \<Rightarrow> [] | Some v \<Rightarrow> [(k x, v)])" and "inj_on k (set xs)"
    and "x \<in> set xs"
  shows "collect_map (concat (map f xs)) (k x) = g x"
proof -
  have mem: "(k x, v) \<in> set (concat (map f xs)) \<longleftrightarrow> g x = Some v" for v
    using assms by (auto simp: inj_on_def split: option.splits) (metis list.set_intros(1))+
  show ?thesis
  proof (cases "g x")
    case None
    then have "k x \<notin> fst ` set (concat (map f xs))" using mem by force
    then show ?thesis using None by (simp add: collect_map_def map_of_eq_None_iff)
  next
    case (Some v)
    then obtain v' where "collect_map (concat (map f xs)) (k x) = Some v'"
      using mem [of v] by (cases "collect_map (concat (map f xs)) (k x)")
        (force simp: collect_map_def map_of_eq_None_iff)+
    moreover from this have "(k x, v') \<in> set (concat (map f xs))"
      unfolding collect_map_def by (auto dest: map_of_SomeD)
    ultimately show ?thesis using mem by simp
  qed
qed

text \<open>C13: What the listing says of a queued build is true of the tables: it says nothing exactly when a
  live, unpaused worker may build it; otherwise it names the live workers that are paused, the
  workers the package is reserved for, the architecture no worker builds, or says that the
  workers that could are offline. The listing changes nothing.\<close>

theorem waiting_reasons_true:
  assumes ok: "db_ok (db s)" and run: "waiting_reasons live s = (Inr reasons, t)"
    and b: "b \<in> set (builds (db s))" "b_status b = Enqueued" and pkg: "package_name (db s) (b_pkg_id b) = Some pkg"
  shows "explained (db s) (clock s) live (b_platform b) pkg (reasons (b_id b)) \<and> db t = db s"
proof -
  let ?d = "db s"
  let ?I = "set (map q_pkg_id (queued_rows ?d))"
  let ?names = "collect_map (map (\<lambda>p. (p_id p, p_name p)) (filter (\<lambda>p. p_id p \<in> ?I) (packages ?d)))"
  let ?g = "\<lambda>q. case ?names (q_pkg_id q) of None \<Rightarrow> None
    | Some pkg \<Rightarrow> waiting_reason (fleet_of ?d) (clock s) live (platform_as_str (q_platform q)) pkg"
  let ?f = "\<lambda>q. case ?names (q_pkg_id q) of None \<Rightarrow> []
    | Some pkg \<Rightarrow> (case waiting_reason (fleet_of ?d) (clock s) live (platform_as_str (q_platform q)) pkg of
        None \<Rightarrow> [] | Some reason \<Rightarrow> [(q_id q, reason)])"
  have q: "queued_of b \<in> set (queued_rows ?d)" using b by (simp add: queued_rows_eq)
  then have ne: "queued_rows ?d \<noteq> []" by auto
  have run': "reasons = collect_map (concat (map ?f (queued_rows ?d)))" "db t = db s"
    using run ne by (auto simp: waiting_reasons_def queued_builds_def package_names_def db_simps cong: option.case_cong)
  have "inj_on q_id (set (queued_rows ?d))"
    using db_okD(4) [OF ok] by (auto simp: inj_on_def queued_rows_eq queued_of_def dest: distinct_map_eq)
  then have "reasons (q_id (queued_of b)) = ?g (queued_of b)"
    unfolding run' by (intro collect_map_concat [OF _ _ q]) (auto split: option.split)
  moreover have "?names (b_pkg_id b) = Some pkg"
    using package_names_collected [OF db_okD(2) [OF ok], of "b_pkg_id b" ?I] q pkg
    by (force simp: queued_of_def)
  ultimately have "reasons (b_id b) =
      waiting_reason (fleet_of ?d) (clock s) live (platform_as_str (b_platform b)) pkg"
    by (simp add: queued_of_def)
  with waiting_reason_explained [OF db_okD(5) [OF ok]] run'(2) show ?thesis by simp
qed

theorem waiting_reasons_true_witness:
  "\<exists>reasons t. waiting_reasons 5 sample_server = (Inr reasons, t) \<and>
     explained sample_tables 1000 5 X86_64 ''app'' (reasons 3) \<and> reasons 3 = Some (Waiting_Affinity [''two''])"
proof -
  let ?b = "sample_build 3 2 1 Enqueued None None"
  have "(case waiting_reasons 5 sample_server of (Inr m, t) \<Rightarrow> m 3 = Some (Waiting_Affinity [''two'']) | _ \<Rightarrow> False)"
    by code_simp
  then obtain m t where run: "waiting_reasons 5 sample_server = (Inr m, t)"
    and m: "m 3 = Some (Waiting_Affinity [''two''])" by (auto split: prod.splits sum.splits)
  have "?b \<in> set (builds sample_tables)" "b_status ?b = Enqueued" "b_id ?b = 3" "b_platform ?b = X86_64"
    by (simp_all add: sample_tables_def sample_build_def)
  moreover have "package_name sample_tables (b_pkg_id ?b) = Some ''app''" by code_simp
  ultimately show ?thesis using waiting_reasons_true [OF _ run, of ?b] sample_db_ok run m by auto
qed

end
