(* ===== verification/Job_Leases.thy ===== *)
theory Job_Leases
  imports Job_Routing
begin

text \<open>
  Leases: what abandoning a build, a heartbeat and the reaper do to the tables.
\<close>

section \<open>Abandoning one build\<close>

definition ended :: "timestamp \<Rightarrow> end_reason \<Rightarrow> build \<Rightarrow> build" where
  "ended now reason b = b\<lparr>b_status := Failed, b_end_time := Some now, b_lease_expires_at := None,
     b_end_reason := Some reason\<rparr>"

lemma ended_sel [simp]:
  "b_id (ended now reason b) = b_id b" "b_pkg_id (ended now reason b) = b_pkg_id b"
  "b_number (ended now reason b) = b_number b" "b_platform (ended now reason b) = b_platform b"
  "b_status (ended now reason b) = Failed" "b_worker_id (ended now reason b) = b_worker_id b"
  "b_trigger (ended now reason b) = b_trigger b" "b_end_reason (ended now reason b) = Some reason"
  "b_lease_expires_at (ended now reason b) = None" "b_end_time (ended now reason b) = Some now"
  by (simp_all add: ended_def)

definition after_end :: "build \<Rightarrow> timestamp \<Rightarrow> end_reason \<Rightarrow> tables \<Rightarrow> tables" where
  "after_end observed now reason d = set_builds (still_held observed) (ended now reason) d"

text \<open>The whole run of futile retries, however long it is.\<close>

definition full_run :: "id \<Rightarrow> platform \<Rightarrow> tables \<Rightarrow> nat" where
  "full_run pkg_id pf d =
     futile_run (sort_key (\<lambda>b. - b_number b)
       (filter (\<lambda>b. b_pkg_id b = pkg_id \<and> b_platform b = pf) (builds d)))"

lemma takeWhile_take: "takeWhile P (take n xs) = take n (takeWhile P xs)"
proof (induction xs arbitrary: n)
  case (Cons x xs)
  then show ?case by (cases n) auto
qed simp

text \<open>Reading only the budget's worth of rows decides the budget as reading all of them would.\<close>

lemma futile_run_limit:
  "futile_run (recent_builds pkg_id pf m d) < nat m \<longleftrightarrow> full_run pkg_id pf d < nat m"
  unfolding futile_run_def recent_builds_def full_run_def takeWhile_take by (auto simp: min_def)

definition retry_build :: "build \<Rightarrow> timestamp \<Rightarrow> package \<Rightarrow> tables \<Rightarrow> build" where
  "retry_build observed now p d =
     inserted_build (b_pkg_id observed) (b_platform observed) (unwrap_or_default (p_upstream_version p)) now
       Pending_Enqueued TimeoutRetry d"

text \<open>What abandoning a build that is still held amounts to: the retry and the tables left behind.\<close>

definition abandon_effect :: "build \<Rightarrow> timestamp \<Rightarrow> end_reason \<Rightarrow> int \<Rightarrow> tables \<Rightarrow> retry \<times> tables" where
  "abandon_effect observed now reason m d =
     (let d' = after_end observed now reason d; k = b_pkg_id observed; pf = b_platform observed
      in case find_package_by_id k d of
           None \<Rightarrow> (Spent, refreshed k d')
         | Some p \<Rightarrow>
             if full_run k pf d' < nat m then
               (case find (is_pending_for k pf) (builds d') of
                  Some b \<Rightarrow> (Adopted (b_id b), refreshed k d')
                | None \<Rightarrow> (let b = retry_build observed now p d'
                           in (Queued (b_id b), refreshed k (with_build b d'))))
             else (Spent, refreshed k d'))"

lemma find_package_set_builds [simp]: "find_package_by_id k (set_builds p f d) = find_package_by_id k d"
  by (simp add: find_package_by_id_def)

lemma queue_retry_Inr:
  assumes "queue_retry observed m now pkg recent s = (Inr retry, t)"
  shows "case pkg of
      None \<Rightarrow> retry = Spent \<and> db t = db s
    | Some p \<Rightarrow>
        if futile_run recent < nat m then
          (case find (is_pending_for (b_pkg_id observed) (b_platform observed)) (builds (db s)) of
             Some b \<Rightarrow> retry = Adopted (b_id b) \<and> db t = db s
           | None \<Rightarrow> retry = Queued (b_id (retry_build observed now p (db s))) \<and>
               db t = refreshed (b_pkg_id observed) (with_build (retry_build observed now p (db s)) (db s)))
        else retry = Spent \<and> db t = db s"
proof (cases pkg)
  case None
  with assms show ?thesis by (simp add: queue_retry_def ret_iff)
next
  case (Some p)
  show ?thesis
  proof (cases "futile_run recent < nat m")
    case True
    with assms Some obtain res u where
      res: "enqueue_build_if_missing (b_pkg_id observed) (b_platform observed)
        (unwrap_or_default (p_upstream_version p)) now Pending_Enqueued TimeoutRetry s = (Inr res, u)"
      and "retry = retry_of res" "t = u"
      by (auto simp: queue_retry_def db_simps)
    with enqueue_Inr [OF res] Some True show ?thesis
      by (auto simp: retry_of_def retry_build_def)
  qed (use assms Some in \<open>simp add: queue_retry_def ret_iff\<close>)
qed

lemma abandon_Inr:
  assumes run: "abandon_build observed reason m s = (Inr r, t)"
  shows "(case r of
      None \<Rightarrow> db t = db s \<and> (\<forall>b \<in> set (builds (db s)). \<not> still_held observed b)
    | Some a \<Rightarrow>
        (\<exists>b \<in> set (builds (db s)). still_held observed b) \<and>
        a = \<lparr>ab_build_id = b_id observed, ab_number = b_number observed,
             ab_pkgbase = package_name (db s) (b_pkg_id observed), ab_end_reason = reason,
             ab_worker_id = b_worker_id observed,
             ab_retry = fst (abandon_effect observed (clock s) reason m (db s))\<rparr> \<and>
        db t = snd (abandon_effect observed (clock s) reason m (db s)))"
proof (cases "\<exists>b \<in> set (builds (db s)). still_held observed b")
  case False
  then have "length (filter (still_held observed) (builds (db s))) = 0" by (auto simp: filter_empty_conv)
  with run False show ?thesis
    by (auto simp: abandon_build_def abandon_body_def db_simps transaction_Inr rollback_stmt_def)
next
  case True
  then have pos: "length (filter (still_held observed) (builds (db s))) \<noteq> 0" by (auto simp: filter_empty_conv)
  let ?k = "b_pkg_id observed" and ?d = "after_end observed (clock s) reason (db s)"
  have upd: "(\<lambda>b. b\<lparr>b_status := Failed, b_end_time := Some (clock s), b_lease_expires_at := None,
      b_end_reason := Some reason\<rparr>) = ended (clock s) reason" by (auto simp: ended_def)
  define u where "u = (tick (tick s))\<lparr>db := ?d\<rparr>"
  have d: "set_builds (still_held observed) (ended (clock s) reason) (db s) = ?d"
    by (simp add: after_end_def)
  from run pos obtain retry v w x where
    retry: "queue_retry observed m (clock s) (find_package_by_id ?k ?d)
      (recent_builds ?k (b_platform observed) m ?d) (tick (tick u)) = (Inr retry, v)"
    and w: "refresh_package_status ?k v = (Inr x, w)" "db t = db w"
    and r: "r = Some \<lparr>ab_build_id = b_id observed, ab_number = b_number observed,
             ab_pkgbase = map_option p_name (find_package_by_id ?k ?d), ab_end_reason = reason,
             ab_worker_id = b_worker_id observed, ab_retry = retry\<rparr>"
    by (auto simp: abandon_build_def abandon_body_def db_simps transaction_Inr rollback_stmt_def upd d u_def
        split: if_splits)
  have db_u: "db u = ?d" by (simp add: u_def)
  have pkg: "find_package_by_id ?k ?d = find_package_by_id ?k (db s)" by (simp add: after_end_def)
  have "retry = fst (abandon_effect observed (clock s) reason m (db s)) \<and>
      refreshed ?k (db v) = snd (abandon_effect observed (clock s) reason m (db s))"
    using queue_retry_Inr [OF retry]
    by (auto simp: abandon_effect_def Let_def pkg db_u futile_run_limit split: option.splits if_splits)
  with refresh_package_status_Inr [OF w(1)] w(2) r True pkg show ?thesis by (simp add: package_name_def)
qed

section \<open>The contract\<close>

lemma row_step_ended: "still_held observed b \<Longrightarrow> row_step b (ended now reason b)"
  unfolding ended_def by (rule row_step.abandon) (simp add: still_held_def)

lemma refines_queue_retry [refine]: "refines (queue_retry observed m now pkg recent)"
  unfolding queue_retry_def by (auto intro!: refine split: option.splits)

lemma refines_abandon [refine]: "refines (abandon_build observed reason m)"
proof -
  have "refines (abandon_body observed reason m now)" for now
    unfolding abandon_body_def rollback_stmt_def ended_def [symmetric]
    by (auto intro!: refine refines_update_builds row_step_ended)
  then show ?thesis unfolding abandon_build_def by (intro refine)
qed

lemma fixed_clock_abandon [clk]: "fixed_clock (abandon_build observed reason m)"
  unfolding abandon_build_def abandon_body_def rollback_stmt_def queue_retry_def
  by (auto intro!: clk split: option.splits)

lemma failed_abandon: "abandon_build observed reason m s = (Inl e, t) \<Longrightarrow> db t = db s"
  by (auto simp: abandon_build_def dbind_def now_secs_def dest: transaction_Inl)

lemma after_end_own:
  assumes "follows observed (ledger d)" and "i \<noteq> b_pkg_id observed"
  shows "own_builds i (after_end observed now reason d) = own_builds i d"
  unfolding after_end_def
  by (rule own_builds_set_builds [OF _ assms(2)])
    (use assms(1) in \<open>auto simp: still_held_def ledger_def later_def dest!: followsD\<close>)

lemma abandon_effect_db:
  "snd (abandon_effect observed now reason m d) =
      refreshed (b_pkg_id observed) (after_end observed now reason d) \<or>
   (\<exists>p. snd (abandon_effect observed now reason m d) =
      refreshed (b_pkg_id observed) (with_build (retry_build observed now p (after_end observed now reason d))
        (after_end observed now reason d)) \<and>
    (\<forall>b \<in> set (builds (after_end observed now reason d)).
      \<not> is_pending_for (b_pkg_id observed) (b_platform observed) b))"
  by (auto simp: abandon_effect_def Let_def find_None_iff_ball split: option.splits)

lemma ledger_step_after_end: "ledger_step (ledger d) (ledger (after_end observed now reason d))"
  unfolding after_end_def by (rule ledger_step_set_builds) (rule row_step_ended)

lemma db_ok_abandon_effect:
  assumes ok: "db_ok d" and pre: "follows observed (ledger d)"
  shows "db_ok (snd (abandon_effect observed now reason m d))"
  using abandon_effect_db [of observed now reason m d]
proof (elim disjE exE conjE)
  assume e: "snd (abandon_effect observed now reason m d) =
      refreshed (b_pkg_id observed) (after_end observed now reason d)"
  show ?thesis unfolding e
    by (rule db_ok_steps [OF ok ledger_step1 [OF ledger_step_after_end]])
      (use after_end_own [OF pre] in \<open>simp_all add: after_end_def\<close>)
next
  fix p
  let ?d = "after_end observed now reason d"
  assume e: "snd (abandon_effect observed now reason m d) =
      refreshed (b_pkg_id observed) (with_build (retry_build observed now p ?d) ?d)"
    and none: "\<forall>b \<in> set (builds ?d). \<not> is_pending_for (b_pkg_id observed) (b_platform observed) b"
  have "ledger_step\<^sup>*\<^sup>* (ledger d) (ledger (with_build (retry_build observed now p ?d) ?d))"
    unfolding retry_build_def
    by (rule rtranclp.rtrancl_into_rtrancl [OF ledger_step1 [OF ledger_step_after_end]])
      (rule ledger_step_with_build [OF none])
  moreover have "own_builds i (with_build (retry_build observed now p ?d) ?d) = own_builds i d"
    if "i \<noteq> b_pkg_id observed" for i
    using that after_end_own [OF pre that, of now reason] by (simp add: own_builds_def retry_build_def)
  ultimately show ?thesis unfolding e
    by (intro db_ok_steps [OF ok]) (simp_all add: after_end_def)
qed

lemma keeps_abandon:
  assumes ok: "db_ok (db s)" and pre: "follows observed (ledger (db s))"
    and run: "abandon_build observed reason m s = (r, t)"
  shows "db_ok (db t)"
proof (cases r)
  case (Inl e)
  with run ok failed_abandon show ?thesis by metis
next
  case (Inr x)
  with abandon_Inr [OF run [unfolded Inr]] db_ok_abandon_effect [OF ok pre] ok show ?thesis
    by (cases x) auto
qed

text \<open>The row the caller observed may be out of date: the contract asks only that it was read once.\<close>

interpretation abandon: atomic_program "\<lambda>(observed, _, _) d. follows observed (ledger d)"
    "\<lambda>(observed, reason, m). abandon_build observed reason m"
  by unfold_locales (auto intro: refines_abandon keeps_abandon dest: failed_abandon)

lemma stable_follows:
  "ledger_ok (ledger d) \<Longrightarrow> follows b (ledger d) \<Longrightarrow> ledger_step\<^sup>*\<^sup>* (ledger d) (ledger d') \<Longrightarrow> follows b (ledger d')"
  by (rule follows_steps)

section \<open>Sweeps\<close>

text \<open>
  A heartbeat, a revocation and the reaper read some rows and then abandon those that
  have a reason to be, one transaction each.
\<close>

definition abandon_if :: "(build \<Rightarrow> end_reason option) \<Rightarrow> int \<Rightarrow> build \<Rightarrow> abandoned option dbm" where
  "abandon_if f m build = (case f build of None \<Rightarrow> ret None | Some reason \<Rightarrow> abandon_build build reason m)"

lemma refines_abandon_if [refine]: "refines (abandon_if f m build)"
  unfolding abandon_if_def by (auto intro!: refine split: option.splits)

lemma fixed_clock_abandon_if [clk]: "fixed_clock (abandon_if f m build)"
  unfolding abandon_if_def by (auto intro!: clk split: option.splits)

lemma keeps_abandon_if:
  "db_ok (db s) \<Longrightarrow> follows build (ledger (db s)) \<Longrightarrow> abandon_if f m build s = (r, t) \<Longrightarrow> db_ok (db t)"
  by (auto simp: abandon_if_def ret_def intro: keeps_abandon split: option.splits)

interpretation sweep: stable_program "\<lambda>build d. follows build (ledger d)" "abandon_if f m" for f m
  by unfold_locales (auto intro: refines_abandon_if keeps_abandon_if stable_follows)

lemma follows_select:
  assumes "db_ok d" and "set (q d) \<subseteq> set (builds d)"
  shows "\<forall>b \<in> set (q d). follows b (ledger d)"
  using assms follows_own [OF db_okD(1)] by (auto simp: ledger_def)

text \<open>The rows after one abandonment.\<close>

lemma abandon_effect_rows:
  "b \<in> set (builds d) \<Longrightarrow> \<not> still_held x b \<Longrightarrow> b \<in> set (builds (snd (abandon_effect x now reason m d)))"
  "b \<in> set (builds d) \<Longrightarrow> still_held x b \<Longrightarrow>
     ended now reason b \<in> set (builds (snd (abandon_effect x now reason m d)))"
  "b \<in> set (builds (snd (abandon_effect x now reason m d))) \<Longrightarrow> b_status b = Active \<Longrightarrow>
     b \<in> set (builds d) \<and> \<not> still_held x b"
  using abandon_effect_db [of x now reason m d]
  by (auto simp: after_end_def retry_build_def inserted_build_def image_iff split: if_splits)

definition swept :: "(build \<Rightarrow> end_reason option) \<Rightarrow> timestamp \<Rightarrow> build \<Rightarrow> build" where
  "swept f now b = (case f b of None \<Rightarrow> b | Some reason \<Rightarrow> ended now reason b)"

lemma abandon_if_rows:
  assumes run: "abandon_if f m x s = (Inr r, t)"
    and x: "x \<in> set (builds (db s))" "b_status x = Active"
  shows "swept f (clock s) x \<in> set (builds (db t))"
    and "b \<in> set (builds (db s)) \<Longrightarrow> b_id b \<noteq> b_id x \<Longrightarrow> b \<in> set (builds (db t))"
    and "b \<in> set (builds (db t)) \<Longrightarrow> b_status b = Active \<Longrightarrow>
      b \<in> set (builds (db s)) \<and> (b = x \<longrightarrow> f x = None)"
    and "map ab_build_id (option_list r) = (if f x = None then [] else [b_id x])"
proof -
  have held: "still_held x x" using x by (simp add: still_held_def)
  have "swept f (clock s) x \<in> set (builds (db t)) \<and>
      (b \<in> set (builds (db s)) \<longrightarrow> b_id b \<noteq> b_id x \<longrightarrow> b \<in> set (builds (db t))) \<and>
      (b \<in> set (builds (db t)) \<longrightarrow> b_status b = Active \<longrightarrow>
        b \<in> set (builds (db s)) \<and> (b = x \<longrightarrow> f x = None)) \<and>
      map ab_build_id (option_list r) = (if f x = None then [] else [b_id x])"
  proof (cases "f x")
    case None
    with run x show ?thesis by (simp add: abandon_if_def ret_iff swept_def option_list_def)
  next
    case (Some reason)
    with run have a: "abandon_build x reason m s = (Inr r, t)" by (simp add: abandon_if_def)
    from abandon_Inr [OF a] held x(1) obtain y where
      y: "r = Some y" "ab_build_id y = b_id x" "db t = snd (abandon_effect x (clock s) reason m (db s))"
      by (cases r) auto
    have "swept f (clock s) x \<in> set (builds (db t))"
      using abandon_effect_rows(2) [OF x(1) held] Some y(3) by (simp add: swept_def)
    moreover have "b \<in> set (builds (db t))" if "b \<in> set (builds (db s))" "b_id b \<noteq> b_id x"
      unfolding y(3) by (rule abandon_effect_rows(1) [OF that(1)]) (use that(2) in \<open>simp add: still_held_def\<close>)
    moreover have "b \<in> set (builds (db s)) \<and> b \<noteq> x" if "b \<in> set (builds (db t))" "b_status b = Active"
      using abandon_effect_rows(3) [OF that(1) [unfolded y(3)] that(2)] held by blast
    ultimately show ?thesis using Some y(1,2) by (simp add: option_list_def)
  qed
  then show "swept f (clock s) x \<in> set (builds (db t))"
    and "b \<in> set (builds (db s)) \<Longrightarrow> b_id b \<noteq> b_id x \<Longrightarrow> b \<in> set (builds (db t))"
    and "b \<in> set (builds (db t)) \<Longrightarrow> b_status b = Active \<Longrightarrow>
      b \<in> set (builds (db s)) \<and> (b = x \<longrightarrow> f x = None)"
    and "map ab_build_id (option_list r) = (if f x = None then [] else [b_id x])" by blast+
qed

lemma swept_id [simp]: "b_id (swept f now b) = b_id b"
  by (simp add: swept_def split: option.splits)

lemma sweep_Inr:
  assumes "for_each (abandon_if f m) xs s = (Inr rs, t)" and "distinct (map b_id xs)"
    and "set xs \<subseteq> set (builds (db s))" and "\<forall>x \<in> set xs. b_status x = Active"
  shows "(\<forall>b \<in> set (builds (db s)). b_id b \<notin> b_id ` set xs \<longrightarrow> b \<in> set (builds (db t))) \<and>
    (\<forall>x \<in> set xs. swept f (clock s) x \<in> set (builds (db t))) \<and>
    (\<forall>b \<in> set (builds (db t)). b_status b = Active \<longrightarrow>
       b \<in> set (builds (db s)) \<and> (b \<in> set xs \<longrightarrow> f b = None)) \<and>
    map ab_build_id (concat (map option_list rs)) = map b_id (filter (\<lambda>b. f b \<noteq> None) xs)"
  using assms
proof (induction xs arbitrary: s rs)
  case Nil
  then show ?case by (simp add: ret_iff)
next
  case (Cons x xs)
  from Cons.prems(1) obtain y ys u where rs: "rs = y # ys" and x: "abandon_if f m x s = (Inr y, u)"
    and xs: "for_each (abandon_if f m) xs u = (Inr ys, t)"
    unfolding for_each_Inr_Cons by blast
  have clock: "clock u = clock s" using x by (rule fixed_clockD [OF fixed_clock_abandon_if])
  have xmem: "x \<in> set (builds (db s))" "b_status x = Active" using Cons.prems by auto
  note one = abandon_if_rows [OF x xmem]
  have sub: "set xs \<subseteq> set (builds (db u))"
  proof
    fix z assume "z \<in> set xs"
    then have "b_id z \<in> b_id ` set xs" by simp
    with Cons.prems(2) have "b_id z \<noteq> b_id x" by auto
    moreover have "z \<in> set (builds (db s))" using Cons.prems(3) \<open>z \<in> set xs\<close> by auto
    ultimately show "z \<in> set (builds (db u))" by (intro one(2))
  qed
  have dist: "distinct (map b_id xs)" and act: "\<forall>x \<in> set xs. b_status x = Active"
    and new: "b_id x \<notin> b_id ` set xs" using Cons.prems by auto
  note IH = Cons.IH [OF xs dist sub act]
  have "b \<in> set (builds (db t))" if "b \<in> set (builds (db s))" "b_id b \<notin> b_id ` set (x # xs)" for b
    using that IH one(2) [of b] by auto
  moreover have "swept f (clock s) z \<in> set (builds (db t))" if "z \<in> set (x # xs)" for z
    using that IH one(1) new clock by auto
  moreover have "b \<in> set (builds (db s)) \<and> (b \<in> set (x # xs) \<longrightarrow> f b = None)"
    if "b \<in> set (builds (db t))" "b_status b = Active" for b
    using that IH one(3) [of b] by auto
  moreover have "map ab_build_id (concat (map option_list rs)) = map b_id (filter (\<lambda>b. f b \<noteq> None) (x # xs))"
    using IH one(4) rs by simp
  ultimately show ?case by blast
qed

lemma held_by_rows:
  assumes "distinct (map b_id (builds d))"
  shows "distinct (map b_id (held_by w d))" "set (held_by w d) \<subseteq> set (builds d)"
    "\<forall>x \<in> set (held_by w d). b_status x = Active"
  using assms by (auto simp: held_by_def distinct_map_filter)

section \<open>Revocation\<close>

lemma abandon_worker_builds_eq:
  "abandon_worker_builds w m =
     dbind (select (held_by w)) (\<lambda>owned.
     dbind (for_each (abandon_if (\<lambda>_. Some WorkerRevoked) m) owned) (\<lambda>rs. ret (concat (map option_list rs))))"
  unfolding abandon_worker_builds_def abandon_if_def by simp

section \<open>The reaper\<close>

lemma reap_expired_builds_eq:
  "reap_expired_builds now m ages =
     dbind (select (reap_candidates now ages)) (\<lambda>cs.
     dbind (for_each (abandon_if (reap_reason now ages) m) cs) (\<lambda>rs. ret (concat (map option_list rs))))"
  unfolding reap_expired_builds_def abandon_if_def by simp

lemma fold_min_le: "fold min xs (a::int) \<le> a" "x \<in> set xs \<Longrightarrow> fold min xs a \<le> x"
proof (induction xs arbitrary: a)
  case (Cons y ys)
  { case 1 show ?case using Cons.IH(1) [of "min y a"] by simp }
  { case 2 then show ?case using Cons.IH(1) [of "min y a"] Cons.IH(2) [of "min y a"] by auto }
qed simp_all

lemma ages_shortest_le: "ages_shortest ages \<le> ages_of ages k"
  by (auto simp: ages_shortest_def ages_of_def intro: fold_min_le split: option.split dest: map_of_SomeD)
    (metis fold_min_le(2) map_of_SomeD nth_mem set_map snd_conv imageI)

text \<open>Selecting by the shortest age loses no build that its own package's age condemns.\<close>

lemma reap_candidates_complete:
  assumes "b \<in> set (builds d)" "b_status b = Active" "reap_reason now ages b \<noteq> None"
  shows "b \<in> set (reap_candidates now ages d)"
  using assms ages_shortest_le [of ages "b_pkg_id b"]
  by (auto simp: reap_candidates_def reap_reason_def started_before_def split: if_splits option.splits)

lemma reap_candidates_rows:
  assumes "distinct (map b_id (builds d))"
  shows "distinct (map b_id (reap_candidates now ages d))" "set (reap_candidates now ages d) \<subseteq> set (builds d)"
    "\<forall>x \<in> set (reap_candidates now ages d). b_status x = Active"
  using assms by (auto simp: reap_candidates_def distinct_map_filter)

lemma reap_Inr:
  assumes run: "reap_expired_builds now m ages s = (Inr out, t)" and ids: "distinct (map b_id (builds (db s)))"
  shows "\<forall>b \<in> set (builds (db s)).
      (if b_status b = Active then swept (reap_reason now ages) (clock s) b else b) \<in> set (builds (db t))"
    and "\<forall>b \<in> set (builds (db t)). b_status b = Active \<longrightarrow> b \<in> set (builds (db s)) \<and> reap_reason now ages b = None"
    and "set (map ab_build_id out) =
      b_id ` {b \<in> set (builds (db s)). b_status b = Active \<and> reap_reason now ages b \<noteq> None}"
proof -
  let ?cs = "reap_candidates now ages (db s)"
  from run obtain rs where rs: "for_each (abandon_if (reap_reason now ages) m) ?cs (tick s) = (Inr rs, t)"
    and out: "out = concat (map option_list rs)"
    unfolding reap_expired_builds_eq by (auto simp: db_simps)
  note sw = sweep_Inr [OF rs]
  have sw: "\<forall>b \<in> set (builds (db s)). b_id b \<notin> b_id ` set ?cs \<longrightarrow> b \<in> set (builds (db t))"
    "\<forall>x \<in> set ?cs. swept (reap_reason now ages) (clock s) x \<in> set (builds (db t))"
    "\<forall>b \<in> set (builds (db t)). b_status b = Active \<longrightarrow>
       b \<in> set (builds (db s)) \<and> (b \<in> set ?cs \<longrightarrow> reap_reason now ages b = None)"
    "map ab_build_id out = map b_id (filter (\<lambda>b. reap_reason now ages b \<noteq> None) ?cs)"
    using sw reap_candidates_rows [OF ids] out by simp_all
  have mem: "b_id b \<in> b_id ` set ?cs \<longleftrightarrow> b \<in> set ?cs" if "b \<in> set (builds (db s))" for b
    using that reap_candidates_rows(2) [OF ids] distinct_map_eq [OF ids] by blast
  show "\<forall>b \<in> set (builds (db s)).
      (if b_status b = Active then swept (reap_reason now ages) (clock s) b else b) \<in> set (builds (db t))"
  proof
    fix b assume b: "b \<in> set (builds (db s))"
    show "(if b_status b = Active then swept (reap_reason now ages) (clock s) b else b) \<in> set (builds (db t))"
    proof (cases "b \<in> set ?cs")
      case True
      then show ?thesis using sw(2) reap_candidates_rows(3) [OF ids] by auto
    next
      case False
      then have "b \<in> set (builds (db t))" using sw(1) mem [OF b] b by blast
      moreover have "b_status b = Active \<Longrightarrow> reap_reason now ages b = None"
        using False reap_candidates_complete [OF b] by blast
      ultimately show ?thesis by (simp add: swept_def)
    qed
  qed
  show "\<forall>b \<in> set (builds (db t)). b_status b = Active \<longrightarrow> b \<in> set (builds (db s)) \<and> reap_reason now ages b = None"
    using sw(3) reap_candidates_complete by blast
  show "set (map ab_build_id out) =
      b_id ` {b \<in> set (builds (db s)). b_status b = Active \<and> reap_reason now ages b \<noteq> None}"
  proof -
    have "set (filter (\<lambda>b. reap_reason now ages b \<noteq> None) ?cs) =
        {b \<in> set (builds (db s)). b_status b = Active \<and> reap_reason now ages b \<noteq> None}"
      using reap_candidates_complete [of _ "db s" now ages] reap_candidates_rows(2,3) [OF ids, of now ages]
      by auto
    then show ?thesis unfolding sw(4) by simp
  qed
qed

section \<open>Heartbeats\<close>

definition drop_reason :: "timestamp \<Rightarrow> id list \<Rightarrow> int \<Rightarrow> build \<Rightarrow> end_reason option" where
  "drop_reason now active_ids ttl b =
     (if b_id b \<in> set active_ids \<or>
         (case b_start_time b of None \<Rightarrow> False | Some claimed \<Rightarrow> claimed > now - ttl)
      then None else Some Dropped)"

lemma heartbeat_scan_eq:
  "heartbeat_scan now active_ids ttl m owned =
     dbind (for_each (abandon_if (drop_reason now active_ids ttl) m) owned) (\<lambda>rs.
     ret (map b_id (filter (\<lambda>b. b_id b \<in> set active_ids) owned), concat (map option_list rs)))"
proof (induction owned)
  case Nil
  then show ?case by (simp add: dbind_assoc)
next
  case (Cons b owned)
  then show ?case
    by (cases "b_id b \<in> set active_ids")
      (simp_all add: abandon_if_def drop_reason_def dbind_assoc option_list_def)
qed

definition beat :: "timestamp \<Rightarrow> id list \<Rightarrow> int \<Rightarrow> id \<Rightarrow> build \<Rightarrow> build" where
  "beat now active_ids ttl w b =
     (if b_worker_id b = Some w \<and> b_status b = Active then
        (if b_id b \<in> set active_ids then b\<lparr>b_lease_expires_at := Some (now + ttl)\<rparr>
         else swept (drop_reason now active_ids ttl) now b)
      else b)"

definition renewal :: "id list \<Rightarrow> id \<Rightarrow> build \<Rightarrow> bool" where
  "renewal renew w b \<longleftrightarrow> b_id b \<in> set renew \<and> b_worker_id b = Some w \<and> b_status b = Active"

definition renewed :: "timestamp \<Rightarrow> build \<Rightarrow> build" where
  "renewed lease b = b\<lparr>b_lease_expires_at := Some lease\<rparr>"

lemma renewal_eq: "renewal renew w = (\<lambda>b. b_id b \<in> set renew \<and> b_worker_id b = Some w \<and> b_status b = Active)"
  by (rule ext) (simp add: renewal_def)

lemma renewed_eq: "renewed lease = (\<lambda>b. b\<lparr>b_lease_expires_at := Some lease\<rparr>)"
  by (rule ext) (simp add: renewed_def)

lemma renewal_Nil [simp]: "\<not> renewal [] w b"
  by (simp add: renewal_def)

lemma heartbeat_run:
  assumes "heartbeat w active_ids ttl m s = (Inr out, t)"
  obtains rs u where
    "for_each (abandon_if (drop_reason (clock s) active_ids ttl) m) (held_by w (db s)) (tick s) = (Inr rs, u)"
    "ho_renewed out = map b_id (filter (\<lambda>b. b_id b \<in> set active_ids) (held_by w (db s)))"
    "ho_dropped out = concat (map option_list rs)"
    "db t = set_builds (renewal (ho_renewed out) w) (renewed (clock s + ttl)) (db u)"
    "ho_cancel_requested out = cancel_list w (collect_map (map (\<lambda>b. (b_id b, b))
       (filter (\<lambda>b. b_id b \<in> set active_ids) (builds (db t))))) active_ids"
proof -
  let ?renew = "map b_id (filter (\<lambda>b. b_id b \<in> set active_ids) (held_by w (db s)))"
  have none: "set_builds (renewal [] w) f d = d" for f d
    by (rule set_builds_none) simp
  from assms obtain rs u where
    sw: "for_each (abandon_if (drop_reason (clock s) active_ids ttl) m) (held_by w (db s)) (tick s) = (Inr rs, u)"
    and out: "ho_renewed out = ?renew" "ho_dropped out = concat (map option_list rs)"
    and t: "db t = set_builds (renewal ?renew w) (renewed (clock s + ttl)) (db u)"
    and c: "ho_cancel_requested out = cancel_list w (collect_map (map (\<lambda>b. (b_id b, b))
       (filter (\<lambda>b. b_id b \<in> set active_ids) (builds (db t))))) active_ids"
    unfolding heartbeat_def heartbeat_scan_eq dbind_assoc renewal_eq [symmetric] renewed_eq [symmetric]
    by (auto simp: db_simps none cancel_list_def split: if_splits)
  show ?thesis by (rule that [OF sw out]) (use t c out in simp_all)
qed

lemma sweep_keeps:
  assumes ok: "db_ok (db s)" and q: "\<And>d. set (q d) \<subseteq> set (builds d)"
    and k: "\<And>xs rs. preserves db_ok (k xs rs)"
    and run: "dbind (select q) (\<lambda>xs. dbind (for_each (abandon_if f m) xs) (k xs)) s = (r, t)"
  shows "db_ok (db t)"
  using run
proof (cases rule: dbind_cases)
  case (1 e)
  then show ?thesis using ok select_cases(1) by metis
next
  case (2 xs u)
  have u: "db u = db s" "xs = q (db s)" using select_cases [OF 2(1)] by auto
  then have pre: "\<forall>b \<in> set xs. follows b (ledger (db u))" using follows_select [where q = q, OF ok q] by simp
  note keep = sweep.for_each_keeps [OF _ pre] ok u(1)
  from 2(2) show ?thesis
  proof (cases rule: dbind_cases)
    case (1 e)
    then show ?thesis using keep by metis
  next
    case (2 rs v)
    then have "db_ok (db v)" using keep by metis
    then show ?thesis using 2(2) preservesD [OF k] by metis
  qed
qed

lemma refines_sweep [refine]: "refines (for_each (abandon_if f m) xs)"
  by (intro refine)

lemma refines_reap [refine]: "refines (reap_expired_builds now m ages)"
  unfolding reap_expired_builds_eq by (intro refine)

lemma refines_abandon_worker_builds [refine]: "refines (abandon_worker_builds w m)"
  unfolding abandon_worker_builds_eq by (intro refine)

lemma row_step_renewed: "renewal renew w b \<Longrightarrow> row_step b (renewed lease b)"
  unfolding renewed_def by (rule row_step.renew) (simp add: renewal_def)

lemma heartbeat_eq:
  "heartbeat w active_ids ttl m =
     dbind now_secs (\<lambda>now.
     dbind (select (held_by w)) (\<lambda>owned.
     dbind (for_each (abandon_if (drop_reason now active_ids ttl) m) owned) (\<lambda>rs.
     let renew = map b_id (filter (\<lambda>b. b_id b \<in> set active_ids) owned) in
     dthen
       (if renew \<noteq> [] then dthen (update_builds (renewal renew w) (renewed (now + ttl))) (ret ()) else ret ())
     (if active_ids \<noteq> [] then
        dbind (select (\<lambda>d. collect_map (map (\<lambda>b. (b_id b, b))
                 (filter (\<lambda>b. b_id b \<in> set active_ids) (builds d))))) (\<lambda>reported_rows.
        ret \<lparr>ho_renewed = renew, ho_dropped = concat (map option_list rs),
             ho_cancel_requested = cancel_list w reported_rows active_ids\<rparr>)
      else ret \<lparr>ho_renewed = renew, ho_dropped = concat (map option_list rs), ho_cancel_requested = []\<rparr>))))"
  unfolding heartbeat_def heartbeat_scan_eq dbind_assoc renewal_eq renewed_eq Let_def by simp

lemma refines_heartbeat [refine]: "refines (heartbeat w active_ids ttl m)"
  unfolding heartbeat_eq Let_def by (auto intro!: refine refines_update_builds row_step_renewed)

lemma preserves_renewal: "preserves db_ok (update_builds (renewal renew w) (renewed lease))"
  by (rule preserves_annotate) (auto intro: row_step_renewed, simp add: renewed_def)

lemma keeps_heartbeat:
  assumes ok: "db_ok (db s)" and run: "heartbeat w active_ids ttl m s = (r, t)"
  shows "db_ok (db t)"
  using run unfolding heartbeat_eq dbind_def [of now_secs] now_secs_def Let_def prod.case sum.case
  by (rule sweep_keeps [OF ok, rotated 2]) (auto simp: held_by_def intro!: pres preserves_renewal)

interpretation reaper: build_program "\<lambda>_ _. True" "\<lambda>(now, m, ages). reap_expired_builds now m ages"
proof (unfold_locales, goal_cases)
  case (1 x)
  then show ?case by (auto intro: refines_reap split: prod.splits)
next
  case (2 s x r t)
  then show ?case unfolding reap_expired_builds_eq case_prod_beta
    by (intro sweep_keeps [OF 2(1), of "reap_candidates (fst x) (snd (snd x))"])
      (auto simp: reap_candidates_def)
qed

interpretation revocation: build_program "\<lambda>_ _. True" "\<lambda>(w, m). abandon_worker_builds w m"
proof (unfold_locales, goal_cases)
  case (1 x)
  then show ?case by (auto intro: refines_abandon_worker_builds split: prod.splits)
next
  case (2 s x r t)
  then show ?case unfolding abandon_worker_builds_eq case_prod_beta
    by (intro sweep_keeps [OF 2(1), of "held_by (fst x)"]) (auto simp: held_by_def)
qed

interpretation beats: build_program "\<lambda>_ _. True" "\<lambda>(w, ids, ttl, m). heartbeat w ids ttl m"
  by unfold_locales (auto intro: refines_heartbeat keeps_heartbeat)

section \<open>What a heartbeat leaves behind\<close>

lemma heartbeat_rows:
  assumes run: "heartbeat w active_ids ttl m s = (Inr out, t)" and ids: "distinct (map b_id (builds (db s)))"
    and b: "b \<in> set (builds (db s))"
  shows "beat (clock s) active_ids ttl w b \<in> set (builds (db t))"
proof -
  let ?f = "drop_reason (clock s) active_ids ttl" and ?held = "held_by w (db s)"
  from run obtain rs u where
    sw: "for_each (abandon_if ?f m) ?held (tick s) = (Inr rs, u)"
    and renew: "ho_renewed out = map b_id (filter (\<lambda>b. b_id b \<in> set active_ids) ?held)"
    and t: "db t = set_builds (renewal (ho_renewed out) w) (renewed (clock s + ttl)) (db u)"
    by (rule heartbeat_run)
  note rows = sweep_Inr [OF sw held_by_rows(1) [OF ids]]
  have upd: "(if renewal (ho_renewed out) w x then renewed (clock s + ttl) x else x) \<in> set (builds (db t))"
    if "x \<in> set (builds (db u))" for x using that unfolding t by auto
  have inj: "b_id b \<in> b_id ` set ?held \<longleftrightarrow> b \<in> set ?held"
    using b held_by_rows(2) [OF ids] distinct_map_eq [OF ids] by blast
  have held: "b \<in> set ?held \<longleftrightarrow> b_worker_id b = Some w \<and> b_status b = Active"
    using b by (auto simp: held_by_def)
  show ?thesis
  proof (cases "b \<in> set ?held")
    case True
    then have "swept ?f (clock s) b \<in> set (builds (db u))" using rows held_by_rows(2,3) [OF ids] by simp
    with upd [of "swept ?f (clock s) b"] True held show ?thesis
      by (auto simp: beat_def swept_def drop_reason_def renewal_def renewed_def renew split: if_splits)
  next
    case False
    then have "b \<in> set (builds (db u))" using rows held_by_rows(2,3) [OF ids] b inj by simp
    with upd [of b] False held show ?thesis by (auto simp: beat_def renewal_def)
  qed
qed

lemma collected_rows:
  assumes "distinct (map b_id (builds d))" and "i \<in> I"
  shows "collect_map (map (\<lambda>b. (b_id b, b)) (filter (\<lambda>b. b_id b \<in> I) (builds d))) i = find_build_by_id i d"
proof (cases "find_build_by_id i d")
  case None
  then have "\<forall>b \<in> set (builds d). b_id b \<noteq> i" by (auto simp: find_build_by_id_def find_None_iff_ball)
  then show ?thesis using None by (auto simp: collect_map_def map_of_eq_None_iff)
next
  case (Some b)
  have "collect_map (map (\<lambda>b. (b_id b, b)) (filter (\<lambda>b. b_id b \<in> I) (builds d))) i =
    (if i \<in> fst ` set (map (\<lambda>b. (b_id b, b)) (filter (\<lambda>b. b_id b \<in> I) (builds d)))
     then Some (the (find_build_by_id i d)) else None)"
    by (rule collect_map_functional) (auto simp: find_build_by_id_mem [OF assms(1)])
  with Some assms(2) find_build_by_id_Some [OF Some] show ?thesis by (auto simp: image_iff)
qed

lemma heartbeat_cancels:
  assumes run: "heartbeat w active_ids ttl m s = (Inr out, t)" and ok: "db_ok (db s)"
  shows "ho_cancel_requested out = filter (\<lambda>i. \<not> (\<exists>b \<in> set (builds (db t)).
      b_id b = i \<and> b_status b = Active \<and> b_worker_id b = Some w)) active_ids"
proof -
  have ids: "distinct (map b_id (builds (db t)))" by (rule db_okD(4) [OF keeps_heartbeat [OF ok run]])
  from run have "ho_cancel_requested out = cancel_list w (collect_map (map (\<lambda>b. (b_id b, b))
       (filter (\<lambda>b. b_id b \<in> set active_ids) (builds (db t))))) active_ids"
    by (rule heartbeat_run)
  also have "\<dots> = filter (\<lambda>i. \<not> (\<exists>b \<in> set (builds (db t)).
      b_id b = i \<and> b_status b = Active \<and> b_worker_id b = Some w)) active_ids"
    unfolding cancel_list_def
  proof (rule filter_cong [OF refl], goal_cases)
    case (1 i)
    show ?case
    proof (cases "find_build_by_id i (db t)")
      case None
      then have "\<forall>b \<in> set (builds (db t)). b_id b \<noteq> i"
        by (simp add: find_build_by_id_def find_None_iff_ball)
      with None show ?thesis unfolding collected_rows [OF ids 1] by simp
    next
      case (Some x)
      then have "b_id b = i \<longleftrightarrow> b = x" if "b \<in> set (builds (db t))" for b
        using that find_build_by_id_Some [OF Some] distinct_map_eq [OF ids] by blast
      with Some find_build_by_id_Some [OF Some] show ?thesis
        unfolding collected_rows [OF ids 1] by auto
    qed
  qed
  finally show ?thesis .
qed

lemma heartbeat_ids:
  assumes run: "heartbeat w active_ids ttl m s = (Inr out, t)" and ids: "distinct (map b_id (builds (db s)))"
  shows "ho_renewed out = map b_id (filter (\<lambda>b. b_id b \<in> set active_ids) (held_by w (db s)))"
    and "map ab_build_id (ho_dropped out) =
      map b_id (filter (\<lambda>b. drop_reason (clock s) active_ids ttl b \<noteq> None) (held_by w (db s)))"
proof -
  from run obtain rs u where
    sw: "for_each (abandon_if (drop_reason (clock s) active_ids ttl) m) (held_by w (db s)) (tick s) = (Inr rs, u)"
    and out: "ho_renewed out = map b_id (filter (\<lambda>b. b_id b \<in> set active_ids) (held_by w (db s)))"
      "ho_dropped out = concat (map option_list rs)"
    by (rule heartbeat_run)
  show "ho_renewed out = map b_id (filter (\<lambda>b. b_id b \<in> set active_ids) (held_by w (db s)))" by (rule out)
  show "map ab_build_id (ho_dropped out) =
      map b_id (filter (\<lambda>b. drop_reason (clock s) active_ids ttl b \<noteq> None) (held_by w (db s)))"
    using sweep_Inr [OF sw held_by_rows(1) [OF ids]] held_by_rows(2,3) [OF ids] out by simp
qed

section \<open>Sweeps go through\<close>

lemma queue_retry_total:
  assumes "outage s = None" and "pkg \<noteq> None \<Longrightarrow> find_package_by_id (b_pkg_id observed) (db s) \<noteq> None"
  shows "\<exists>r t. queue_retry observed m now pkg recent s = (Inr r, t) \<and> outage t = None"
proof (cases "\<exists>p. pkg = Some p \<and> futile_run recent < nat m")
  case True
  then obtain p where p: "pkg = Some p" "futile_run recent < nat m" by blast
  with assms enqueue_total [OF assms(1), of "b_pkg_id observed" "b_platform observed"
      "unwrap_or_default (p_upstream_version p)" now Pending_Enqueued TimeoutRetry]
  show ?thesis by (auto simp: queue_retry_def db_simps)
next
  case False
  with assms(1) show ?thesis by (auto simp: queue_retry_def ret_def split: option.split)
qed

lemma reliable_abandon [rel]: "reliable (abandon_build observed reason m)"
proof -
  have "\<exists>x t. abandon_body observed reason m now s = (Inr x, t) \<and> outage t = None" if s: "outage s = None" for now s
  proof -
    let ?upd = "\<lambda>b. b\<lparr>b_status := Failed, b_end_time := Some now, b_lease_expires_at := None,
      b_end_reason := Some reason\<rparr>"
    let ?u = "(tick s)\<lparr>db := set_builds (still_held observed) ?upd (db s)\<rparr>"
    have u: "outage ?u = None" and upd: "update_builds (still_held observed) ?upd s =
        (Inr (length (filter (still_held observed) (builds (db s)))), ?u)"
      using s by (auto simp: update_builds_Inr up_None)
    let ?p = "find_package_by_id (b_pkg_id observed) (db ?u)"
    let ?r = "recent_builds (b_pkg_id observed) (b_platform observed) m (db ?u)"
    obtain r v where v: "queue_retry observed m now ?p ?r ?u = (Inr r, v)" "outage v = None"
      using queue_retry_total [OF u, of ?p observed m now ?r] by blast
    obtain w where w: "refresh_package_status (b_pkg_id observed) v = (Inr (), w)" "outage w = None"
      using refresh_package_status_total [OF v(2)] by blast
    have sel: "select q ?u = (Inr (q (db ?u)), ?u)" for q using u by (simp add: select_Inr up_None tick_None)
    show ?thesis
    proof (cases "length (filter (still_held observed) (builds (db s))) = 0")
      case True
      then have "abandon_body observed reason m now s = (Inr (Rollback None), ?u)"
        unfolding abandon_body_def rollback_stmt_def dthen_def dbind_def upd by (simp add: sel ret_def)
      with u show ?thesis by blast
    next
      case False
      then show ?thesis using v w unfolding abandon_body_def dthen_def dbind_def upd sel
        by (simp add: sel ret_def)
    qed
  qed
  then have "reliable (abandon_body observed reason m now)" for now by (simp add: reliable_def)
  then show ?thesis unfolding abandon_build_def by (intro rel)
qed

lemma reliable_abandon_if [rel]: "reliable (abandon_if f m b)"
  unfolding abandon_if_def by (auto intro!: rel split: option.split)

lemma reliable_reap: "reliable (reap_expired_builds now m ages)"
  unfolding reap_expired_builds_eq by (intro rel)

lemma reliable_heartbeat: "reliable (heartbeat w ids ttl m)"
  unfolding heartbeat_eq Let_def by (auto intro!: rel)

section \<open>Properties\<close>

text \<open>C14: Abandoning a build is all or nothing. When a statement fails the tables are untouched; when
  the build is no longer held the way the caller observed it (another worker's, settled, or
  its lease renewed since) nothing happens at all; otherwise the row is ended with the given
  reason and the retry, the refreshed package status and the report are exactly those of the
  specification \<open>abandon_effect\<close>.\<close>

theorem abandon_refines:
  "case abandon_build observed reason m s of
      (Inl e, t) \<Rightarrow> db t = db s
    | (Inr r, t) \<Rightarrow> (case r of
        None \<Rightarrow> (\<forall>b \<in> set (builds (db s)). \<not> still_held observed b) \<and> db t = db s
      | Some a \<Rightarrow> (\<exists>b \<in> set (builds (db s)). still_held observed b) \<and>
          ab_build_id a = b_id observed \<and> ab_end_reason a = reason \<and> ab_worker_id a = b_worker_id observed \<and>
          (ab_retry a, db t) = abandon_effect observed (clock s) reason m (db s))"
proof (rule outcomeI)
  fix r t assume "abandon_build observed reason m s = (Inr r, t)"
  then show "case r of
        None \<Rightarrow> (\<forall>b \<in> set (builds (db s)). \<not> still_held observed b) \<and> db t = db s
      | Some a \<Rightarrow> (\<exists>b \<in> set (builds (db s)). still_held observed b) \<and>
          ab_build_id a = b_id observed \<and> ab_end_reason a = reason \<and> ab_worker_id a = b_worker_id observed \<and>
          (ab_retry a, db t) = abandon_effect observed (clock s) reason m (db s)"
    by (auto dest!: abandon_Inr split: option.splits)
qed (erule failed_abandon)

theorem abandon_refines_witness:
  "case abandon_build (sample_build 2 1 2 Active (Some 1) (Some 950)) LeaseExpired 3 sample_server of
     (Inr (Some a), t) \<Rightarrow> (ab_retry a, db t) =
       abandon_effect (sample_build 2 1 2 Active (Some 1) (Some 950)) 1000 LeaseExpired 3 sample_tables
   | _ \<Rightarrow> False"
proof -
  let ?b = "sample_build 2 1 2 Active (Some 1) (Some 950)"
  have "(case abandon_build ?b LeaseExpired 3 sample_server of (Inr (Some a), t) \<Rightarrow> True | _ \<Rightarrow> False)" by code_simp
  then obtain a t where "abandon_build ?b LeaseExpired 3 sample_server = (Inr (Some a), t)"
    by (auto split: prod.splits sum.splits option.splits)
  then show ?thesis using abandon_refines [where observed = ?b and reason = LeaseExpired and m = 3 and s = sample_server] by simp
qed

text \<open>C15: The retry budget: a retry is queued only while fewer than \<open>m\<close> of the package's newest builds on the
  platform, counted without a break, are retries that were themselves given up on, and it is
  then the one unsettled build there; once the budget is spent nothing is queued. Reading just
  the \<open>m\<close> newest rows decides this as reading all of them would.\<close>

theorem retry_budget:
  assumes ok: "db_ok (db s)" and fol: "follows observed (ledger (db s))"
    and run: "abandon_build observed reason m s = (Inr (Some a), t)"
  shows "let left = after_end observed (clock s) reason (db s); k = b_pkg_id observed; pf = b_platform observed in
    case ab_retry a of
      Queued i \<Rightarrow> full_run k pf left < nat m \<and>
        (\<exists>b. {b \<in> set (builds (db t)). is_pending_for k pf b} = {b} \<and> b_id b = i \<and>
             b_status b = Enqueued \<and> b_trigger b = TimeoutRetry)
    | Adopted i \<Rightarrow> full_run k pf left < nat m \<and> (\<exists>b \<in> set (builds left). is_pending_for k pf b \<and> b_id b = i) \<and>
        builds (db t) = builds left
    | Spent \<Rightarrow> (find_package_by_id k (db s) = None \<or> nat m \<le> full_run k pf left) \<and> builds (db t) = builds left"
proof -
  let ?k = "b_pkg_id observed" and ?pf = "b_platform observed"
  let ?d = "after_end observed (clock s) reason (db s)"
  have okt: "db_ok (db t)" by (rule keeps_abandon [OF ok fol run])
  have e: "ab_retry a = fst (abandon_effect observed (clock s) reason m (db s))"
    "db t = snd (abandon_effect observed (clock s) reason m (db s))" using abandon_Inr [OF run] by auto
  have retry: "{b \<in> set (builds (db t)). is_pending_for ?k ?pf b} = {b} \<and> b_status b = Enqueued \<and>
      b_trigger b = TimeoutRetry"
    if b: "b = retry_build observed (clock s) p ?d" "builds (db t) = builds ?d @ [b]" for b p
  proof -
    have "is_pending_for ?k ?pf b" unfolding b(1) retry_build_def by (rule inserted_build_pending)
    moreover from this have "x = b" if "x \<in> set (builds (db t))" "is_pending_for ?k ?pf x" for x
      using pending_unique [OF okt that(1) _ that(2), of b] b(2) by simp
    moreover have "b_status b = Enqueued \<and> b_trigger b = TimeoutRetry"
      by (simp add: b(1) retry_build_def inserted_build_def)
    moreover have "b \<in> set (builds (db t))" by (simp add: b(2))
    ultimately show ?thesis by blast
  qed
  show ?thesis
  proof (cases "find_package_by_id ?k (db s)")
    case None
    then show ?thesis using e by (simp add: abandon_effect_def Let_def)
  next
    case (Some p)
    then show ?thesis using e retry [of "retry_build observed (clock s) p ?d" p]
      by (cases "find (is_pending_for ?k ?pf) (builds ?d)")
        (auto simp: abandon_effect_def Let_def dest: find_Some_mem)
  qed
qed

theorem retry_budget_witness:
  "\<exists>a t. abandon_build (sample_build 2 1 2 Active (Some 1) (Some 950)) LeaseExpired 3 sample_server = (Inr (Some a), t) \<and>
     ab_retry a = Queued 4 \<and>
     (\<exists>b. {b \<in> set (builds (db t)). is_pending_for 1 X86_64 b} = {b} \<and> b_id b = 4)"
proof -
  let ?b = "sample_build 2 1 2 Active (Some 1) (Some 950)"
  have "(case abandon_build ?b LeaseExpired 3 sample_server of (Inr (Some a), t) \<Rightarrow> ab_retry a = Queued 4 | _ \<Rightarrow> False)"
    by code_simp
  then obtain a t where run: "abandon_build ?b LeaseExpired 3 sample_server = (Inr (Some a), t)"
    and q: "ab_retry a = Queued 4" by (auto split: prod.splits sum.splits option.splits)
  have "follows ?b (ledger sample_tables)"
    by (rule follows_own [OF db_okD(1) [OF sample_db_ok]]) (simp add: ledger_def sample_tables_def)
  moreover have "b_pkg_id ?b = 1" "b_platform ?b = X86_64" by (simp_all add: sample_build_def)
  ultimately show ?thesis using retry_budget [OF _ _ run] sample_db_ok run q by (auto simp: Let_def)
qed

text \<open>When a build ought to be reaped, in terms of its own columns.\<close>

definition overdue :: "timestamp \<Rightarrow> build_ages \<Rightarrow> build \<Rightarrow> bool" where
  "overdue now ages b \<longleftrightarrow> (\<exists>start. b_start_time b = Some start \<and> ages_of ages (b_pkg_id b) < now - start)"

definition lapsed :: "timestamp \<Rightarrow> build \<Rightarrow> bool" where
  "lapsed now b \<longleftrightarrow> (\<forall>lease. b_lease_expires_at b = Some lease \<longrightarrow> lease < now)"

lemma reap_reason_due:
  "reap_reason now ages b =
     (if overdue now ages b then Some MaxDuration else if lapsed now b then Some LeaseExpired else None)"
  by (auto simp: reap_reason_def overdue_def lapsed_def started_before_def expired_def split: option.splits)

text \<open>C16: With the database reachable the reaper goes through and is exact: every active build that
  outlived its package's age, or else whose lease ran out, ends with that reason; every other row
  is left as it was; afterwards no active build has a reason to be reaped; and it reports
  the builds it ended. Selecting candidates by the shortest age of all packages loses none.\<close>

theorem reaper_exact:
  assumes ok: "db_ok (db s)" and "outage s = None"
  shows "\<exists>out t. reap_expired_builds now m ages s = (Inr out, t) \<and>
    (\<forall>b \<in> set (builds (db s)).
       (if b_status b = Active \<and> overdue now ages b then ended (clock s) MaxDuration b
        else if b_status b = Active \<and> lapsed now b then ended (clock s) LeaseExpired b
        else b) \<in> set (builds (db t))) \<and>
    (\<forall>b \<in> set (builds (db t)). b_status b = Active \<longrightarrow>
       b \<in> set (builds (db s)) \<and> \<not> overdue now ages b \<and> \<not> lapsed now b) \<and>
    set (map ab_build_id out) =
      b_id ` {b \<in> set (builds (db s)). b_status b = Active \<and> (overdue now ages b \<or> lapsed now b)}"
proof -
  obtain out t where run: "reap_expired_builds now m ages s = (Inr out, t)"
    using reliableE [OF reliable_reap assms(2)] by metis
  note reap = reap_Inr [OF run db_okD(4) [OF ok]]
  have due: "reap_reason now ages b \<noteq> None \<longleftrightarrow> overdue now ages b \<or> lapsed now b" for b
    by (simp add: reap_reason_due)
  have "(if b_status b = Active \<and> overdue now ages b then ended (clock s) MaxDuration b
      else if b_status b = Active \<and> lapsed now b then ended (clock s) LeaseExpired b
      else b) \<in> set (builds (db t))" if "b \<in> set (builds (db s))" for b
    using reap(1) that by (cases "b_status b = Active") (auto simp: swept_def reap_reason_due split: if_splits)
  with run reap(2,3) show ?thesis unfolding due
    by (intro exI [of _ out] exI [of _ t]) (use due in blast)
qed

theorem reaper_exact_witness:
  "\<exists>out t. reap_expired_builds 1000 3 (ages_all 600) sample_server = (Inr out, t) \<and> 2 \<in> set (map ab_build_id out)"
proof -
  let ?b = "sample_build 2 1 2 Active (Some 1) (Some 950)"
  have "b_status ?b = Active" "reap_reason 1000 (ages_all 600) ?b \<noteq> None" "b_id ?b = 2" by code_simp+
  moreover have "?b \<in> set (builds sample_tables)" by (simp add: sample_tables_def)
  ultimately show ?thesis using reaper_exact [of sample_server 1000 3 "ages_all 600"] sample_db_ok
    by (force simp: reap_reason_due split: if_splits)
qed

text \<open>C17: With the database reachable a heartbeat goes through: the worker's active builds it lists
  have their lease renewed, those it does not list and claimed at least a lease ago are ended as
  dropped, and every other row, of any worker, is left as it was. The reply lists the renewed and
  the dropped builds, and tells the worker to cancel exactly those of its listed builds it does
  not hold.\<close>

theorem heartbeat_exact:
  assumes ok: "db_ok (db s)" and "outage s = None"
  shows "\<exists>out t. heartbeat w ids ttl m s = (Inr out, t) \<and>
    (\<forall>b \<in> set (builds (db s)). beat (clock s) ids ttl w b \<in> set (builds (db t))) \<and>
    set (ho_renewed out) = b_id ` {b \<in> set (held_by w (db s)). b_id b \<in> set ids} \<and>
    set (map ab_build_id (ho_dropped out)) =
      b_id ` {b \<in> set (held_by w (db s)). b_id b \<notin> set ids \<and>
        \<not> (\<exists>claimed. b_start_time b = Some claimed \<and> clock s - ttl < claimed)} \<and>
    ho_cancel_requested out = filter (\<lambda>i. \<not> (\<exists>b \<in> set (builds (db t)).
      b_id b = i \<and> b_status b = Active \<and> b_worker_id b = Some w)) ids"
proof -
  obtain out t where run: "heartbeat w ids ttl m s = (Inr out, t)"
    using reliableE [OF reliable_heartbeat assms(2)] by metis
  have "drop_reason (clock s) ids ttl b \<noteq> None \<longleftrightarrow> b_id b \<notin> set ids \<and>
      \<not> (\<exists>claimed. b_start_time b = Some claimed \<and> clock s - ttl < claimed)" for b
    by (auto simp: drop_reason_def split: option.splits)
  then have "set (map ab_build_id (ho_dropped out)) =
      b_id ` {b \<in> set (held_by w (db s)). b_id b \<notin> set ids \<and>
        \<not> (\<exists>claimed. b_start_time b = Some claimed \<and> clock s - ttl < claimed)}"
    unfolding heartbeat_ids(2) [OF run db_okD(4) [OF ok]] by simp
  moreover have "set (ho_renewed out) = b_id ` {b \<in> set (held_by w (db s)). b_id b \<in> set ids}"
    unfolding heartbeat_ids(1) [OF run db_okD(4) [OF ok]] by simp
  ultimately show ?thesis
    using run heartbeat_rows [OF run db_okD(4) [OF ok]] heartbeat_cancels [OF run ok] by blast
qed

theorem heartbeat_exact_witness:
  "\<exists>out t. heartbeat 1 [2, 7] 60 3 sample_server = (Inr out, t) \<and> set (ho_renewed out) = {2}"
proof -
  have held: "held_by 1 sample_tables = [sample_build 2 1 2 Active (Some 1) (Some 950)]"
    by (simp add: held_by_def sample_tables_def sample_build_def)
  have one: "b_id ` {b \<in> set [x]. b_id b \<in> set [2, 7]} = {2}" if "b_id x = 2" for x using that by auto
  have "b_id ` {b \<in> set (held_by 1 sample_tables). b_id b \<in> set [2, 7]} = {2}"
    unfolding held by (rule one) (simp add: sample_build_def)
  moreover obtain out t where "heartbeat 1 [2, 7] 60 3 sample_server = (Inr out, t)"
    "set (ho_renewed out) = b_id ` {b \<in> set (held_by 1 (db sample_server)). b_id b \<in> set [2, 7]}"
    using heartbeat_exact [of sample_server 1 "[2, 7]" 60 3] sample_db_ok unfolding sample_server_sel by blast
  ultimately show ?thesis by simp
qed

end
