(* ===== verification/Completion.thy ===== *)
theory Completion
  imports Job_Leases
begin

text \<open>
  How a build ends: \<^verbatim>\<open>aurcache-utils/src/worker_complete.rs\<close> (a worker's report, and the
  dependents it unblocks), \<^verbatim>\<open>cancel.rs\<close>, \<^verbatim>\<open>build_delete.rs\<close> and
  \<^verbatim>\<open>abandoned.rs\<close>.
\<close>

section \<open>Reports\<close>

datatype build_outcome = Outcome_Succeeded | Outcome_Failed | Outcome_Canceled | Outcome_Interrupted

text \<open>The wire names; one the server does not know reads as an interruption.\<close>

definition outcome_from_str :: "string \<Rightarrow> build_outcome" where
  "outcome_from_str s =
     (if s = ''succeeded'' then Outcome_Succeeded
      else if s = ''failed'' then Outcome_Failed
      else if s = ''canceled'' then Outcome_Canceled
      else Outcome_Interrupted)"

record disk_usage =
  du_chroot :: "int option"
  du_workdir :: "int option"
  du_sources :: "int option"
  du_build_tree :: "int option"

definition disk_usage_is_empty :: "disk_usage \<Rightarrow> bool" where
  "disk_usage_is_empty u \<longleftrightarrow>
     du_chroot u = None \<and> du_workdir u = None \<and> du_sources u = None \<and> du_build_tree u = None"

record kept_build =
  kb_path :: string
  kb_until :: timestamp
  kb_tree :: "string option"

record complete_report =
  cr_outcome :: build_outcome
  cr_exit_code :: "int option"
  cr_reason :: "string option"
  cr_peak_memory_bytes :: "int option"
  cr_disk_usage :: "disk_usage option"
  cr_vcs_commits :: "(string \<times> string) list"
  cr_kept :: "kept_build option"

datatype completion_error = NotFound id | LeaseLost id id | Persistence db_err

datatype completion = Accepted | AlreadyAccepted

type_synonym 'a cm = "(completion_error, 'a) prog"

section \<open>Ownership\<close>

definition find_build :: "id \<Rightarrow> build cm" where
  "find_build build_id =
     dbind (map_err Persistence (select (find_build_by_id build_id))) (\<lambda>row.
     case row of None \<Rightarrow> raise (NotFound build_id) | Some build \<Rightarrow> ret build)"

definition lease_lost :: "id \<Rightarrow> id \<Rightarrow> completion_error" where
  "lease_lost build_id worker_id = LeaseLost build_id worker_id"

definition check_owned :: "id \<Rightarrow> build \<Rightarrow> completion_error + unit" where
  "check_owned worker_id build =
     (if b_worker_id build \<noteq> Some worker_id then Inl (lease_lost (b_id build) worker_id) else Inr ())"

definition check_owned_active :: "id \<Rightarrow> build \<Rightarrow> completion_error + unit" where
  "check_owned_active worker_id build =
     (if b_status build \<noteq> Active then Inl (lease_lost (b_id build) worker_id)
      else check_owned worker_id build)"

definition checked :: "'e + 'a \<Rightarrow> ('e, 'a) prog" where
  "checked r = (case r of Inl e \<Rightarrow> raise e | Inr x \<Rightarrow> ret x)"

definition assert_owned_active :: "id \<Rightarrow> id \<Rightarrow> build cm" where
  "assert_owned_active worker_id build_id =
     dbind (find_build build_id) (\<lambda>build.
     dthen (checked (check_owned_active worker_id build)) (ret build))"

definition assert_owned :: "id \<Rightarrow> id \<Rightarrow> build cm" where
  "assert_owned worker_id build_id =
     dbind (find_build build_id) (\<lambda>build.
     dthen (checked (check_owned worker_id build)) (ret build))"

section \<open>What a report records\<close>

definition measured :: "complete_report \<Rightarrow> build \<Rightarrow> build" where
  "measured report b =
     (let b1 = (case cr_peak_memory_bytes report of None \<Rightarrow> b | Some peak \<Rightarrow> b\<lparr>b_peak_memory := Some peak\<rparr>);
          b2 = (case cr_disk_usage report of
                  None \<Rightarrow> b1
                | Some u \<Rightarrow>
                    if disk_usage_is_empty u then b1
                    else b1\<lparr>b_disk_chroot := du_chroot u, b_disk_workdir := du_workdir u,
                            b_disk_sources := du_sources u, b_disk_build_tree := du_build_tree u\<rparr>)
      in case cr_kept report of
           None \<Rightarrow> b2
         | Some k \<Rightarrow> b2\<lparr>b_kept_path := Some (kb_path k), b_kept_until := Some (kb_until k),
                        b_kept_tree := kb_tree k\<rparr>)"

definition is_changed :: "complete_report \<Rightarrow> bool" where
  "is_changed report \<longleftrightarrow>
     cr_peak_memory_bytes report \<noteq> None \<or>
     (case cr_disk_usage report of None \<Rightarrow> False | Some u \<Rightarrow> \<not> disk_usage_is_empty u) \<or>
     cr_kept report \<noteq> None"

definition record_measurements :: "id \<Rightarrow> complete_report \<Rightarrow> unit dbm" where
  "record_measurements build_id report =
     (if \<not> is_changed report then ret ()
      else dthen (update_builds (\<lambda>b. b_id b = build_id) (measured report)) (ret ()))"

section \<open>Ending the lease\<close>

definition release_columns :: "timestamp option \<Rightarrow> build \<Rightarrow> build" where
  "release_columns ended_at b =
     (case ended_at of
        Some t \<Rightarrow> b\<lparr>b_end_time := Some t, b_lease_expires_at := None\<rparr>
      | None \<Rightarrow> b\<lparr>b_lease_expires_at := None\<rparr>)"

definition release :: "id \<Rightarrow> id \<Rightarrow> build_state \<Rightarrow> timestamp option \<Rightarrow> unit cm" where
  "release build_id worker_id status ended_at =
     dbind (find_build build_id) (\<lambda>build.
     dbind (map_err Persistence
              (transition build [Active] status (\<lambda>b. b_worker_id b = Some worker_id)
                 (release_columns ended_at))) (\<lambda>moved.
     case moved of
       Moved \<Rightarrow> ret ()
     | Unchanged \<Rightarrow> raise (lease_lost build_id worker_id)))"

definition accept_for_publishing :: "id \<Rightarrow> id \<Rightarrow> unit cm" where
  "accept_for_publishing build_id worker_id = release build_id worker_id Publishing None"

definition complete_failure :: "id \<Rightarrow> id \<Rightarrow> unit cm" where
  "complete_failure build_id worker_id =
     dbind now_secs (\<lambda>now. release build_id worker_id Failed (Some now))"

section \<open>Abandonment in the logs\<close>

record named_builds =
  nb_retried :: "build_ref list"
  nb_failed :: "build_ref list"

definition named :: "abandoned list \<Rightarrow> named_builds" where
  "named lost =
     (case partition (\<lambda>a. ab_retry a = Spent) lost of (failed, retried) \<Rightarrow>
        \<lparr>nb_retried = List.map_filter abandoned_build_ref retried,
         nb_failed = List.map_filter abandoned_build_ref failed\<rparr>)"

definition explain :: "abandoned \<Rightarrow> ('e, unit) prog" where
  "explain a =
     (case abandoned_build_ref a of
        None \<Rightarrow> ret ()
      | Some build \<Rightarrow>
          dbind (append_build_output (pkgbase build) (number build)
                   (''Abandoned: '' @ explanation (ab_end_reason a) @ ''.\<newline>'')) (\<lambda>ok.
          if \<not> ok then emit (BuildLogAppendFailed build) else ret ()))"

definition announce_retry :: "abandoned \<Rightarrow> ('e, unit) prog" where
  "announce_retry a =
     (case (abandoned_build_ref a, ab_retry a) of
        (Some retried, Queued replacement) \<Rightarrow>
          dbind (attempt (build_refs [replacement])) (\<lambda>r.
          emit (BuildQueued (pkgbase retried) Cause_Retry (case r of Inl _ \<Rightarrow> [] | Inr refs \<Rightarrow> refs) None
                  (Some retried)))
      | _ \<Rightarrow> ret ())"

definition report_abandoned :: "abandoned list \<Rightarrow> ('e, unit) prog" where
  "report_abandoned lost =
     dthen (for_each (\<lambda>build. dthen (explain build) (announce_retry build)) lost) (ret ())"

section \<open>Completion\<close>

datatype repeat = Repeat_Abort | Repeat_Success

definition repeat :: "build \<Rightarrow> complete_report \<Rightarrow> id \<Rightarrow> repeat option" where
  "repeat build report worker_id =
     (if b_worker_id build \<noteq> Some worker_id then None
      else
        let failed = (b_status build = Failed);
            aborted = (cr_outcome report \<in> {Outcome_Canceled, Outcome_Interrupted})
        in if aborted \<and> failed then Some Repeat_Abort
           else
             let accepted = (b_status build \<in> {Publishing, Successful} \<or> (failed \<and> b_end_reason build = None))
             in if cr_outcome report = Outcome_Succeeded \<and> accepted then Some Repeat_Success else None)"

definition record_failed :: "build_ref option \<Rightarrow> string \<Rightarrow> 'd + 'a \<Rightarrow> ('e, unit) prog" where
  "record_failed name what r =
     (case r of
        Inr _ \<Rightarrow> ret ()
      | Inl _ \<Rightarrow> (case name of None \<Rightarrow> ret () | Some build \<Rightarrow> emit (BuildRecordFailed build what)))"

definition emit_for :: "build_ref option \<Rightarrow> (build_ref \<Rightarrow> event) \<Rightarrow> ('e, unit) prog" where
  "emit_for name ev = (case name of None \<Rightarrow> ret () | Some build \<Rightarrow> emit (ev build))"

definition complete_success :: "worker \<Rightarrow> build_ref option \<Rightarrow> id \<Rightarrow> complete_report \<Rightarrow> completion cm" where
  "complete_success worker_model name build_id report =
     dthen
       (if cr_vcs_commits report \<noteq> [] then
          dbind (attempt (record_build_vcs_sources build_id (cr_vcs_commits report)))
            (record_failed name ''built VCS sources'')
        else ret ())
     (dthen (accept_for_publishing build_id (w_id worker_model))
     (dthen (emit_for name (\<lambda>b. BuildSucceeded b (w_name worker_model)))
     (dthen (perform (PublishSpawned build_id))
     (ret Accepted))))"

definition complete_interrupted :: "worker \<Rightarrow> int \<Rightarrow> build \<Rightarrow> completion cm" where
  "complete_interrupted worker_model max_attempts build =
     dbind (map_err Persistence (abandon_build build Interrupted max_attempts)) (\<lambda>a.
     case a of
       None \<Rightarrow> raise (lease_lost (b_id build) (w_id worker_model))
     | Some abandoned \<Rightarrow>
         dthen (report_abandoned [abandoned])
         (dthen (perform (StagingDiscarded (b_id build)))
         (ret Accepted)))"

definition log_reason :: "build_ref option \<Rightarrow> complete_report \<Rightarrow> ('e, unit) prog" where
  "log_reason name report =
     (case (cr_reason report, name) of
        (Some reason, Some b) \<Rightarrow>
          dbind (append_build_output (pkgbase b) (number b) (''worker reported failure: '' @ reason @ ''\<newline>'')) (\<lambda>ok.
          record_failed name ''failure reason'' (if ok then Inr () else Inl ()))
      | _ \<Rightarrow> ret ())"

definition complete_ended ::
    "worker \<Rightarrow> int \<Rightarrow> build_ref option \<Rightarrow> build \<Rightarrow> complete_report \<Rightarrow> completion cm" where
  "complete_ended worker_model max_attempts name build report =
     (if cr_outcome report = Outcome_Succeeded then
        complete_success worker_model name (b_id build) report
      else
        dthen (log_reason name report)
        (if cr_outcome report = Outcome_Interrupted then
           complete_interrupted worker_model max_attempts build
         else
           dthen (complete_failure (b_id build) (w_id worker_model))
           (dthen (emit_for name (\<lambda>b. BuildFailed b (w_name worker_model) (cr_reason report)))
           (dthen (perform (StagingDiscarded (b_id build)))
           (ret Accepted)))))"

definition complete_owned :: "worker \<Rightarrow> int \<Rightarrow> build \<Rightarrow> complete_report \<Rightarrow> completion cm" where
  "complete_owned worker_model max_attempts build report =
     dthen (checked (check_owned_active (w_id worker_model) build))
     (dbind (attempt (select (find_package_by_id (b_pkg_id build)))) (\<lambda>pkg.
      let name = (case pkg of
                    Inr (Some p) \<Rightarrow> Some \<lparr>pkgbase = p_name p, number = b_number build\<rparr>
                  | _ \<Rightarrow> None) in
      dthen (dbind (attempt (record_measurements (b_id build) report)) (record_failed name ''measurements''))
      (complete_ended worker_model max_attempts name build report)))"

definition complete :: "worker \<Rightarrow> int \<Rightarrow> id \<Rightarrow> complete_report \<Rightarrow> completion cm" where
  "complete worker_model max_attempts build_id report =
     dbind (find_build build_id) (\<lambda>build.
     case repeat build report (w_id worker_model) of
       Some Repeat_Abort \<Rightarrow> dthen (perform (StagingDiscarded build_id)) (ret AlreadyAccepted)
     | Some Repeat_Success \<Rightarrow> ret AlreadyAccepted
     | None \<Rightarrow> complete_owned worker_model max_attempts build report)"

section \<open>Dependents\<close>

text \<open>
  The dependents of a package with all their dependencies, grouped in a \<^verbatim>\<open>HashMap\<close>.
  The order the map is iterated in is unspecified: it is the argument \<open>iter\<close> of
  \<open>trigger_dependents\<close>.
\<close>

definition load_dependencies_for_dependents_of :: "id \<Rightarrow> (id \<times> dependency list) list dbm" where
  "load_dependencies_for_dependents_of pkg_id =
     dbind (select (\<lambda>d. map d_dependent_id (filter (\<lambda>e. d_dependee_id e = pkg_id) (dependencies d)))) (\<lambda>ids.
     if ids = [] then ret []
     else
       dbind (select (\<lambda>d. filter (\<lambda>e. d_dependent_id e \<in> set ids) (dependencies d))) (\<lambda>deps.
       ret (map (\<lambda>i. (i, filter (\<lambda>e. d_dependent_id e = i) deps)) (remdups (map d_dependent_id deps)))))"

definition promote_dependent :: "id \<Rightarrow> platform \<Rightarrow> build_ref option dbm" where
  "promote_dependent dependent_id pf =
     dbind (select (find_package_by_id dependent_id)) (\<lambda>row.
     case row of
       None \<Rightarrow> ret None
     | Some pkg \<Rightarrow>
         let platforms = unwrap_or_default (p_platforms pkg) in
         if platforms \<noteq> [] \<and> pf \<notin> set platforms then ret None
         else
           dbind (promote_waiting_build (p_id pkg) pf) (\<lambda>promoted.
           ret (map_option (\<lambda>b. \<lparr>pkgbase = p_name pkg, number = b_number b\<rparr>) promoted)))"

definition trigger_dependent :: "'v alpm \<Rightarrow> platform \<Rightarrow> id \<times> dependency list \<Rightarrow> build_ref option dbm" where
  "trigger_dependent A pf = (\<lambda>(dependent_id, all_deps).
     dbind (dependencies_satisfied A all_deps pf) (\<lambda>ok.
     if ok then promote_dependent dependent_id pf else ret None))"

definition trigger_dependents ::
    "'v alpm \<Rightarrow> ((id \<times> dependency list) list \<Rightarrow> (id \<times> dependency list) list) \<Rightarrow> id \<Rightarrow> platform \<Rightarrow>
     build_ref list dbm" where
  "trigger_dependents A iter pkg_id pf =
     dbind (load_dependencies_for_dependents_of pkg_id) (\<lambda>deps_by_dependent.
     dbind (for_each (trigger_dependent A pf) (iter deps_by_dependent)) (\<lambda>rs.
     ret (concat (map option_list rs))))"

definition resync_pending_build :: "'v alpm \<Rightarrow> id \<Rightarrow> dependency list \<Rightarrow> build \<Rightarrow> id list dbm" where
  "resync_pending_build A pkg_id deps build =
     dbind (dependencies_satisfied A deps (b_platform build)) (\<lambda>ready.
     if b_status build = WaitingForDeps \<and> ready then
       dbind (promote_waiting_build pkg_id (b_platform build)) (\<lambda>promoted.
       ret (case promoted of None \<Rightarrow> [] | Some p \<Rightarrow> [b_id p]))
     else if b_status build = Enqueued \<and> \<not> ready then
       dthen (demote_enqueued_build pkg_id (b_platform build)) (ret [])
     else ret [])"

definition resync_pending_builds :: "'v alpm \<Rightarrow> id \<Rightarrow> id list dbm" where
  "resync_pending_builds A pkg_id =
     dbind (select (\<lambda>d. filter (\<lambda>b. b_pkg_id b = pkg_id \<and> b_status b \<in> {Enqueued, WaitingForDeps})
                          (builds d))) (\<lambda>pending.
     if pending = [] then ret []
     else
       dbind (select (\<lambda>d. filter (\<lambda>e. d_dependent_id e = pkg_id) (dependencies d))) (\<lambda>deps.
       dbind (for_each (resync_pending_build A pkg_id deps) pending) (\<lambda>rs.
       ret (concat rs))))"

section \<open>Cancelling and deleting\<close>

datatype cancel = Cancelled | Settled

definition CANCELLABLE :: "build_state list" where
  "CANCELLABLE = [Active, Enqueued, WaitingForDeps]"

definition cancel_build :: "string \<Rightarrow> build \<Rightarrow> cancel dbm" where
  "cancel_build base build =
     dbind now_secs (\<lambda>now.
     dbind (transition build CANCELLABLE Failed (\<lambda>_. True)
              (\<lambda>b. b\<lparr>b_end_time := Some now, b_end_reason := Some Canceled, b_lease_expires_at := None\<rparr>)) (\<lambda>moved.
     if moved = Unchanged then ret Settled
     else
       dthen (append_build_output base (b_number build) ''Cancelled by operator.\<newline>'')
       (ret Cancelled)))"

datatype delete = Deleted | Running

definition delete_build :: "string \<Rightarrow> build \<Rightarrow> delete dbm" where
  "delete_build base build =
     (if b_status build \<in> {Active, Publishing} then ret Running
      else
        dthen (delete_build_row build)
        (dthen (perform (LogRemoved base (b_number build)))
        (ret Deleted)))"

section \<open>The contract\<close>

lemma find_build_Inr:
  "find_build i s = (Inr b, t) \<longleftrightarrow> up s \<and> find_build_by_id i (db s) = Some b \<and> t = tick s"
  by (auto simp: find_build_def db_simps split: option.splits)

lemma refines_find_build [refine]: "refines (find_build i)"
  unfolding find_build_def by (auto intro!: refine split: option.splits)

lemma refines_checked [refine]: "refines (checked r)"
  unfolding checked_def by (auto intro!: refine split: sum.splits)

lemma preserves_checked [pres]: "preserves I (checked r)"
  unfolding checked_def by (auto intro!: pres split: sum.splits)

lemma preserves_find_build_then:
  assumes "\<And>b. preserves (ok_with b) (k b)"
  shows "preserves db_ok (dbind (find_build i) k)"
proof -
  have "db_ok (db t)" if ok: "db_ok (db s)" and run: "dbind (find_build i) k s = (r, t)" for s r t
    using run
  proof (cases rule: dbind_cases)
    case (1 e)
    then have "db t = db s"
      by (auto simp: find_build_def dbind_def map_err_def select_def statement_def raise_def ret_def
          split: prod.splits sum.splits option.splits if_splits)
    then show ?thesis using ok by simp
  next
    case (2 b u)
    then have "ok_with b (db u)"
      using ok by (auto simp: find_build_Inr intro: ok_with_own dest: find_build_by_id_Some)
    then show ?thesis using preservesD [OF assms _ 2(2)] by (simp add: ok_with_def)
  qed
  then show ?thesis unfolding preserves_def by blast
qed

definition released :: "build_state \<Rightarrow> timestamp option \<Rightarrow> bool" where
  "released status ended_at \<longleftrightarrow>
     status = Publishing \<and> ended_at = None \<or> status = Failed \<and> ended_at \<noteq> None"

lemma row_step_release:
  assumes "released status ended_at" and "moves build [Active] guard b"
  shows "row_step b (moved_to status (release_columns ended_at) b)"
proof -
  have b: "b_status b = Active" using assms(2) by (simp add: moves_def)
  from assms(1) show ?thesis unfolding released_def
  proof (elim disjE conjE)
    assume "status = Publishing" "ended_at = None"
    with row_step.hand_over [OF b] show ?thesis by (simp add: moved_to_def release_columns_def)
  next
    assume "status = Failed" "ended_at \<noteq> None"
    with row_step.worker_failed [OF b] show ?thesis by (auto simp: moved_to_def release_columns_def)
  qed
qed

lemma refines_release: "released status ended_at \<Longrightarrow> refines (release i w status ended_at)"
  unfolding release_def
  by (auto intro!: refine refines_transition row_step_release split: transition.splits)

lemma preserves_release: "released status ended_at \<Longrightarrow> preserves db_ok (release i w status ended_at)"
  unfolding release_def
  by (auto intro!: preserves_find_build_then pres preserves_transition row_step_release
      split: transition.splits)

lemma refines_accept [refine]: "refines (accept_for_publishing i w)"
  unfolding accept_for_publishing_def by (rule refines_release) (simp add: released_def)

lemma refines_complete_failure [refine]: "refines (complete_failure i w)"
  unfolding complete_failure_def by (intro refine refines_release) (simp add: released_def)

lemma preserves_accept [pres]: "preserves db_ok (accept_for_publishing i w)"
  unfolding accept_for_publishing_def by (rule preserves_release) (simp add: released_def)

lemma preserves_complete_failure [pres]: "preserves db_ok (complete_failure i w)"
  unfolding complete_failure_def by (intro pres preserves_release) (simp add: released_def)

lemma measured_sel [simp]:
  "b_id (measured report b) = b_id b" "b_pkg_id (measured report b) = b_pkg_id b"
  "b_number (measured report b) = b_number b" "b_status (measured report b) = b_status b"
  "b_platform (measured report b) = b_platform b" "b_worker_id (measured report b) = b_worker_id b"
  "b_lease_expires_at (measured report b) = b_lease_expires_at b"
  "b_start_time (measured report b) = b_start_time b" "b_trigger (measured report b) = b_trigger b"
  "b_end_reason (measured report b) = b_end_reason b" "b_end_time (measured report b) = b_end_time b"
  by (simp_all add: measured_def Let_def split: option.splits)

lemma row_step_measured: "row_step b (measured report b)"
  by (rule row_step.annotate) simp_all

lemma refines_record_measurements [refine]: "refines (record_measurements i report)"
  unfolding record_measurements_def by (auto intro!: refine refines_update_builds row_step_measured)

lemma preserves_record_measurements [pres]: "preserves db_ok (record_measurements i report)"
  unfolding record_measurements_def by (auto intro!: pres preserves_annotate row_step_measured)

lemma row_step_vcs: "row_step b (b\<lparr>b_vcs_sources := c\<rparr>)"
  by (rule row_step.annotate) simp_all

lemma refines_record_vcs [refine]: "refines (record_build_vcs_sources i commits)"
  unfolding record_build_vcs_sources_def by (auto intro!: refine refines_update_builds row_step_vcs)

lemma preserves_record_vcs [pres]: "preserves db_ok (record_build_vcs_sources i commits)"
  unfolding record_build_vcs_sources_def by (auto intro!: pres preserves_annotate row_step_vcs)

lemma refines_record_failed [refine]: "refines (record_failed name what r)"
  unfolding record_failed_def by (auto intro!: refine split: sum.splits option.splits)

lemma preserves_record_failed [pres]: "preserves I (record_failed name what r)"
  unfolding record_failed_def by (auto intro!: pres split: sum.splits option.splits)

lemma refines_emit_for [refine]: "refines (emit_for name ev)"
  unfolding emit_for_def by (auto intro!: refine split: option.splits)

lemma preserves_emit_for [pres]: "preserves I (emit_for name ev)"
  unfolding emit_for_def by (auto intro!: pres split: option.splits)

lemma refines_log_reason [refine]: "refines (log_reason name report)"
  unfolding log_reason_def by (auto intro!: refine split: option.splits)

lemma preserves_log_reason [pres]: "preserves I (log_reason name report)"
  unfolding log_reason_def by (auto intro!: pres split: option.splits)

lemma refines_report_abandoned [refine]: "refines (report_abandoned lost)"
  unfolding report_abandoned_def explain_def announce_retry_def build_refs_def
  by (auto intro!: refine split: option.splits retry.splits)

lemma preserves_report_abandoned [pres]: "preserves I (report_abandoned lost)"
  unfolding report_abandoned_def explain_def announce_retry_def build_refs_def
  by (auto intro!: pres split: option.splits retry.splits)

lemma refines_complete_success [refine]: "refines (complete_success wm name i report)"
  unfolding complete_success_def by (auto intro!: refine)

lemma preserves_complete_success [pres]: "preserves db_ok (complete_success wm name i report)"
  unfolding complete_success_def by (auto intro!: pres)

lemma refines_complete_interrupted [refine]: "refines (complete_interrupted wm m build)"
  unfolding complete_interrupted_def by (auto intro!: refine split: option.splits)

lemma preserves_abandon: "preserves (ok_with build) (abandon_build build reason m)"
  by (rule preserves_ok_with) (auto intro: refines_abandon keeps_abandon)

lemma preserves_complete_interrupted: "preserves (ok_with build) (complete_interrupted wm m build)"
  unfolding complete_interrupted_def by (auto intro!: pres preserves_abandon split: option.splits)

lemma refines_complete_ended [refine]: "refines (complete_ended wm m name build report)"
  unfolding complete_ended_def by (auto intro!: refine)

lemma preserves_complete_ended: "preserves (ok_with build) (complete_ended wm m name build report)"
proof -
  have "preserves (ok_with build) (complete_success wm name i report)" for i
    by (rule preserves_ok_with_any) (auto intro!: refine pres)
  moreover have "preserves (ok_with build) (complete_failure i w)" for i w
    by (rule preserves_ok_with_any) (auto intro!: refine pres)
  ultimately show ?thesis
    unfolding complete_ended_def by (auto intro!: pres preserves_complete_interrupted)
qed

lemma refines_complete_owned [refine]: "refines (complete_owned wm m build report)"
  unfolding complete_owned_def Let_def by (auto intro!: refine)

lemma preserves_complete_owned: "preserves (ok_with build) (complete_owned wm m build report)"
proof -
  have "preserves (ok_with build) (record_measurements i report)" for i
    by (rule preserves_ok_with_any) (auto intro!: refine pres)
  then show ?thesis
    unfolding complete_owned_def Let_def by (auto intro!: pres preserves_complete_ended)
qed

lemma refines_complete [refine]: "refines (complete wm m i report)"
  unfolding complete_def by (auto intro!: refine split: option.splits repeat.splits)

lemma preserves_complete: "preserves db_ok (complete wm m i report)"
  unfolding complete_def
  by (auto intro!: preserves_find_build_then pres preserves_complete_owned split: option.splits repeat.splits)

interpretation completion: build_program "\<lambda>_ _. True" "\<lambda>(wm, m, i, report). complete wm m i report"
  by unfold_locales (auto intro: refines_complete dest: preservesD [OF preserves_complete])

section \<open>What a report does to its build\<close>

definition row_is :: "id \<Rightarrow> build_state \<Rightarrow> id option \<Rightarrow> end_reason option \<Rightarrow> tables \<Rightarrow> bool" where
  "row_is i st w reason d \<longleftrightarrow>
     (case find_build_by_id i d of
        None \<Rightarrow> False
      | Some b \<Rightarrow> b_status b = st \<and> b_worker_id b = w \<and> b_end_reason b = reason)"

lemma find_build_refreshed [simp]: "find_build_by_id i (refreshed k d) = find_build_by_id i d"
  by (simp add: find_build_by_id_def)

lemma find_build_set_builds:
  assumes "\<And>b. b_id (f b) = b_id b"
  shows "find_build_by_id i (set_builds p f d) = map_option (\<lambda>b. if p b then f b else b) (find_build_by_id i d)"
proof -
  have "(\<lambda>b. b_id b = i) \<circ> (\<lambda>b. if p b then f b else b) = (\<lambda>b. b_id b = i)"
    using assms by (auto simp: comp_def)
  then show ?thesis by (simp add: find_build_by_id_def find_map)
qed

lemma row_is_unique: "row_is i st w r d \<Longrightarrow> row_is i st' w' r' d \<Longrightarrow> st' = st \<and> w' = w \<and> r' = r"
  by (auto simp: row_is_def split: option.splits)

lemma preserves_row_annotate:
  assumes "\<And>b. b_id (f b) = b_id b" "\<And>b. b_status (f b) = b_status b"
    "\<And>b. b_worker_id (f b) = b_worker_id b" "\<And>b. b_end_reason (f b) = b_end_reason b"
  shows "preserves (row_is i st w reason) (update_builds p f)"
  by (rule preserves_update_builds)
    (use assms in \<open>auto simp: row_is_def find_build_set_builds [OF assms(1)] split: option.splits\<close>)

lemma preserves_row_measure: "preserves (row_is i st w reason) (record_measurements j report)"
  unfolding record_measurements_def by (auto intro!: pres preserves_row_annotate)

lemma preserves_row_vcs: "preserves (row_is i st w reason) (record_build_vcs_sources j commits)"
  unfolding record_build_vcs_sources_def by (auto intro!: pres preserves_row_annotate)

lemma release_Inr:
  assumes run: "release i w status ended_at s = (Inr x, t)" and ids: "distinct (map b_id (builds (db s)))"
  shows "\<exists>b. find_build_by_id i (db s) = Some b \<and> b_status b = Active \<and> b_worker_id b = Some w \<and>
    find_build_by_id i (db t) = Some (moved_to status (release_columns ended_at) b)"
proof -
  let ?p = "\<lambda>b. moves b [Active] (\<lambda>b. b_worker_id b = Some w)"
  let ?f = "moved_to status (release_columns ended_at)"
  from run obtain b u where b: "find_build_by_id i (db s) = Some b"
    and tr: "transition b [Active] status (\<lambda>b. b_worker_id b = Some w) (release_columns ended_at) (tick s) =
      (Inr Moved, u)" and t: "t = u"
    by (auto simp: release_def db_simps find_build_Inr split: transition.splits) (metis transition.exhaust)
  from transition_Inr [OF tr] obtain x where x: "x \<in> set (builds (db s))" "?p b x"
    and u: "db u = refreshed (b_pkg_id b) (set_builds (?p b) ?f (db s))" by (auto split: if_splits)
  have "x = b"
    by (rule distinct_map_eq [OF ids])
      (use x find_build_by_id_Some [OF b] in \<open>auto simp: moves_def\<close>)
  moreover have "b_id (?f y) = b_id y" for y
    by (simp add: moved_to_def release_columns_def split: option.splits)
  ultimately show ?thesis using x b u t
    by (auto simp: find_build_set_builds moves_def)
qed

lemma accept_Inr:
  assumes "accept_for_publishing i w s = (Inr x, t)" "distinct (map b_id (builds (db s)))"
    "row_is i st w' r (db s)"
  shows "row_is i Publishing (Some w) r (db t)"
  using release_Inr [OF assms(1) [unfolded accept_for_publishing_def] assms(2)] assms(3)
  by (auto simp: row_is_def moved_to_def release_columns_def)

lemma complete_failure_Inr:
  assumes "complete_failure i w s = (Inr x, t)" "distinct (map b_id (builds (db s)))"
    "row_is i st w' r (db s)"
  shows "row_is i Failed (Some w) r (db t)"
proof -
  from assms(1) have "release i w Failed (Some (clock s)) s = (Inr x, t)"
    by (simp add: complete_failure_def db_simps)
  from release_Inr [OF this assms(2)] assms(3) show ?thesis
    by (auto simp: row_is_def moved_to_def release_columns_def)
qed

lemma abandon_row_is:
  assumes run: "abandon_build build reason m s = (Inr (Some a), t)" and ok: "ok_with build (db s)"
  shows "row_is (b_id build) Failed (b_worker_id build) (Some reason) (db t)"
proof -
  from abandon_Inr [OF run] obtain b where b: "b \<in> set (builds (db s))" "still_held build b"
    and t: "db t = snd (abandon_effect build (clock s) reason m (db s))" by auto
  have "ended (clock s) reason b \<in> set (builds (db t))"
    unfolding t by (rule abandon_effect_rows(2) [OF b])
  moreover have "distinct (map b_id (builds (db t)))"
    using preservesD [OF preserves_abandon ok run] by (auto simp: ok_with_def dest: db_okD(4))
  ultimately have "find_build_by_id (b_id b) (db t) = Some (ended (clock s) reason b)"
    using find_build_by_id_mem by fastforce
  with b(2) show ?thesis by (simp add: row_is_def still_held_def)
qed

text \<open>The state a report leaves its build in.\<close>

fun final_state :: "build_outcome \<Rightarrow> build_state \<times> end_reason option" where
  "final_state Outcome_Succeeded = (Publishing, None)"
| "final_state Outcome_Failed = (Failed, None)"
| "final_state Outcome_Canceled = (Failed, None)"
| "final_state Outcome_Interrupted = (Failed, Some Interrupted)"

definition ok_row :: "build \<Rightarrow> id \<Rightarrow> tables \<Rightarrow> bool" where
  "ok_row b w d \<longleftrightarrow> ok_with b d \<and> row_is (b_id b) Active (Some w) None d"

lemma preserves_conj: "preserves I m \<Longrightarrow> preserves J m \<Longrightarrow> preserves (\<lambda>d. I d \<and> J d) m"
  unfolding preserves_def by blast

lemma preserves_ok_row:
  "preserves db_ok m \<Longrightarrow> refines m \<Longrightarrow> preserves (row_is (b_id b) Active (Some w) None) m \<Longrightarrow>
   preserves (ok_row b w) m"
  unfolding ok_row_def [abs_def] by (intro preserves_conj preserves_ok_with_any)

lemma ok_rowD: "ok_row b w d \<Longrightarrow> distinct (map b_id (builds d)) \<and> row_is (b_id b) Active (Some w) None d \<and> ok_with b d"
  by (auto simp: ok_row_def ok_with_def dest: db_okD(4))

lemma ok_row_record [pres]:
  "preserves (ok_row b w) (dbind (attempt (record_measurements i report)) (record_failed name what))"
  "preserves (ok_row b w) (dbind (attempt (record_build_vcs_sources i commits)) (record_failed name what))"
  by (rule preserves_ok_row; auto intro!: pres refine preserves_row_measure preserves_row_vcs)+

lemma complete_success_Inr:
  assumes run: "complete_success wm name (b_id b) report s = (Inr x, t)" and ok: "ok_row b (w_id wm) (db s)"
  shows "row_is (b_id b) Publishing (Some (w_id wm)) None (db t)" and "PublishSpawned (b_id b) \<in> set (effects t)"
proof -
  let ?pre = "if cr_vcs_commits report \<noteq> [] then
      dbind (attempt (record_build_vcs_sources (b_id b) (cr_vcs_commits report)))
        (record_failed name ''built VCS sources'') else ret () :: unit cm"
  from run obtain y u v z where u: "?pre s = (Inr y, u)"
    and v: "accept_for_publishing (b_id b) (w_id wm) u = (Inr z, v)"
    and t: "db t = db v" "PublishSpawned (b_id b) \<in> set (effects t)"
    by (auto simp: complete_success_def dthen_Inr db_simps emit_for_def split: option.splits if_splits)
  have "preserves (ok_row b (w_id wm)) ?pre" by (auto intro!: pres)
  from preservesD [OF this ok u] have "ok_row b (w_id wm) (db u)" .
  with accept_Inr [OF v] t show "row_is (b_id b) Publishing (Some (w_id wm)) None (db t)"
    by (auto dest!: ok_rowD)
  show "PublishSpawned (b_id b) \<in> set (effects t)" by (rule t)
qed

lemma complete_interrupted_Inr:
  assumes run: "complete_interrupted wm m b s = (Inr x, t)" and ok: "ok_with b (db s)"
    and w: "b_worker_id b = Some w"
  shows "row_is (b_id b) Failed (Some w) (Some Interrupted) (db t)"
proof -
  from run obtain r u where r: "abandon_build b Interrupted m s = (Inr r, u)"
    and rest: "(case r of
       None \<Rightarrow> raise (lease_lost (b_id b) (w_id wm))
     | Some abandoned \<Rightarrow>
         dthen (report_abandoned [abandoned])
         (dthen (perform (StagingDiscarded (b_id b))) (ret Accepted))) u = (Inr x, t)"
    unfolding complete_interrupted_def dbind_Inr map_err_Inr by blast
  from rest obtain a where r_eq: "r = Some a" by (cases r) (auto simp: raise_iff)
  from rest obtain v y where v: "(report_abandoned [a] :: unit cm) u = (Inr y, v)" and t: "db t = db v"
    unfolding r_eq by (auto simp: db_simps)
  note a = r [unfolded r_eq]
  have "row_is (b_id b) Failed (Some w) (Some Interrupted) (db u)" using abandon_row_is [OF a ok] w by simp
  then have "row_is (b_id b) Failed (Some w) (Some Interrupted) (db v)"
    using v by (rule preservesD [OF preserves_report_abandoned])
  then show ?thesis unfolding t .
qed

lemma row_ok_no_reason: "db_ok d \<Longrightarrow> b \<in> set (builds d) \<Longrightarrow> b_status b = Active \<Longrightarrow> b_end_reason b = None"
  using db_okD(1) [of d] by (auto simp: ledger_ok_def rows_ok_def row_ok_def ledger_def)

lemma complete_ended_Inr:
  assumes run: "complete_ended wm m name b report s = (Inr x, t)" and ok: "ok_row b (w_id wm) (db s)"
    and w: "b_worker_id b = Some (w_id wm)"
  shows "row_is (b_id b) (fst (final_state (cr_outcome report))) (Some (w_id wm))
      (snd (final_state (cr_outcome report))) (db t)"
    and "cr_outcome report = Outcome_Succeeded \<Longrightarrow> PublishSpawned (b_id b) \<in> set (effects t)"
proof -
  show "PublishSpawned (b_id b) \<in> set (effects t)" if "cr_outcome report = Outcome_Succeeded"
    using run that complete_success_Inr(2) [OF _ ok] by (auto simp: complete_ended_def)
  have log: "ok_row b (w_id wm) (db u)" if "(log_reason name report :: unit cm) s = (Inr y, u)" for y u
    using ok that by (rule preservesD [OF preserves_log_reason])
  have fail: "row_is (b_id b) Failed (Some (w_id wm)) None (db t)"
    if "cr_outcome report \<noteq> Outcome_Succeeded" "cr_outcome report \<noteq> Outcome_Interrupted"
  proof -
    from run that obtain y u v z where u: "(log_reason name report :: unit cm) s = (Inr y, u)"
      and v: "complete_failure (b_id b) (w_id wm) u = (Inr z, v)" and "db t = db v"
      by (auto simp: complete_ended_def db_simps emit_for_def split: option.splits)
    with complete_failure_Inr [OF v] ok_rowD [OF log [OF u]] show ?thesis by auto
  qed
  show "row_is (b_id b) (fst (final_state (cr_outcome report))) (Some (w_id wm))
      (snd (final_state (cr_outcome report))) (db t)"
  proof (cases "cr_outcome report")
    case Outcome_Succeeded
    with run complete_success_Inr(1) [OF _ ok] show ?thesis by (simp add: complete_ended_def)
  next
    case Outcome_Interrupted
    with run obtain y u where u: "(log_reason name report :: unit cm) s = (Inr y, u)"
      and "complete_interrupted wm m b u = (Inr x, t)"
      by (auto simp: complete_ended_def dthen_Inr)
    with complete_interrupted_Inr [OF this(2) _ w] ok_rowD [OF log [OF u]] Outcome_Interrupted
    show ?thesis by auto
  qed (use fail in auto)
qed

lemma complete_Accepted:
  assumes run: "complete wm m i report s = (Inr Accepted, t)" and ok: "db_ok (db s)"
  shows "row_is i Active (Some (w_id wm)) None (db s)"
    and "row_is i (fst (final_state (cr_outcome report))) (Some (w_id wm))
      (snd (final_state (cr_outcome report))) (db t)"
    and "cr_outcome report = Outcome_Succeeded \<Longrightarrow> PublishSpawned i \<in> set (effects t)"
proof -
  from run obtain b where b: "find_build_by_id i (db s) = Some b"
    and rest: "complete_owned wm m b report (tick s) = (Inr Accepted, t)"
    by (auto simp: complete_def dbind_Inr find_build_Inr db_simps split: option.splits repeat.splits)
      (metis (no_types) completion.distinct(1) repeat.exhaust)
  have bi: "b_id b = i" "b \<in> set (builds (db s))" using find_build_by_id_Some [OF b] by auto
  from rest have owned: "b_status b = Active" "b_worker_id b = Some (w_id wm)"
    by (auto simp: complete_owned_def dthen_Inr checked_def check_owned_active_def check_owned_def raise_iff
        split: if_splits)
  have row: "row_is i Active (Some (w_id wm)) None (db s)"
    using b owned row_ok_no_reason [OF ok bi(2)] by (simp add: row_is_def)
  then have ok_row: "ok_row b (w_id wm) (db s)"
    using ok_with_own [OF ok bi(2)] bi by (simp add: ok_row_def)
  from rest owned obtain name v where pre: "ok_row b (w_id wm) (db v)"
    and v: "complete_ended wm m name b report v = (Inr Accepted, t)"
  proof -
    from rest owned obtain pkg u y where
      y: "(let name = (case pkg of Inr (Some p) \<Rightarrow> Some \<lparr>pkgbase = p_name p, number = b_number b\<rparr> | _ \<Rightarrow> None) in
        dthen (dbind (attempt (record_measurements (b_id b) report)) (record_failed name ''measurements''))
          (complete_ended wm m name b report)) u = (Inr Accepted, t)"
      and u: "select (find_package_by_id (b_pkg_id b)) (tick s) = (pkg, u)"
      unfolding complete_owned_def dthen_Inr dbind_Inr
      by (auto simp: checked_def check_owned_active_def check_owned_def ret_iff attempt_iff)
    have "ok_row b (w_id wm) (db u)"
      using select_cases(1) [OF u] ok_row by simp
    then show ?thesis
      using y that preservesD [OF ok_row_record(1)] unfolding Let_def dthen_Inr by blast
  qed
  show "row_is i Active (Some (w_id wm)) None (db s)" by (rule row)
  show "row_is i (fst (final_state (cr_outcome report))) (Some (w_id wm))
      (snd (final_state (cr_outcome report))) (db t)"
    using complete_ended_Inr(1) [OF v pre owned(2)] bi by simp
  show "PublishSpawned i \<in> set (effects t)" if "cr_outcome report = Outcome_Succeeded"
    using complete_ended_Inr(2) [OF v pre owned(2) that] bi by simp
qed

end
