(* ===== verification/Dependents.thy ===== *)
theory Dependents
  imports Completion
begin

text \<open>
  What the reports, cancellations and deletions of \<open>Completion\<close> leave alone, and which
  waiting builds a finished build lets go.
\<close>

section \<open>Refused and repeated reports\<close>

lemma complete_owned_refused:
  assumes "b_status b \<noteq> Active \<or> b_worker_id b \<noteq> Some (w_id wm)"
  shows "complete_owned wm m b report s = (Inl (LeaseLost (b_id b) (w_id wm)), s)"
  using assms
  by (simp add: complete_owned_def dthen_def dbind_def checked_def check_owned_active_def check_owned_def
      raise_def lease_lost_def)

lemma complete_run:
  assumes "up s" and b: "find_build_by_id i (db s) = Some b"
  shows "complete wm m i report s =
    (case repeat b report (w_id wm) of
       Some Repeat_Abort \<Rightarrow> (Inr AlreadyAccepted, (tick s)\<lparr>effects := effects s @ [StagingDiscarded i]\<rparr>)
     | Some Repeat_Success \<Rightarrow> (Inr AlreadyAccepted, tick s)
     | None \<Rightarrow> complete_owned wm m b report (tick s))"
proof -
  have "find_build i s = (Inr b, tick s)" using assms by (simp add: find_build_Inr)
  then show ?thesis
    by (auto simp: complete_def dbind_def dthen_def perform_def ret_def tick_def
        split: option.splits repeat.splits)
qed

section \<open>Cancelling and deleting\<close>

definition cancelled :: "timestamp \<Rightarrow> build \<Rightarrow> build" where
  "cancelled now b = b\<lparr>b_status := Failed, b_end_time := Some now, b_end_reason := Some Canceled,
     b_lease_expires_at := None\<rparr>"

lemma cancel_eq: "moved_to Failed
    (\<lambda>b. b\<lparr>b_end_time := Some now, b_end_reason := Some Canceled, b_lease_expires_at := None\<rparr>) = cancelled now"
  by (rule ext) (simp add: moved_to_def cancelled_def)

lemma row_step_cancelled:
  assumes "moves build CANCELLABLE guard b"
  shows "row_step b (moved_to Failed
    (\<lambda>b. b\<lparr>b_end_time := Some now, b_end_reason := Some Canceled, b_lease_expires_at := None\<rparr>) b)"
proof -
  have "row_step b (b\<lparr>b_status := Failed, b_end_time := Some now, b_lease_expires_at := None,
      b_end_reason := Some Canceled\<rparr>)"
    by (rule row_step.cancel) (use assms in \<open>auto simp: moves_def CANCELLABLE_def\<close>)
  also have "b\<lparr>b_status := Failed, b_end_time := Some now, b_lease_expires_at := None,
      b_end_reason := Some Canceled\<rparr> = cancelled now b"
    by (cases b) (simp add: cancelled_def)
  finally show ?thesis by (simp add: cancel_eq)
qed

lemma refines_cancel [refine]: "refines (cancel_build base build)"
  unfolding cancel_build_def by (auto intro!: refine refines_transition row_step_cancelled)

lemma preserves_cancel: "preserves (ok_with build) (cancel_build base build)"
  unfolding cancel_build_def by (auto intro!: pres preserves_transition row_step_cancelled)

interpretation cancelling: build_program "\<lambda>(_, build) d. follows build (ledger d)"
    "\<lambda>(base, build). cancel_build base build"
  by unfold_locales
    (auto intro: refines_cancel preserves_ok_withD [OF preserves_cancel])

lemma refines_delete [refine]: "refines (delete_build base build)"
  unfolding delete_build_def by (auto intro!: refine)

lemma preserves_delete: "preserves (ok_with build) (delete_build base build)"
  unfolding delete_build_def by (auto intro!: pres preserves_delete_build_row)

interpretation deleting: build_program "\<lambda>(_, build) d. follows build (ledger d)"
    "\<lambda>(base, build). delete_build base build"
  by unfold_locales
    (auto intro: refines_delete preserves_ok_withD [OF preserves_delete])

lemma cancel_Inr:
  assumes "cancel_build base build s = (Inr r, t)"
  shows "if \<exists>b \<in> set (builds (db s)). b_id b = b_id build \<and> b_status b \<in> {Active, Enqueued, WaitingForDeps}
    then r = Cancelled \<and> db t = refreshed (b_pkg_id build)
      (set_builds (\<lambda>b. b_id b = b_id build \<and> b_status b \<in> {Active, Enqueued, WaitingForDeps})
        (cancelled (clock s)) (db s))
    else r = Settled \<and> db t = db s"
proof -
  have m: "moves build CANCELLABLE (\<lambda>_. True) =
      (\<lambda>b. b_id b = b_id build \<and> b_status b \<in> {Active, Enqueued, WaitingForDeps})"
    by (rule ext) (simp add: moves_def CANCELLABLE_def)
  from assms obtain moved u where
    tr: "transition build CANCELLABLE Failed (\<lambda>_. True)
      (\<lambda>b. b\<lparr>b_end_time := Some (clock s), b_end_reason := Some Canceled, b_lease_expires_at := None\<rparr>) s =
      (Inr moved, u)"
    and r: "r = (if moved = Unchanged then Settled else Cancelled)" and t: "db t = db u"
    by (auto simp: cancel_build_def db_simps split: if_splits)
  from transition_Inr [OF tr] r t show ?thesis unfolding m cancel_eq by (simp split: if_splits)
qed

section \<open>Dependencies\<close>

definition dep_met :: "'v alpm \<Rightarrow> platform \<Rightarrow> tables \<Rightarrow> dependency \<Rightarrow> bool" where
  "dep_met A pf d e \<longleftrightarrow>
     (case newest_success (d_dependee_id e) (Some pf) d of
        None \<Rightarrow> False
      | Some b \<Rightarrow> b_version b \<noteq> [] \<and> satisfies_constraint A (b_version b) (d_version_constraint e))"

lemma dependencies_satisfied_Inr:
  "dependencies_satisfied A deps pf s = (Inr ok, t) \<Longrightarrow>
     ok = (\<forall>e \<in> set deps. dep_met A pf (db s) e) \<and> db t = db s"
proof (induction deps arbitrary: s)
  case Nil
  then show ?case by (simp add: ret_iff)
next
  case (Cons e deps)
  from Cons.prems obtain met u where
    d: "dependency_satisfied A (d_dependee_id e) pf (d_version_constraint e) s = (Inr met, u)"
    and rest: "(if \<not> met then ret False else dependencies_satisfied A deps pf) u = (Inr ok, t)"
    by (auto simp: dbind_Inr)
  from d have met: "met = dep_met A pf (db s) e" "db u = db s"
    by (auto simp: db_simps dependency_satisfied_def latest_successful_version_def dep_met_def
        known_version_def split: option.splits)
  show ?case
  proof (cases met)
    case True
    with Cons.IH [of u] rest met show ?thesis by simp
  next
    case False
    with rest met show ?thesis by (auto simp: ret_iff)
  qed
qed

lemma refines_dependencies_satisfied [refine]: "refines (dependencies_satisfied A deps pf)"
  by (induction deps) (auto intro!: refine simp: dependency_satisfied_def latest_successful_version_def)

lemma preserves_dependencies_satisfied [pres]: "preserves I (dependencies_satisfied A deps pf)"
  by (induction deps) (auto intro!: pres simp: dependency_satisfied_def latest_successful_version_def)

lemma preserves_promote [pres]: "preserves db_ok (promote_waiting_build pkg_id pf)"
  unfolding preserves_def by (blast intro: keeps_promote)

lemma preserves_demote [pres]: "preserves db_ok (demote_enqueued_build pkg_id pf)"
  unfolding preserves_def by (blast intro: keeps_demote)

lemma refines_promote_dependent [refine]: "refines (promote_dependent i pf)"
  unfolding promote_dependent_def Let_def by (auto intro!: refine split: option.splits)

lemma preserves_promote_dependent [pres]: "preserves db_ok (promote_dependent i pf)"
  unfolding promote_dependent_def Let_def by (auto intro!: pres split: option.splits)

lemma refines_trigger_dependents [refine]: "refines (trigger_dependents A iter pkg_id pf)"
  unfolding trigger_dependents_def load_dependencies_for_dependents_of_def trigger_dependent_def
  by (auto intro!: refine split: prod.splits)

lemma preserves_trigger_dependents [pres]: "preserves db_ok (trigger_dependents A iter pkg_id pf)"
  unfolding trigger_dependents_def load_dependencies_for_dependents_of_def trigger_dependent_def
  by (auto intro!: pres split: prod.splits)

interpretation dependents: build_program "\<lambda>_ _. True"
    "\<lambda>(pkg_id, pf). trigger_dependents A iter pkg_id pf" for A iter
  by unfold_locales (auto intro: refines_trigger_dependents dest: preservesD [OF preserves_trigger_dependents])

lemma refines_resync [refine]: "refines (resync_pending_builds A pkg_id)"
  unfolding resync_pending_builds_def resync_pending_build_def by (auto intro!: refine)

lemma preserves_resync [pres]: "preserves db_ok (resync_pending_builds A pkg_id)"
  unfolding resync_pending_builds_def resync_pending_build_def by (auto intro!: pres)

interpretation resync: build_program "\<lambda>_ _. True" "\<lambda>pkg_id. resync_pending_builds A pkg_id" for A
  by unfold_locales (auto intro: refines_resync dest: preservesD [OF preserves_resync])

section \<open>No dependent is left waiting\<close>

definition no_waiting :: "id \<Rightarrow> platform \<Rightarrow> tables \<Rightarrow> bool" where
  "no_waiting i pf d \<longleftrightarrow> (\<forall>b \<in> set (builds d). \<not> is_waiting_for i pf b)"

definition builds_on :: "id \<Rightarrow> platform \<Rightarrow> tables \<Rightarrow> bool" where
  "builds_on i pf d \<longleftrightarrow>
     (case find_package_by_id i d of
        None \<Rightarrow> False
      | Some p \<Rightarrow> unwrap_or_default (p_platforms p) = [] \<or> pf \<in> set (unwrap_or_default (p_platforms p)))"

definition releasable :: "'v alpm \<Rightarrow> platform \<Rightarrow> id \<Rightarrow> dependency list \<Rightarrow> tables \<Rightarrow> bool" where
  "releasable A pf i deps d \<longleftrightarrow> (\<forall>e \<in> set deps. dep_met A pf d e) \<and> builds_on i pf d"

lemma preserves_refresh:
  assumes "\<And>st d. I d \<Longrightarrow> I (set_packages (\<lambda>p. p_id p = k) (\<lambda>p. p\<lparr>p_status := st\<rparr>) d)"
  shows "preserves I (refresh_package_status k)"
  unfolding refresh_package_status_def Let_def
  by (auto intro!: pres preserves_modify assms split: option.splits)

lemma find_package_status:
  "find_package_by_id i (set_packages (\<lambda>p. p_id p = k) (\<lambda>p. p\<lparr>p_status := st\<rparr>) d) =
   map_option (\<lambda>p. if p_id p = k then p\<lparr>p_status := st\<rparr> else p) (find_package_by_id i d)"
proof -
  have "(\<lambda>p. p_id p = i) \<circ> (\<lambda>p :: package. if p_id p = k then p\<lparr>p_status := st\<rparr> else p) = (\<lambda>p. p_id p = i)"
    by (auto simp: comp_def)
  then show ?thesis by (simp add: find_package_by_id_def find_map)
qed

lemma promoting_keeps:
  assumes pkgs: "\<And>st k d. I d \<Longrightarrow> I (set_packages (\<lambda>p. p_id p = k) (\<lambda>p. p\<lparr>p_status := st\<rparr>) d)"
    and rows: "\<And>p d. (\<And>b. p b \<Longrightarrow> b_status b = WaitingForDeps) \<Longrightarrow> I d \<Longrightarrow>
      I (set_builds p (\<lambda>b. b\<lparr>b_status := Enqueued\<rparr>) d)"
  shows "preserves I (trigger_dependent A pf x)"
proof -
  have "preserves I (promote_waiting_build i pf)" for i
    unfolding promote_waiting_build_def
    by (auto intro!: pres preserves_update_builds preserves_refresh rows pkgs split: option.splits)
  then show ?thesis unfolding trigger_dependent_def promote_dependent_def Let_def
    by (auto intro!: pres split: option.splits prod.splits)
qed

lemma newest_success_packages [simp]: "newest_success i q (set_packages p f d) = newest_success i q d"
  by (simp add: newest_success_def)

lemma newest_success_promoted:
  assumes "\<And>b. p b \<Longrightarrow> b_status b = WaitingForDeps"
  shows "newest_success i q (set_builds p (\<lambda>b. b\<lparr>b_status := Enqueued\<rparr>) d) = newest_success i q d"
proof -
  have "filter (\<lambda>b. b_pkg_id b = i \<and> b_status b = Successful \<and> R b)
      (map (\<lambda>b. if p b then b\<lparr>b_status := Enqueued\<rparr> else b) bs) =
    filter (\<lambda>b. b_pkg_id b = i \<and> b_status b = Successful \<and> R b) bs" for R bs
    using assms by (induction bs) auto
  then show ?thesis by (simp add: newest_success_def)
qed

lemma releasable_kept: "preserves (releasable A pf i deps) (trigger_dependent A pf x)"
  by (rule promoting_keeps)
    (auto simp: releasable_def builds_on_def dep_met_def newest_success_promoted find_package_status
      split: option.splits)

lemma no_waiting_kept: "preserves (no_waiting i pf) (trigger_dependent A q x)"
  by (rule promoting_keeps) (auto simp: no_waiting_def is_waiting_for_def)

lemma promote_leaves_none:
  assumes run: "promote_waiting_build i pf s = (Inr r, t)" and ok: "db_ok (db s)"
  shows "no_waiting i pf (db t)"
  using promote_Inr [OF run]
proof
  assume "\<exists>b. find (is_waiting_for i pf) (builds (db s)) = Some b \<and> r = Some (b\<lparr>b_status := Enqueued\<rparr>) \<and>
    db t = refreshed i (promoted_row b (db s))"
  then obtain b where b: "b \<in> set (builds (db s))" "is_waiting_for i pf b"
    and t: "db t = refreshed i (promoted_row b (db s))" by (auto dest!: find_Some_mem)
  have "x = b" if "x \<in> set (builds (db s))" "is_waiting_for i pf x" for x
    by (rule ledger_ok_one_pending [OF db_okD(1) [OF ok]])
      (use that b in \<open>auto simp: ledger_def is_waiting_for_def\<close>)
  then show ?thesis unfolding t no_waiting_def by (auto simp: promoted_row_def is_waiting_for_def split: if_splits)
qed (auto simp: no_waiting_def find_None_iff_ball)

lemma trigger_dependent_Inr:
  assumes run: "trigger_dependent A pf (i, deps) s = (Inr r, t)" and ok: "db_ok (db s)"
    and rel: "releasable A pf i deps (db s)"
  shows "no_waiting i pf (db t)"
proof -
  obtain p where p: "find_package_by_id i (db s) = Some p"
      "unwrap_or_default (p_platforms p) = [] \<or> pf \<in> set (unwrap_or_default (p_platforms p))"
    using rel by (auto simp: releasable_def builds_on_def split: option.splits)
  have i: "p_id p = i" using find_package_by_id_Some [OF p(1)] by simp
  from run obtain met u where met: "dependencies_satisfied A deps pf s = (Inr met, u)"
    and rest: "(if met then promote_dependent i pf else ret None) u = (Inr r, t)"
    by (auto simp: trigger_dependent_def dbind_Inr)
  have met_u: "met" "db u = db s"
    using dependencies_satisfied_Inr [OF met] rel by (auto simp: releasable_def)
  with rest p i obtain q v where q: "promote_waiting_build i pf v = (Inr q, t)" and v: "db v = db s"
    by (auto simp: promote_dependent_def db_simps)
  show ?thesis by (rule promote_leaves_none [OF q]) (simp add: v ok)
qed

lemma preserves_trigger_dependent [pres]: "preserves db_ok (trigger_dependent A pf x)"
  unfolding trigger_dependent_def by (auto intro!: pres split: prod.splits)

lemma trigger_all:
  "for_each (trigger_dependent A pf) xs s = (Inr rs, t) \<Longrightarrow> db_ok (db s) \<Longrightarrow> (i, deps) \<in> set xs \<Longrightarrow>
   releasable A pf i deps (db s) \<Longrightarrow> no_waiting i pf (db t)"
proof (induction xs arbitrary: s rs)
  case Nil
  then show ?case by simp
next
  case (Cons x xs)
  from Cons.prems(1) obtain y ys u where x: "trigger_dependent A pf x s = (Inr y, u)"
    and xs: "for_each (trigger_dependent A pf) xs u = (Inr ys, t)"
    unfolding for_each_Inr_Cons by blast
  have u: "db_ok (db u)" "releasable A pf i deps (db u)"
    using preservesD [OF preserves_trigger_dependent Cons.prems(2) x]
      preservesD [OF releasable_kept Cons.prems(4) x] by auto
  show ?case
  proof (cases "(i, deps) \<in> set xs")
    case True
    with Cons.IH [OF xs u(1)] u(2) show ?thesis by blast
  next
    case False
    with Cons.prems(3) have "x = (i, deps)" by auto
    with x Cons.prems have "no_waiting i pf (db u)" by (auto intro: trigger_dependent_Inr)
    then show ?thesis
      by (rule preservesD [OF preserves_for_each [OF no_waiting_kept] _ xs])
  qed
qed

lemma trigger_dependents_releases:
  assumes run: "trigger_dependents A iter pkg_id pf s = (Inr refs, t)" and ok: "db_ok (db s)"
    and iter: "\<And>xs. set (iter xs) = set xs"
    and e: "e \<in> set (dependencies (db s))" "d_dependee_id e = pkg_id"
    and rel: "releasable A pf (d_dependent_id e)
      (filter (\<lambda>x. d_dependent_id x = d_dependent_id e) (dependencies (db s))) (db s)"
  shows "no_waiting (d_dependent_id e) pf (db t)"
proof -
  let ?ids = "map d_dependent_id (filter (\<lambda>x. d_dependee_id x = pkg_id) (dependencies (db s)))"
  let ?deps = "filter (\<lambda>x. d_dependent_id x \<in> set ?ids) (dependencies (db s))"
  let ?xs = "map (\<lambda>i. (i, filter (\<lambda>x. d_dependent_id x = i) ?deps)) (remdups (map d_dependent_id ?deps))"
  have ids: "d_dependent_id e \<in> set ?ids" using e by auto
  have ne: "?ids \<noteq> []" using e by (auto simp: filter_empty_conv)
  from run obtain rs u ys where load: "load_dependencies_for_dependents_of pkg_id s = (Inr ys, u)"
    and ys: "for_each (trigger_dependent A pf) (iter ys) u = (Inr rs, t)"
    by (auto simp: trigger_dependents_def db_simps)
  from load ne have u: "db u = db s" and "ys = ?xs"
    unfolding load_dependencies_for_dependents_of_def dbind_Inr select_Inr by (auto simp: db_simps)
  with ys have xs: "for_each (trigger_dependent A pf) (iter ?xs) u = (Inr rs, t)" by simp
  have "filter (\<lambda>x. d_dependent_id x = d_dependent_id e) ?deps =
      filter (\<lambda>x. d_dependent_id x = d_dependent_id e) (dependencies (db s))"
    using ids by (auto intro!: filter_cong)
  moreover have "d_dependent_id e \<in> set (map d_dependent_id ?deps)" using e ids by auto
  ultimately have "(d_dependent_id e, filter (\<lambda>x. d_dependent_id x = d_dependent_id e) (dependencies (db s)))
      \<in> set (iter ?xs)" unfolding iter by force
  then show ?thesis using trigger_all [OF xs] ok rel u by simp
qed

section \<open>Properties of reports\<close>

lemma row_isD:
  assumes "row_is i st w reason d"
  obtains b where "find_build_by_id i d = Some b" "b_status b = st" "b_worker_id b = w" "b_end_reason b = reason"
  using assms by (auto simp: row_is_def split: option.splits)

lemma complete_running:
  assumes "outage s = None" and "find_build_by_id i (db s) = Some b"
  shows "complete wm m i report s =
    (case repeat b report (w_id wm) of
       Some Repeat_Abort \<Rightarrow> (Inr AlreadyAccepted, s\<lparr>effects := effects s @ [StagingDiscarded i]\<rparr>)
     | Some Repeat_Success \<Rightarrow> (Inr AlreadyAccepted, s)
     | None \<Rightarrow> complete_owned wm m b report s)"
  using complete_run [OF up_None [OF assms(1)] assms(2), of wm m report] unfolding tick_None [OF assms(1)] .

definition report_of :: "build_outcome \<Rightarrow> complete_report" where
  "report_of outcome = \<lparr>cr_outcome = outcome, cr_exit_code = None, cr_reason = None, cr_peak_memory_bytes = Some 7,
     cr_disk_usage = None, cr_vcs_commits = [], cr_kept = None\<rparr>"

definition sample_owner :: worker where
  "sample_owner = sample_worker 1 ''one'' [] 0"

lemma sample_accepted:
  "fst (complete sample_owner 3 2 (report_of Outcome_Succeeded) sample_server) = Inr Accepted"
  "fst (complete sample_owner 3 2 (report_of Outcome_Failed) sample_server) = Inr Accepted"
  "outage (snd (complete sample_owner 3 2 (report_of Outcome_Succeeded) sample_server)) = None"
  "outage (snd (complete sample_owner 3 2 (report_of Outcome_Failed) sample_server)) = None"
  by code_simp+

text \<open>C18: A report is accepted only for a build that is active under the very worker that reports it, and
  then the build is, in the tables, what the report says: being published after a success, with
  the publication started; failed without a reason after a failure or a cancellation; failed as
  interrupted after an interruption.\<close>

theorem accepted_report:
  assumes "db_ok (db s)" and "complete wm m i report s = (Inr Accepted, t)"
  shows "row_is i Active (Some (w_id wm)) None (db s) \<and>
    row_is i (fst (final_state (cr_outcome report))) (Some (w_id wm)) (snd (final_state (cr_outcome report))) (db t) \<and>
    (cr_outcome report = Outcome_Succeeded \<longrightarrow> PublishSpawned i \<in> set (effects t))"
  using complete_Accepted [OF assms(2,1)] by blast

theorem accepted_report_witness:
  "fst (complete sample_owner 3 2 (report_of Outcome_Succeeded) sample_server) = Inr Accepted \<and>
   row_is 2 Publishing (Some 1) None (db (snd (complete sample_owner 3 2 (report_of Outcome_Succeeded) sample_server)))"
  using accepted_report [of sample_server sample_owner 3 2 "report_of Outcome_Succeeded"] sample_accepted(1) sample_db_ok
  by (cases "complete sample_owner 3 2 (report_of Outcome_Succeeded) sample_server")
    (simp add: report_of_def sample_owner_def sample_worker_def)

text \<open>C19: A report about an unknown build, or from a worker the build is not recorded under, is refused
  and has no effect whatever: no row changes, nothing is logged, staged or published.\<close>

theorem foreign_report_refused:
  assumes "outage s = None"
  shows "case find_build_by_id i (db s) of
      None \<Rightarrow> complete wm m i report s = (Inl (NotFound i), s)
    | Some b \<Rightarrow> b_worker_id b \<noteq> Some (w_id wm) \<longrightarrow>
        complete wm m i report s = (Inl (LeaseLost i (w_id wm)), s)"
proof (cases "find_build_by_id i (db s)")
  case None
  with assms show ?thesis
    by (simp add: complete_def find_build_def dbind_def map_err_def select_def statement_def up_None raise_def tick_None)
next
  case (Some b)
  then have "b_id b = i" by (auto dest: find_build_by_id_Some)
  then show ?thesis using complete_running [OF assms Some] complete_owned_refused [of b wm m report s] Some
    by (simp add: repeat_def)
qed

theorem foreign_report_refused_witness:
  "complete (sample_worker 2 ''two'' [] 0) 3 2 (report_of Outcome_Succeeded) sample_server =
     (Inl (LeaseLost 2 2), sample_server)"
proof -
  have "map_option b_worker_id (find_build_by_id 2 sample_tables) = Some (Some 1)" by code_simp
  then obtain b where "find_build_by_id 2 sample_tables = Some b" "b_worker_id b = Some 1" by auto
  moreover have "w_id (sample_worker 2 ''two'' [] 0) = 2" by (simp add: sample_worker_def)
  ultimately show ?thesis
    using foreign_report_refused [of sample_server "sample_worker 2 ''two'' [] 0" 3 2 "report_of Outcome_Succeeded"]
    by simp
qed

text \<open>A repeated failure report, unlike the others, is refused as a lost lease, although the first was
  accepted; nothing changes.\<close>

theorem repeated_failure_refused:
  assumes ok: "db_ok (db s)" and run: "complete wm m i report s = (Inr Accepted, t)"
    and out: "cr_outcome report = Outcome_Failed" and up: "outage t = None"
  shows "complete wm m i report t = (Inl (LeaseLost i (w_id wm)), t)"
proof -
  obtain b where b: "find_build_by_id i (db t) = Some b" "b_status b = Failed"
    using row_isD [OF complete_Accepted(2) [OF run ok]] out by auto
  then have "b_id b = i" by (auto dest: find_build_by_id_Some)
  then show ?thesis unfolding complete_running [OF up b(1)]
    using b(2) out complete_owned_refused [of b wm m report t] by (simp add: repeat_def Let_def)
qed

theorem repeated_failure_refused_witness:
  "fst (complete sample_owner 3 2 (report_of Outcome_Failed)
      (snd (complete sample_owner 3 2 (report_of Outcome_Failed) sample_server))) = Inl (LeaseLost 2 1)"
  using repeated_failure_refused [of sample_server sample_owner 3 2 "report_of Outcome_Failed"] sample_accepted sample_db_ok
  by (cases "complete sample_owner 3 2 (report_of Outcome_Failed) sample_server")
    (auto simp: report_of_def sample_owner_def sample_worker_def)

section \<open>Properties of cancelling and deleting\<close>

lemma failed_cancel: "cancel_build base build s = (Inl e, t) \<Longrightarrow> db t = db s"
  by (auto simp: cancel_build_def dbind_Inl dthen_def db_simps dest: transition_effects split: if_splits)

text \<open>C21: Cancelling ends a build that has not been handed over for publishing, whatever the row the
  caller read said: it is failed as cancelled, its lease is gone and the status of its package
  is refreshed. A build that is being published or has ended is left alone, and the caller is
  told so; when a statement fails nothing changed.\<close>

theorem cancel_outcome:
  "case cancel_build base build s of
      (Inl e, t) \<Rightarrow> db t = db s
    | (Inr r, t) \<Rightarrow>
        if \<exists>b \<in> set (builds (db s)). b_id b = b_id build \<and> b_status b \<in> {Active, Enqueued, WaitingForDeps}
        then r = Cancelled \<and> db t = refreshed (b_pkg_id build)
          (set_builds (\<lambda>b. b_id b = b_id build \<and> b_status b \<in> {Active, Enqueued, WaitingForDeps})
            (cancelled (clock s)) (db s))
        else r = Settled \<and> db t = db s"
  by (rule outcomeI, erule failed_cancel, rule cancel_Inr)

lemma reliable_delete_row: "reliable (delete_build_row build)"
  unfolding delete_build_row_def by (intro rel)

text \<open>C22: Deleting acts on the row as the caller read it: read as running or publishing, nothing
  happens; otherwise every row with its identity goes, whatever its state is by now, and the
  package's status is refreshed. In particular a build that was claimed after it was read as
  queued is deleted under the worker that runs it.\<close>

theorem delete_outcome:
  assumes "outage s = None"
  shows "\<exists>t. if b_status build \<in> {Active, Publishing}
    then delete_build base build s = (Inr Running, s)
    else delete_build base build s = (Inr Deleted, t) \<and> LogRemoved base (b_number build) \<in> set (effects t) \<and>
      builds (db t) = filter (\<lambda>b. b_id b \<noteq> b_id build) (builds (db s))"
proof (cases "b_status build \<in> {Active, Publishing}")
  case True
  then show ?thesis by (simp add: delete_build_def ret_def)
next
  case False
  obtain x t where t: "delete_build_row build s = (Inr x, t)"
    using reliableE [OF reliable_delete_row assms] by metis
  have "delete_build base build s = (Inr Deleted, t\<lparr>effects := effects t @ [LogRemoved base (b_number build)]\<rparr>)"
    using False t by (simp add: delete_build_def dthen_def dbind_def perform_def ret_def)
  then show ?thesis using False delete_build_row_Inr [OF t]
    by (intro exI [of _ "t\<lparr>effects := effects t @ [LogRemoved base (b_number build)]\<rparr>"]) simp
qed

theorem delete_outcome_witness:
  "\<exists>t. delete_build ''lib'' (sample_build 2 1 2 Enqueued None None) sample_server = (Inr Deleted, t) \<and>
     sample_build 2 1 2 Active (Some 1) (Some 950) \<notin> set (builds (db t))"
proof -
  have "b_status (sample_build 2 1 2 Enqueued None None) = Enqueued" "b_id (sample_build 2 1 2 Enqueued None None) = 2"
    "b_id (sample_build 2 1 2 Active (Some 1) (Some 950)) = 2" by (simp_all add: sample_build_def)
  then show ?thesis using delete_outcome [of sample_server "sample_build 2 1 2 Enqueued None None" "''lib''"] by auto
qed

section \<open>Properties of dependents\<close>

lemma reliable_dependency_satisfied [rel]: "reliable (dependency_satisfied A i pf c)"
  unfolding dependency_satisfied_def latest_successful_version_def by (intro rel)

lemma reliable_dependencies_satisfied [rel]: "reliable (dependencies_satisfied A deps pf)"
  by (induction deps) (auto intro!: rel)

lemma reliable_trigger_dependents [rel]: "reliable (trigger_dependents A iter k pf)"
  unfolding trigger_dependents_def load_dependencies_for_dependents_of_def trigger_dependent_def
    promote_dependent_def Let_def
  by (auto intro!: rel split: option.split)

text \<open>A waiting build whose dependencies are not met where it is to be built.\<close>

definition stuck :: "'v alpm \<Rightarrow> tables \<Rightarrow> build \<Rightarrow> bool" where
  "stuck A d b \<longleftrightarrow> b \<in> set (builds d) \<and> b_status b = WaitingForDeps \<and>
     (\<exists>e \<in> set (dependencies d). d_dependent_id e = b_pkg_id b \<and> \<not> dep_met A (b_platform b) d e)"

definition deps_of :: "tables \<Rightarrow> id \<Rightarrow> dependency list" where
  "deps_of d i = filter (\<lambda>e. d_dependent_id e = i) (dependencies d)"

lemma dep_met_kept: "preserves (\<lambda>d. dep_met A q d = v) (trigger_dependent A pf x)"
  by (rule promoting_keeps) (simp_all add: dep_met_def [abs_def] newest_success_promoted cong: option.case_cong)

lemma dependencies_kept: "preserves (\<lambda>d. dependencies d = v) (trigger_dependent A pf x)"
  by (rule promoting_keeps) simp_all

lemma promote_dependent_cases:
  assumes "promote_dependent i pf u = (r, t)"
  shows "db t = db u \<or> (\<exists>q v. promote_waiting_build i pf v = (Inr q, t) \<and> db v = db u)"
  using assms unfolding promote_dependent_def
proof (cases rule: dbind_cases)
  case (1 e)
  then show ?thesis using select_cases(1) by metis
next
  case (2 row v)
  have v: "db v = db u" "row = find_package_by_id i (db u)" using select_cases [OF 2(1)] by auto
  then have "promote_waiting_build (p_id p) pf v = promote_waiting_build i pf v" if "row = Some p" for p
    using that find_package_by_id_Some [of i "db u" p] by simp
  with 2(2) v(1) show ?thesis
    by (auto simp: Let_def ret_iff dbind_def split: option.splits if_splits prod.splits sum.splits dest: failed_promote)
qed

lemma promote_keeps_row:
  assumes run: "promote_waiting_build i pf v = (Inr q, t)" and ok: "db_ok (db v)"
    and b: "b \<in> set (builds (db v))" "\<not> (b_pkg_id b = i \<and> b_platform b = pf)"
  shows "b \<in> set (builds (db t))"
  using promote_Inr [OF run]
proof
  assume "\<exists>w. find (is_waiting_for i pf) (builds (db v)) = Some w \<and> q = Some (w\<lparr>b_status := Enqueued\<rparr>) \<and>
    db t = refreshed i (promoted_row w (db v))"
  then obtain w where w: "w \<in> set (builds (db v))" "is_waiting_for i pf w"
    and t: "db t = refreshed i (promoted_row w (db v))" by (auto dest: find_Some_mem)
  then have "b_id b \<noteq> b_id w" using b distinct_map_eq [OF db_okD(4) [OF ok] b(1) w(1)]
    by (auto simp: is_waiting_for_def)
  with b(1) t show ?thesis by (force simp: promoted_row_def)
qed (use b in simp)

lemma trigger_keeps_stuck:
  assumes run: "trigger_dependent A pf (i, deps_of (db s) i) s = (r, t)" and ok: "db_ok (db s)"
    and b: "stuck A (db s) b"
  shows "stuck A (db t) b"
proof -
  have same: "dependencies (db t) = dependencies (db s)" "dep_met A q (db t) = dep_met A q (db s)" for q
    using preservesD [OF dependencies_kept refl run] preservesD [OF dep_met_kept refl run] by auto
  obtain met u where met: "dependencies_satisfied A (deps_of (db s) i) pf s = (met, u)" by fastforce
  have u: "db u = db s"
    using preservesD [OF preserves_dependencies_satisfied [of "\<lambda>d. d = db s"] refl met] by simp
  have "b \<in> set (builds (db t))"
  proof (cases "met = Inr True")
    case False
    then have "db t = db s" using run met u
      by (cases met) (auto simp: trigger_dependent_def dbind_def ret_def split: if_splits)
    with b show ?thesis by (simp add: stuck_def)
  next
    case True
    then have "promote_dependent i pf u = (r, t)" using run met by (simp add: trigger_dependent_def dbind_def)
    moreover have "\<not> (b_pkg_id b = i \<and> b_platform b = pf)"
      using dependencies_satisfied_Inr [OF met [unfolded True]] b by (auto simp: stuck_def deps_of_def)
    ultimately show ?thesis
      using promote_dependent_cases [of i pf u r t] promote_keeps_row [of i pf _ _ t b] u ok b
      by (auto simp: stuck_def)
  qed
  with b same show ?thesis by (simp add: stuck_def)
qed

lemma for_each_keeps_stuck:
  assumes "for_each (trigger_dependent A pf) xs s = (r, t)" and "db_ok (db s)" and "stuck A (db s) b"
    and "\<forall>x \<in> set xs. snd x = deps_of (db s) (fst x)"
  shows "stuck A (db t) b"
  using assms
proof (induction xs arbitrary: s r t)
  case Nil
  then show ?case by (simp add: ret_iff)
next
  case (Cons x xs)
  obtain q u where u: "trigger_dependent A pf x s = (q, u)" by fastforce
  have x: "x = (fst x, deps_of (db s) (fst x))" using Cons.prems(4) by (metis list.set_intros(1) prod.collapse)
  have stuck: "stuck A (db u) b" using trigger_keeps_stuck [of A pf "fst x" s q u b] u x Cons.prems(2,3) by metis
  have ok: "db_ok (db u)" by (rule preservesD [OF preserves_trigger_dependent Cons.prems(2) u])
  have "deps_of (db u) = deps_of (db s)"
    using preservesD [OF dependencies_kept refl u] by (simp add: deps_of_def fun_eq_iff)
  then have rest: "\<forall>x \<in> set xs. snd x = deps_of (db u) (fst x)" using Cons.prems(4) by simp
  show ?case
  proof (cases q)
    case (Inl e)
    with Cons.prems(1) u stuck show ?thesis by (simp add: dbind_def)
  next
    case (Inr y)
    obtain q' v where v: "for_each (trigger_dependent A pf) xs u = (q', v)" by fastforce
    with Cons.prems(1) u Inr have "db t = db v" by (cases q') (auto simp: dbind_def ret_def)
    with Cons.IH [OF v ok stuck rest] show ?thesis by simp
  qed
qed

lemma load_dependents_rows:
  assumes "load_dependencies_for_dependents_of k s = (Inr xs, t)"
  shows "db t = db s" "\<forall>x \<in> set xs. snd x = deps_of (db s) (fst x)"
proof -
  let ?ids = "set (map d_dependent_id (filter (\<lambda>e. d_dependee_id e = k) (dependencies (db s))))"
  have rows: "db t = db s \<and> (xs = [] \<or> xs = map (\<lambda>i. (i, filter (\<lambda>e. d_dependent_id e = i)
      (filter (\<lambda>e. d_dependent_id e \<in> ?ids) (dependencies (db s)))))
      (remdups (map d_dependent_id (filter (\<lambda>e. d_dependent_id e \<in> ?ids) (dependencies (db s))))))"
    using assms by (auto simp: load_dependencies_for_dependents_of_def db_simps split: if_splits)
  then show "db t = db s" by blast
  have "filter (\<lambda>e. d_dependent_id e = i) (filter (\<lambda>e. d_dependent_id e \<in> ?ids) (dependencies (db s))) =
      deps_of (db s) i" if "i \<in> ?ids" for i
    unfolding deps_of_def filter_filter by (rule filter_cong [OF refl]) (use that in auto)
  with rows show "\<forall>x \<in> set xs. snd x = deps_of (db s) (fst x)" by auto
qed

text \<open>C23: When a build of a package is published, its dependents are released, whatever order they are
  visited in: afterwards no dependent is left waiting on the platform whose every dependency now
  has a fitting build there and which is built there at all; and a build that waits for a
  dependency still unmet, of any package on any platform, stays exactly as it was.\<close>

theorem dependents_released:
  assumes ok: "db_ok (db s)" and "outage s = None" and iter: "\<And>xs. set (iter xs) = set xs"
  shows "\<exists>refs t. trigger_dependents A iter pkg_id pf s = (Inr refs, t) \<and>
    (\<forall>e \<in> set (dependencies (db s)). d_dependee_id e = pkg_id \<and>
       releasable A pf (d_dependent_id e) (deps_of (db s) (d_dependent_id e)) (db s) \<longrightarrow>
       no_waiting (d_dependent_id e) pf (db t)) \<and>
    (\<forall>b. stuck A (db s) b \<longrightarrow> stuck A (db t) b)"
proof -
  obtain refs t where run: "trigger_dependents A iter pkg_id pf s = (Inr refs, t)"
    using reliableE [OF reliable_trigger_dependents assms(2)] by metis
  then obtain xs u rs where xs: "load_dependencies_for_dependents_of pkg_id s = (Inr xs, u)"
    and rs: "for_each (trigger_dependent A pf) (iter xs) u = (Inr rs, t)"
    by (auto simp: trigger_dependents_def db_simps)
  have "stuck A (db t) b" if "stuck A (db s) b" for b
    using for_each_keeps_stuck [OF rs] load_dependents_rows [OF xs] ok iter that by simp
  with run trigger_dependents_releases [OF run ok iter] show ?thesis unfolding deps_of_def by blast
qed

text \<open>The library in its published version, with the application waiting for it.\<close>

definition waiting_server :: server where
  "waiting_server = snd (demote_enqueued_build 2 X86_64 sample_server)"

lemma waiting_server_ok: "db_ok (db waiting_server)" "outage waiting_server = None"
proof -
  obtain r t where "demote_enqueued_build 2 X86_64 sample_server = (Inr r, t)" "outage t = None"
    using reliableE [OF reliable_demote sample_server_sel(2)] by metis
  then show "db_ok (db waiting_server)" "outage waiting_server = None"
    using keeps_demote [of sample_server 2 X86_64] sample_db_ok by (auto simp: waiting_server_def)
qed

theorem dependents_released_witness:
  "\<not> no_waiting 2 X86_64 (db waiting_server) \<and>
   (\<exists>refs t. trigger_dependents strokes (\<lambda>xs. xs) 1 X86_64 waiting_server = (Inr refs, t) \<and> no_waiting 2 X86_64 (db t))"
proof -
  have "list_ex (\<lambda>e. d_dependee_id e = 1 \<and> d_dependent_id e = 2) (dependencies (db waiting_server))"
    "releasable strokes X86_64 2 (deps_of (db waiting_server) 2) (db waiting_server)"
    "\<not> no_waiting 2 X86_64 (db waiting_server)" by code_simp+
  then show ?thesis
    using dependents_released [OF waiting_server_ok, of "\<lambda>xs. xs" strokes 1 X86_64]
    by (auto simp: list_ex_iff)
qed

end
