(* ===== verification/List_Columns.thy ===== *)
theory List_Columns
  imports Build_State
begin

text \<open>
  \<^verbatim>\<open>aurcache-db/src/lists.rs\<close>: the columns that hold a list, each read the way it was
  written. The JSON columns go through \<^verbatim>\<open>serde_json\<close> and are not modelled beyond their
  entries.
\<close>

section \<open>Delimited names\<close>

definition split_entries :: "string \<Rightarrow> char \<Rightarrow> string list" where
  "split_entries s delimiter = filter (\<lambda>e. e \<noteq> []) (map trim (split_on delimiter s))"

text \<open>The macro \<^verbatim>\<open>delimited_list!\<close>: what it writes for a type with a delimiter and a joiner.\<close>

definition list_new :: "string list \<Rightarrow> string list" where
  "list_new entries = filter (\<lambda>e. e \<noteq> []) (map trim entries)"

definition list_display :: "string \<Rightarrow> string list \<Rightarrow> string" where
  "list_display joiner entries = join joiner entries"

definition list_from_str :: "char \<Rightarrow> string \<Rightarrow> string list" where
  "list_from_str delimiter s = list_new (split_entries s delimiter)"

text \<open>The three columns.\<close>

definition build_flags_display :: "string list \<Rightarrow> string" where
  "build_flags_display = list_display '';''"

definition build_flags_from_str :: "string \<Rightarrow> string list" where
  "build_flags_from_str = list_from_str CHR '';''"

definition worker_list_display :: "string list \<Rightarrow> string" where
  "worker_list_display = list_display '',''"

definition worker_list_from_str :: "string \<Rightarrow> string list" where
  "worker_list_from_str = list_from_str CHR '',''"

definition licenses_display :: "string list \<Rightarrow> string" where
  "licenses_display = list_display '', ''"

definition licenses_from_str :: "string \<Rightarrow> string list" where
  "licenses_from_str = list_from_str CHR '',''"

definition json_entries :: "string list option \<Rightarrow> string list" where
  "json_entries xs = (case xs of None \<Rightarrow> [] | Some ys \<Rightarrow> ys)"

section \<open>Platforms\<close>

definition platforms_new :: "platform list \<Rightarrow> platform list" where
  "platforms_new ps = remdups_adj (sort_key platform_as_str ps)"

definition platforms_names :: "platform list \<Rightarrow> string list" where
  "platforms_names ps = map platform_as_str ps"

definition platforms_display :: "platform list \<Rightarrow> string" where
  "platforms_display ps = join '';'' (map platform_as_str ps)"

definition platforms_from_str :: "string \<Rightarrow> platform list" where
  "platforms_from_str s = platforms_new (List.map_filter platform_of (split_entries s CHR '';''))"

section \<open>The contract of a delimited column\<close>

definition clean_entry :: "char \<Rightarrow> string \<Rightarrow> bool" where
  "clean_entry d e \<longleftrightarrow> e \<noteq> [] \<and> trim e = e \<and> d \<notin> set e"

lemma trim_spaces_front: "list_all is_whitespace sp \<Longrightarrow> trim (sp @ s) = trim s"
proof -
  assume "list_all is_whitespace sp"
  then have "dropWhile is_whitespace (sp @ s) = dropWhile is_whitespace s"
    by (simp add: list_all_iff dropWhile_append2)
  then show ?thesis by (simp add: trim_def trim_start_def)
qed

lemma split_on_front:
  "d \<notin> set sp \<Longrightarrow> split_on d (sp @ s) = (sp @ hd (split_on d s)) # tl (split_on d s)"
proof (induction sp)
  case Nil
  then show ?case by (cases "split_on d s") auto
next
  case (Cons c sp)
  then show ?case by auto
qed

locale delimited_column =
  fixes delimiter :: char
    and spaces :: string
  assumes delimiter: "\<not> is_whitespace delimiter"
    and spaces: "list_all is_whitespace spaces"
begin

lemma entries_read_back:
  "es \<noteq> [] \<Longrightarrow> \<forall>e \<in> set es. clean_entry delimiter e \<Longrightarrow>
   map trim (split_on delimiter (join (delimiter # spaces) es)) = es"
proof (induction es rule: induct_list012)
  case (2 e)
  then show ?case by (simp add: split_on_clean clean_entry_def)
next
  case (3 e f es)
  let ?s = "join (delimiter # spaces) (f # es)"
  have "delimiter \<notin> set spaces" using delimiter spaces by (auto simp: list_all_iff)
  then have "map trim (split_on delimiter (spaces @ ?s)) = map trim (split_on delimiter ?s)"
    by (cases "split_on delimiter ?s") (simp_all add: split_on_front trim_spaces_front [OF spaces])
  then show ?case using 3 by (simp add: split_on_append clean_entry_def)
qed simp

lemma read_back:
  assumes "\<forall>e \<in> set es. clean_entry delimiter e"
  shows "list_from_str delimiter (list_display (delimiter # spaces) es) = es"
proof -
  have keep: "filter (\<lambda>e. e \<noteq> []) es = es" "map trim es = es"
    using assms by (auto simp: filter_id_conv clean_entry_def intro: map_idI)
  show ?thesis
  proof (cases "es = []")
    case True
    then show ?thesis by (simp add: list_from_str_def list_display_def split_entries_def list_new_def)
  next
    case False
    then show ?thesis using entries_read_back [OF False assms] keep
      by (simp add: list_from_str_def list_display_def split_entries_def list_new_def)
  qed
qed

text \<open>What is read is always a list the column can hold.\<close>

lemma read_clean: "e \<in> set (list_from_str delimiter s) \<Longrightarrow> clean_entry delimiter e"
  using set_split_on set_trim
  by (fastforce simp: list_from_str_def list_new_def split_entries_def clean_entry_def)

text \<open>So reading, writing and reading again changes nothing.\<close>

lemma read_stable: "list_from_str delimiter (list_display (delimiter # spaces) (list_from_str delimiter s)) =
    list_from_str delimiter s"
  by (rule read_back) (auto intro: read_clean)

end

interpretation build_flags: delimited_column "CHR '';''" "[]"
  by unfold_locales simp_all

interpretation worker_list: delimited_column "CHR '',''" "[]"
  by unfold_locales simp_all

interpretation licenses: delimited_column "CHR '',''" "'' ''"
  by unfold_locales simp_all

section \<open>Platforms read back\<close>

lemma platform_str_inject [simp]: "platform_as_str p = platform_as_str q \<longleftrightarrow> p = q"
  by (cases p; cases q; simp)

lemma set_platforms_new [simp]: "set (platforms_new ps) = set ps"
  by (simp add: platforms_new_def)

lemma remdups_adj_sorted_distinct: "sorted xs \<Longrightarrow> distinct (remdups_adj (xs :: 'a::linorder list))"
proof (induction xs rule: remdups_adj.induct)
  case (3 x y xs)
  then show ?case by (auto simp: not_less_iff_gr_or_eq dest: order_antisym)
qed auto

lemma platforms_new_order:
  "sorted (map platform_as_str (platforms_new ps))" "distinct (map platform_as_str (platforms_new ps))"
proof -
  have "map platform_as_str (platforms_new ps) = remdups_adj (map platform_as_str (sort_key platform_as_str ps))"
    unfolding platforms_new_def by (rule remdups_adj_map_injective [symmetric]) (simp add: inj_def)
  then show "sorted (map platform_as_str (platforms_new ps))" "distinct (map platform_as_str (platforms_new ps))"
    by (simp_all add: remdups_adj_sorted_distinct)
qed

lemma platforms_new_cong: "set ps = set qs \<Longrightarrow> platforms_new ps = platforms_new qs"
  by (rule map_sorted_distinct_set_unique [of platform_as_str])
    (use platforms_new_order in \<open>auto simp: inj_on_def\<close>)

lemma clean_platform: "clean_entry CHR '';'' (platform_as_str p)"
proof -
  have "list_all (\<lambda>p. clean_entry CHR '';'' (platform_as_str p)) [X86_64, Aarch64, Armv7h]" by code_simp
  then show ?thesis by (cases p) simp_all
qed

lemma map_filter_platform_of: "List.map_filter platform_of (map platform_as_str ps) = ps"
  by (induction ps) (simp_all add: List.map_filter_simps)

lemma platforms_read_back: "platforms_from_str (platforms_display ps) = platforms_new ps"
proof -
  have "split_entries (join '';'' (map platform_as_str ps)) CHR '';'' = map platform_as_str ps"
  proof (cases "ps = []")
    case True
    then show ?thesis by (simp add: split_entries_def)
  next
    case False
    then have "map trim (split_on CHR '';'' (join '';'' (map platform_as_str ps))) = map platform_as_str ps"
      using build_flags.entries_read_back [of "map platform_as_str ps"] clean_platform by simp
    moreover have "filter (\<lambda>e. e \<noteq> []) (map platform_as_str ps) = map platform_as_str ps"
      using clean_platform by (auto simp: filter_id_conv clean_entry_def)
    ultimately show ?thesis by (simp add: split_entries_def)
  qed
  then show ?thesis by (simp add: platforms_from_str_def platforms_display_def map_filter_platform_of)
qed

end
