(* ===== verification/Publishing.thy ===== *)
theory Publishing
  imports Dependents List_Columns
begin

text \<open>
  \<^verbatim>\<open>aurcache-utils/src/publish.rs\<close>: which staged files belong to a build, who owns a published
  file name, what one publication records, and how a build leaves \<^verbatim>\<open>PUBLISHING\<close>. Reading
  archives and moving files into the repository (\<^verbatim>\<open>repository.rs\<close>) is outside the model:
  \<open>plan_publication\<close> and \<open>record_publication\<close> are its database half.
\<close>

section \<open>File names\<close>

text \<open>\<^verbatim>\<open>str::rsplit_once\<close> with a string pattern: the last occurrence.\<close>

fun split_once_sub :: "string \<Rightarrow> string \<Rightarrow> (string \<times> string) option" where
  "split_once_sub p [] = (if p = [] then Some ([], []) else None)"
| "split_once_sub p (c # cs) =
     (if prefix p (c # cs) then Some ([], drop (length p) (c # cs))
      else map_option (\<lambda>(a, b). (c # a, b)) (split_once_sub p cs))"

definition rsplit_once :: "string \<Rightarrow> string \<Rightarrow> (string \<times> string) option" where
  "rsplit_once p s = map_option (\<lambda>(a, b). (rev b, rev a)) (split_once_sub (rev p) (rev s))"

definition expected_pkgnames :: "package \<Rightarrow> string list" where
  "expected_pkgnames pkg =
     fold (\<lambda>n known. if n \<in> set known then known else known @ [n]) (json_entries (p_split_packages pkg))
       [p_name pkg]"

record parsed_pkg =
  pp_name :: string
  pp_version :: string

datatype publish_error =
    InvalidFilename string
  | InvalidFormat string
  | NotExpected string string
  | OwnedByAnother string
  | NoLongerPublishing id
  | Publish_Db db_err

definition parse_arch_pkg :: "string \<Rightarrow> publish_error + parsed_pkg" where
  "parse_arch_pkg filename =
     (case rsplit_once ''.pkg.tar.'' filename of
        None \<Rightarrow> Inl (InvalidFilename filename)
      | Some (base, _) \<Rightarrow>
          let parts = split_on CHR ''-'' base; n = length parts in
          if n < 4 then Inl (InvalidFormat filename)
          else Inr \<lparr>pp_name = join ''-'' (take (n - 3) parts),
                    pp_version = parts ! (n - 3) @ ''-'' @ parts ! (n - 2)\<rparr>)"

datatype artifact = Artifact_Debug | Artifact_Package parsed_pkg

definition artifact :: "string list \<Rightarrow> string \<Rightarrow> publish_error + artifact" where
  "artifact expected filename =
     (case parse_arch_pkg filename of
        Inl e \<Rightarrow> Inl e
      | Inr parsed \<Rightarrow>
          if (case strip_suffix ''-debug'' (pp_name parsed) of
                None \<Rightarrow> False | Some base \<Rightarrow> base \<in> set expected)
          then Inr Artifact_Debug
          else if pp_name parsed \<in> set expected then Inr (Artifact_Package parsed)
          else Inl (NotExpected filename (pp_name parsed)))"

section \<open>Recording a publication\<close>

type_synonym 'a pm = "(publish_error, 'a) prog"

record staged =
  st_filename :: string
  st_size :: int

record plan_row =
  pr_filename :: string
  pr_existing :: "id option"
  pr_size :: int

record plan =
  pl_rows :: "plan_row list"
  pl_stale :: "file_row list"
  pl_version :: string
  pl_total_size :: int

definition published_files :: "platform \<Rightarrow> string list \<Rightarrow> (string \<rightharpoonup> file_row) dbm" where
  "published_files pf filenames =
     (if filenames = [] then ret Map.empty
      else select (\<lambda>d. collect_map (map (\<lambda>f. (f_filename f, f))
             (filter (\<lambda>f. f_filename f \<in> set filenames \<and> f_platform f = pf) (files d)))))"

definition published_files_of :: "id list \<Rightarrow> file_row list dbm" where
  "published_files_of pkg_ids = select (\<lambda>d. filter (\<lambda>f. f_package_id f \<in> set pkg_ids) (files d))"

definition plan_file :: "package \<Rightarrow> (string \<rightharpoonup> file_row) \<Rightarrow> staged \<Rightarrow> plan_row pm" where
  "plan_file pkg known st =
     (let existing = known (st_filename st);
          row = \<lparr>pr_filename = st_filename st, pr_existing = map_option f_id existing, pr_size = st_size st\<rparr>
      in case existing of
           None \<Rightarrow> ret row
         | Some f \<Rightarrow>
             if f_package_id f = p_id pkg then ret row
             else
               dbind (map_err Publish_Db (select (\<lambda>d. find_package_by_id (f_package_id f) d \<noteq> None))) (\<lambda>owner_exists.
               dbind (map_err Publish_Db (select (\<lambda>d. \<exists>e \<in> set (dependencies d).
                        d_dependent_id e = f_package_id f \<and> d_dependee_id e = p_id pkg))) (\<lambda>owner_depends_on_us.
               if owner_exists \<and> \<not> owner_depends_on_us then raise (OwnedByAnother (st_filename st))
               else ret row)))"

definition plan_publication :: "package \<Rightarrow> platform \<Rightarrow> staged list \<Rightarrow> string \<Rightarrow> plan pm" where
  "plan_publication pkg pf described ver =
     dbind (map_err Publish_Db (published_files pf (map st_filename described))) (\<lambda>known.
     dbind (for_each (plan_file pkg known) described) (\<lambda>rows.
     dbind (map_err Publish_Db (published_files_of [p_id pkg])) (\<lambda>own.
     ret \<lparr>pl_rows = rows,
          pl_stale = filter (\<lambda>f. f_platform f = pf \<and> f_filename f \<notin> set (map st_filename described)) own,
          pl_version = ver, pl_total_size = sum_list (map st_size described)\<rparr>)))"

definition insert_file :: "id \<Rightarrow> platform \<Rightarrow> plan_row \<Rightarrow> tables \<Rightarrow> tables" where
  "insert_file pkg_id pf row d =
     d\<lparr>files := files d @ [\<lparr>f_id = next_file_id d, f_filename = pr_filename row, f_platform = pf,
                              f_package_id = pkg_id, f_size = Some (pr_size row)\<rparr>],
       next_file_id := next_file_id d + 1\<rparr>"

primrec insert_files :: "id \<Rightarrow> platform \<Rightarrow> plan_row list \<Rightarrow> tables \<Rightarrow> tables" where
  "insert_files pkg_id pf [] d = d"
| "insert_files pkg_id pf (row # rows) d = insert_files pkg_id pf rows (insert_file pkg_id pf row d)"

definition take_over :: "id \<Rightarrow> plan_row \<Rightarrow> tables \<Rightarrow> tables" where
  "take_over pkg_id row d =
     (case pr_existing row of
        None \<Rightarrow> d
      | Some i \<Rightarrow>
          d\<lparr>files := map (\<lambda>f. if f_id f = i then f\<lparr>f_package_id := pkg_id, f_size := Some (pr_size row)\<rparr> else f)
                       (files d)\<rparr>)"

text \<open>\<^verbatim>\<open>ActiveModel::update\<close>: it fails when no row has the key.\<close>

definition take_over_stmt :: "id \<Rightarrow> plan_row \<Rightarrow> unit dbm" where
  "take_over_stmt pkg_id row =
     (case pr_existing row of
        None \<Rightarrow> ret ()
      | Some i \<Rightarrow>
          statement (\<lambda>d.
            if \<exists>f \<in> set (files d). f_id f = i then (Inr (), take_over pkg_id row d)
            else (Inl (Custom ''RecordNotUpdated''), d)))"

definition drop_stale :: "file_row list \<Rightarrow> tables \<Rightarrow> tables" where
  "drop_stale stale d = d\<lparr>files := filter (\<lambda>f. f_id f \<notin> set (map f_id stale)) (files d)\<rparr>"

definition record_files :: "package \<Rightarrow> platform \<Rightarrow> plan \<Rightarrow> unit dbm" where
  "record_files pkg pf plan =
     (let new_rows = filter (\<lambda>row. pr_existing row = None) (pl_rows plan) in
      dthen (if new_rows \<noteq> [] then modify (insert_files (p_id pkg) pf new_rows) else ret ())
      (dthen (for_each (take_over_stmt (p_id pkg)) (pl_rows plan))
      (if pl_stale plan \<noteq> [] then modify (drop_stale (pl_stale plan)) else ret ())))"

definition record_publication :: "id \<Rightarrow> package \<Rightarrow> platform \<Rightarrow> plan \<Rightarrow> unit pm" where
  "record_publication build_id pkg pf plan =
     dbind now_secs (\<lambda>now.
     dbind (map_err Publish_Db (update_builds
              (\<lambda>b. b_id b = build_id \<and> b_status b = Publishing)
              (\<lambda>b. b\<lparr>b_version := pl_version plan, b_size := Some (pl_total_size plan),
                     b_end_time := Some now\<rparr>))) (\<lambda>marked.
     if marked = 0 then raise (NoLongerPublishing build_id)
     else
       dthen (map_err Publish_Db (record_files pkg pf plan))
       (dthen (map_err Publish_Db (modify (set_packages (\<lambda>p. p_id p = p_id pkg)
                 (\<lambda>p. p\<lparr>p_out_of_date := False, p_upstream_version := Some (pl_version plan)\<rparr>))))
       (map_err Publish_Db (refresh_package_status (p_id pkg))))))"

section \<open>Settling\<close>

definition recorded :: "build \<Rightarrow> bool" where
  "recorded build \<longleftrightarrow> b_size build \<noteq> None"

definition settle :: "build \<Rightarrow> unit dbm" where
  "settle build =
     dthen (transition build [Publishing] Successful (\<lambda>_. True) (\<lambda>b. b)) (ret ())"

definition fail_publication :: "build \<Rightarrow> transition dbm" where
  "fail_publication build =
     dbind now_secs (\<lambda>now.
     transition build [Publishing] Failed (\<lambda>_. True) (\<lambda>b. b\<lparr>b_end_time := Some now\<rparr>))"

datatype publication_outcome = Finished | Retry

definition log_build :: "string option \<Rightarrow> int \<Rightarrow> string \<Rightarrow> ('e, unit) prog" where
  "log_build base num txt =
     (case base of
        None \<Rightarrow> ret ()
      | Some name \<Rightarrow>
          dbind (append_build_output name num txt) (\<lambda>ok.
          if ok then ret () else emit (BuildLogAppendFailed \<lparr>pkgbase = name, number = num\<rparr>)))"

definition announce :: "build \<Rightarrow> build_ref option \<Rightarrow> ('e, unit) prog" where
  "announce build name =
     dthen (log_build (map_option pkgbase name) (b_number build) ''Published to the repository\<newline>'')
     (emit_for name (\<lambda>r. BuildPublished r (known_version (b_version build))))"

definition promote_dependents ::
    "'v alpm \<Rightarrow> ((id \<times> dependency list) list \<Rightarrow> (id \<times> dependency list) list) \<Rightarrow> build \<Rightarrow> build_ref option \<Rightarrow>
     ('e, publication_outcome) prog" where
  "promote_dependents A iter build name =
     dbind (attempt (trigger_dependents A iter (b_pkg_id build) (b_platform build))) (\<lambda>r.
     case r of
       Inr unblocked \<Rightarrow>
         dthen (for_each (\<lambda>u. emit (BuildUnblocked u name)) unblocked) (ret Finished)
     | Inl _ \<Rightarrow>
         dthen (emit_for name (\<lambda>n. DependentsTriggerFailed (pkgbase n))) (ret Retry))"

definition report_failure :: "build \<Rightarrow> build_ref option \<Rightarrow> ('e, publication_outcome) prog" where
  "report_failure build name =
     dthen (emit (PublishFailed \<lparr>pkgbase = (case name of None \<Rightarrow> ''?'' | Some n \<Rightarrow> pkgbase n), number = b_number build\<rparr>))
     (dthen (log_build (map_option pkgbase name) (b_number build) ''Publishing failed'')
     (dbind (attempt (fail_publication build)) (\<lambda>r.
      case r of
        Inr _ \<Rightarrow> ret Finished
      | Inl _ \<Rightarrow> dthen (emit_for name BuildMarkFailed) (ret Retry))))"

section \<open>File names read back\<close>

lemma split_once_sub_front:
  "\<forall>c \<in> set a. c \<noteq> d \<Longrightarrow> split_once_sub (d # p) (a @ (d # p) @ b) = Some (a, b)"
  by (induction a) auto

lemma rsplit_once_last:
  assumes "d \<notin> set ext"
  shows "rsplit_once (p @ [d]) (base @ (p @ [d]) @ ext) = Some (base, ext)"
  using split_once_sub_front [of "rev ext" d "rev p" "rev base"] assms by (fastforce simp: rsplit_once_def)

lemma split_on_append_split: "split_on d (a @ d # b) = split_on d a @ split_on d b"
proof (induction a)
  case (Cons c a)
  then show ?case by (cases "split_on d a") auto
qed simp

lemma parse_arch_pkg_parts:
  assumes dot: "CHR ''.'' \<notin> set ext" and dash: "CHR ''-'' \<notin> set ver" "CHR ''-'' \<notin> set rel" "CHR ''-'' \<notin> set arch"
  shows "parse_arch_pkg (name @ ''-'' @ ver @ ''-'' @ rel @ ''-'' @ arch @ ''.pkg.tar.'' @ ext) =
    Inr \<lparr>pp_name = name, pp_version = ver @ ''-'' @ rel\<rparr>"
proof -
  let ?base = "name @ ''-'' @ ver @ ''-'' @ rel @ ''-'' @ arch"
  have "rsplit_once ''.pkg.tar.'' (?base @ ''.pkg.tar.'' @ ext) = Some (?base, ext)"
    using rsplit_once_last [OF dot, of "''.pkg.tar''" ?base] by simp
  moreover have "split_on CHR ''-'' ?base = split_on CHR ''-'' name @ [ver, rel, arch]"
    using split_on_append_split [of "CHR ''-''" name "ver @ ''-'' @ rel @ ''-'' @ arch"] dash
    by (simp add: split_on_append split_on_clean)
  moreover have "join ''-'' (split_on CHR ''-'' name) = name" by (rule join_split_on)
  moreover have "length (split_on CHR ''-'' name) > 0" by simp
  ultimately show ?thesis by (auto simp: parse_arch_pkg_def Let_def nth_append)
qed

lemma expected_pkgnames_fold:
  "distinct known \<Longrightarrow>
   (let r = fold (\<lambda>n known. if n \<in> set known then known else known @ [n]) ns known
    in distinct r \<and> set r = set known \<union> set ns)"
  by (induction ns arbitrary: known) (auto simp: Let_def insert_absorb)

lemma expected_pkgnames_set:
  "distinct (expected_pkgnames pkg)"
  "set (expected_pkgnames pkg) = insert (p_name pkg) (set (json_entries (p_split_packages pkg)))"
  using expected_pkgnames_fold [of "[p_name pkg]" "json_entries (p_split_packages pkg)"]
  by (simp_all add: expected_pkgnames_def Let_def)

section \<open>The contract\<close>

lemma row_step_settled_to:
  "moves build [Publishing] guard b \<Longrightarrow> row_step b (moved_to Successful (\<lambda>b. b) b)"
  unfolding moved_to_def by (rule row_step.settled) (simp add: moves_def)

lemma row_step_publish_failed:
  "moves build [Publishing] guard b \<Longrightarrow> row_step b (moved_to Failed (\<lambda>b. b\<lparr>b_end_time := Some now\<rparr>) b)"
  unfolding moved_to_def by (rule row_step.publish_failed) (simp add: moves_def)

lemma refines_settle [refine]: "refines (settle build)"
  unfolding settle_def by (intro refine refines_transition row_step_settled_to)

lemma preserves_settle: "preserves (ok_with build) (settle build)"
  unfolding settle_def by (intro pres preserves_transition row_step_settled_to)

lemma refines_fail_publication [refine]: "refines (fail_publication build)"
  unfolding fail_publication_def by (intro refine refines_transition row_step_publish_failed)

lemma preserves_fail_publication: "preserves (ok_with build) (fail_publication build)"
  unfolding fail_publication_def by (intro pres preserves_transition row_step_publish_failed)

interpretation settling: build_program "\<lambda>build d. follows build (ledger d)" settle
  by unfold_locales (auto intro: refines_settle preserves_ok_withD [OF preserves_settle])

interpretation publish_failure: build_program "\<lambda>build d. follows build (ledger d)" fail_publication
  by unfold_locales (auto intro: refines_fail_publication preserves_ok_withD [OF preserves_fail_publication])

lemma db_ok_packages:
  assumes "db_ok d" and "\<And>p. p_id (f p) = p_id p \<and> p_platforms (f p) = p_platforms p \<and> p_status (f p) = p_status p"
  shows "db_ok (set_packages q f d)"
proof -
  have ids: "map p_id (packages (set_packages q f d)) = map p_id (packages d)"
    using assms(2) by (auto simp: set_packages_def)
  have "shown_status (f p) (set_packages q f d) = shown_status p d" for p
    using assms(2) by (simp add: shown_status_def own_builds_def)
  moreover have "shown_status p (set_packages q f d) = shown_status p d" for p
    by (simp add: shown_status_def own_builds_def)
  ultimately have "status_in_line (set_packages q f d)"
    using db_okD(3) [OF assms(1)] assms(2) by (auto simp: status_in_line_def)
  then show ?thesis using assms(1) unfolding db_ok_def ids by simp
qed

lemma db_ok_refresh: "preserves db_ok (refresh_package_status k)"
  unfolding preserves_def
proof (intro allI impI)
  fix s r t
  assume ok: "db_ok (db s)" and run: "refresh_package_status k s = (r, t)"
  show "db_ok (db t)"
  proof (cases r)
    case (Inl e)
    with run have "db t = db s"
      by (auto simp: refresh_package_status_def dbind_def select_def modify_def statement_def ret_def Let_def
          split: option.splits if_splits)
    then show ?thesis using ok by simp
  next
    case (Inr x)
    with run refresh_package_status_Inr db_ok_refreshed [OF ok] show ?thesis by metis
  qed
qed

text \<open>Changes to the file table touch nothing a build program cares for.\<close>

lemma registry_files [simp]: "registry (d\<lparr>files := fs\<rparr>) = registry d" "registry (d\<lparr>next_file_id := n\<rparr>) = registry d"
  by (simp_all add: registry_def)

lemma insert_files_sel [simp]:
  "builds (insert_files i pf rows d) = builds d" "packages (insert_files i pf rows d) = packages d"
  "registry (insert_files i pf rows d) = registry d" "next_build_id (insert_files i pf rows d) = next_build_id d"
  by (induction rows arbitrary: d) (simp_all add: insert_file_def)

lemma take_over_sel [simp]:
  "builds (take_over i row d) = builds d" "packages (take_over i row d) = packages d"
  "registry (take_over i row d) = registry d" "next_build_id (take_over i row d) = next_build_id d"
  by (simp_all add: take_over_def split: option.splits)

lemma drop_stale_sel [simp]:
  "builds (drop_stale stale d) = builds d" "packages (drop_stale stale d) = packages d"
  "registry (drop_stale stale d) = registry d" "next_build_id (drop_stale stale d) = next_build_id d"
  by (simp_all add: drop_stale_def)

lemma db_ok_same:
  assumes "db_ok d" "builds d' = builds d" "packages d' = packages d" "registry d' = registry d"
    "next_build_id d' = next_build_id d"
  shows "db_ok d'"
  using assms unfolding db_ok_def status_in_line_def ledger_def shown_status_def own_builds_def Let_def by simp

lemma ledger_files [simp]:
  "ledger (insert_files i pf rows d) = ledger d" "ledger (take_over i row d) = ledger d"
  "ledger (drop_stale stale d) = ledger d"
  by (simp_all add: ledger_def)

lemma db_ok_files:
  assumes "db_ok d"
  shows "db_ok (insert_files i pf rows d)" "db_ok (take_over i row d)" "db_ok (drop_stale stale d)"
  by (rule db_ok_same [OF assms]; simp)+

lemma row_step_recorded: "row_step b (b\<lparr>b_version := v, b_size := sz, b_end_time := t\<rparr>)"
  by (rule row_step.annotate) simp_all

lemma refines_take_over: "refines (take_over_stmt i row)"
  unfolding take_over_stmt_def by (auto intro!: refine refines_statement split: option.split)

lemma preserves_take_over: "preserves db_ok (take_over_stmt i row)"
  unfolding take_over_stmt_def by (auto intro!: pres preserves_statement db_ok_files split: option.split)

lemma refines_record_files [refine]: "refines (record_files pkg pf plan)"
  unfolding record_files_def Let_def by (auto intro!: refine refines_modify refines_take_over)

lemma preserves_record_files [pres]: "preserves db_ok (record_files pkg pf plan)"
  unfolding record_files_def Let_def by (auto intro!: pres preserves_modify db_ok_files preserves_take_over)

lemma refines_record [refine]: "refines (record_publication i pkg pf plan)"
  unfolding record_publication_def
  by (auto intro!: refine refines_update_builds row_step_recorded refines_modify)

lemma preserves_record: "preserves db_ok (record_publication i pkg pf plan)"
  unfolding record_publication_def
  by (auto intro!: pres preserves_annotate row_step_recorded db_ok_refresh preserves_modify db_ok_packages)

interpretation recording: build_program "\<lambda>_ _. True"
    "\<lambda>(i, pkg, pf, plan). record_publication i pkg pf plan"
  by unfold_locales (auto intro: refines_record dest: preservesD [OF preserves_record])

section \<open>Who owns a published file\<close>

definition files_ok :: "tables \<Rightarrow> bool" where
  "files_ok d \<longleftrightarrow>
     distinct (map f_id (files d)) \<and> (\<forall>f \<in> set (files d). f_id f < next_file_id d) \<and>
     distinct (map (\<lambda>f. (f_filename f, f_platform f)) (files d))"

definition owned_files :: "id \<Rightarrow> platform \<Rightarrow> tables \<Rightarrow> string set" where
  "owned_files pkg_id pf d =
     f_filename ` {f \<in> set (files d). f_package_id f = pkg_id \<and> f_platform f = pf}"

text \<open>The file a row of the plan refers to: the one published under its name on the platform.\<close>

definition plan_of :: "platform \<Rightarrow> staged list \<Rightarrow> tables \<Rightarrow> plan_row list" where
  "plan_of pf described d =
     map (\<lambda>st. \<lparr>pr_filename = st_filename st,
                pr_existing = map_option f_id (find (\<lambda>f. f_filename f = st_filename st \<and> f_platform f = pf) (files d)),
                pr_size = st_size st\<rparr>) described"

lemma published_files_find:
  assumes ok: "files_ok d" and "n \<in> N"
  shows "collect_map (map (\<lambda>f. (f_filename f, f)) (filter (\<lambda>f. f_filename f \<in> N \<and> f_platform f = pf) (files d))) n =
    find (\<lambda>f. f_filename f = n \<and> f_platform f = pf) (files d)"
proof -
  let ?kvs = "map (\<lambda>f. (f_filename f, f)) (filter (\<lambda>f. f_filename f \<in> N \<and> f_platform f = pf) (files d))"
  have uniq: "f = g" if "f \<in> set (files d)" "g \<in> set (files d)" "f_filename f = f_filename g" "f_platform f = f_platform g" for f g
    using ok that by (auto simp: files_ok_def dest: distinct_map_eq)
  show ?thesis
  proof (cases "find (\<lambda>f. f_filename f = n \<and> f_platform f = pf) (files d)")
    case None
    then have "n \<notin> fst ` set ?kvs" by (auto simp: find_None_iff_ball)
    then show ?thesis using None by (simp add: collect_map_def map_of_eq_None_iff)
  next
    case (Some f)
    then have f: "f \<in> set (files d)" "f_filename f = n" "f_platform f = pf" by (auto dest: find_Some_mem)
    have "v = f" if "(n, v) \<in> set ?kvs" for v using that uniq f by auto
    then have "map_of (rev ?kvs) n = Some f"
      using f assms(2) by (cases "map_of (rev ?kvs) n") (force simp: map_of_eq_None_iff dest: map_of_SomeD)+
    then show ?thesis using Some by (simp add: collect_map_def)
  qed
qed

definition may_take :: "package \<Rightarrow> file_row \<Rightarrow> tables \<Rightarrow> bool" where
  "may_take pkg f d \<longleftrightarrow>
     f_package_id f = p_id pkg \<or> find_package_by_id (f_package_id f) d = None \<or>
     (\<exists>e \<in> set (dependencies d). d_dependent_id e = f_package_id f \<and> d_dependee_id e = p_id pkg)"

lemma plan_file_Inr:
  assumes "plan_file pkg known st s = (Inr row, t)"
  shows "row = \<lparr>pr_filename = st_filename st, pr_existing = map_option f_id (known (st_filename st)),
      pr_size = st_size st\<rparr>" "db t = db s" "known (st_filename st) = Some f \<Longrightarrow> may_take pkg f (db s)"
  using assms
  by (auto simp: plan_file_def Let_def db_simps may_take_def split: option.splits if_splits)

lemma plan_files_Inr:
  "for_each (plan_file pkg known) sts s = (Inr rows, t) \<Longrightarrow>
     rows = map (\<lambda>st. \<lparr>pr_filename = st_filename st, pr_existing = map_option f_id (known (st_filename st)),
       pr_size = st_size st\<rparr>) sts \<and> db t = db s \<and>
     (\<forall>st \<in> set sts. \<forall>f. known (st_filename st) = Some f \<longrightarrow> may_take pkg f (db s))"
proof (induction sts arbitrary: s rows)
  case Nil
  then show ?case by (simp add: ret_iff)
next
  case (Cons st sts)
  from Cons.prems obtain row rs u where "rows = row # rs" and st: "plan_file pkg known st s = (Inr row, u)"
    and "for_each (plan_file pkg known) sts u = (Inr rs, t)" unfolding for_each_Inr_Cons by blast
  with Cons.IH [OF this(3)] plan_file_Inr [OF st] show ?case by auto
qed

lemma plan_publication_Inr:
  assumes run: "plan_publication pkg pf described ver s = (Inr plan, t)" and ok: "files_ok (db s)"
  shows "db t = db s" "pl_rows plan = plan_of pf described (db s)"
    "pl_stale plan = filter (\<lambda>f. f_package_id f = p_id pkg \<and> f_platform f = pf \<and>
       f_filename f \<notin> set (map st_filename described)) (files (db s))"
    "pl_version plan = ver"
    "\<forall>f \<in> set (files (db s)). f_platform f = pf \<longrightarrow> f_filename f \<in> set (map st_filename described) \<longrightarrow>
       may_take pkg f (db s)"
proof -
  let ?N = "set (map st_filename described)"
  let ?find = "\<lambda>n. find (\<lambda>f. f_filename f = n \<and> f_platform f = pf) (files (db s))"
  from run obtain known u v where known: "published_files pf (map st_filename described) s = (Inr known, u)"
    and rows: "for_each (plan_file pkg known) described u = (Inr (pl_rows plan), v)"
    and own: "pl_stale plan = filter (\<lambda>f. f_platform f = pf \<and> f_filename f \<notin> ?N)
      (filter (\<lambda>f. f_package_id f = p_id pkg) (files (db v)))" "pl_version plan = ver" "db t = db v"
    by (auto simp: plan_publication_def db_simps published_files_of_def)
  have kn: "known n = ?find n" if "n \<in> ?N" for n
    using known that published_files_find [OF ok that]
    by (auto simp: published_files_def db_simps ret_iff split: if_splits)
  have u: "db u = db s" using known by (auto simp: published_files_def db_simps ret_iff split: if_splits)
  note planned = plan_files_Inr [OF rows]
  show v: "db t = db s" using planned u own(3) by simp
  show "pl_rows plan = plan_of pf described (db s)"
    using planned kn by (auto simp: plan_of_def)
  show "pl_stale plan = filter (\<lambda>f. f_package_id f = p_id pkg \<and> f_platform f = pf \<and> f_filename f \<notin> ?N) (files (db s))"
    using own(1) planned u by (auto intro!: filter_cong)
  show "pl_version plan = ver" by (rule own(2))
  show "\<forall>f \<in> set (files (db s)). f_platform f = pf \<longrightarrow> f_filename f \<in> ?N \<longrightarrow> may_take pkg f (db s)"
  proof (intro ballI impI)
    fix f assume f: "f \<in> set (files (db s))" "f_platform f = pf" "f_filename f \<in> ?N"
    have "?find (f_filename f) = Some f"
      by (rule find_unique) (use f ok in \<open>auto simp: files_ok_def dest: distinct_map_eq\<close>)
    with f(3) kn [OF f(3)] planned u show "may_take pkg f (db s)" by auto
  qed
qed

lemma for_each_take_over:
  "for_each (take_over_stmt k) rows s = (Inr x, t) \<Longrightarrow>
   db t = fold (take_over k) rows (db s)"
proof (induction rows arbitrary: s x)
  case Nil
  then show ?case by (simp add: ret_iff)
next
  case (Cons row rows)
  from Cons.prems obtain y ys u where
    "take_over_stmt k row s = (Inr y, u)" and rest: "for_each (take_over_stmt k) rows u = (Inr ys, t)"
    unfolding for_each_Inr_Cons by blast
  then have "db u = take_over k row (db s)"
    by (auto simp: take_over_stmt_def db_simps ret_iff take_over_def split: if_splits option.splits)
  with Cons.IH [OF rest] show ?case by simp
qed

lemma record_files_Inr:
  assumes "record_files pkg pf plan s = (Inr x, t)"
  shows "db t = drop_stale (pl_stale plan) (fold (take_over (p_id pkg)) (pl_rows plan)
      (insert_files (p_id pkg) pf (filter (\<lambda>row. pr_existing row = None) (pl_rows plan)) (db s)))"
proof -
  let ?new = "filter (\<lambda>row. pr_existing row = None) (pl_rows plan)"
  have stale: "drop_stale [] d = d" for d by (simp add: drop_stale_def)
  from assms obtain y u ys v where
    u: "(if ?new \<noteq> [] then modify (insert_files (p_id pkg) pf ?new) else ret ()) s = (Inr y, u)"
    and v: "for_each (take_over_stmt (p_id pkg)) (pl_rows plan) u = (Inr ys, v)"
    and t: "(if pl_stale plan \<noteq> [] then modify (drop_stale (pl_stale plan)) else ret ()) v = (Inr x, t)"
    unfolding record_files_def Let_def dthen_Inr by blast
  have "db u = insert_files (p_id pkg) pf ?new (db s)" using u by (auto simp: db_simps split: if_splits)
  moreover have "db t = drop_stale (pl_stale plan) (db v)" using t by (auto simp: db_simps stale split: if_splits)
  ultimately show ?thesis using for_each_take_over [OF v] by simp
qed

lemma record_Inr:
  assumes "record_publication i pkg pf plan s = (Inr x, t)"
  shows "\<exists>d. files d = files (db s) \<and> next_file_id d = next_file_id (db s) \<and>
      files (db t) = files (drop_stale (pl_stale plan) (fold (take_over (p_id pkg)) (pl_rows plan)
        (insert_files (p_id pkg) pf (filter (\<lambda>row. pr_existing row = None) (pl_rows plan)) d)))"
    and "\<exists>b \<in> set (builds (db s)). b_id b = i \<and> b_status b = Publishing"
proof -
  let ?p = "\<lambda>b. b_id b = i \<and> b_status b = Publishing"
  let ?f = "\<lambda>b. b\<lparr>b_version := pl_version plan, b_size := Some (pl_total_size plan), b_end_time := Some (clock s)\<rparr>"
  let ?g = "\<lambda>p. p\<lparr>p_out_of_date := False, p_upstream_version := Some (pl_version plan)\<rparr>"
  let ?u = "(tick s)\<lparr>db := set_builds ?p ?f (db s)\<rparr>"
  from assms obtain y v z where pos: "length (filter ?p (builds (db s))) \<noteq> 0"
    and v: "record_files pkg pf plan ?u = (Inr y, v)"
    and w: "refresh_package_status (p_id pkg)
      ((tick v)\<lparr>db := set_packages (\<lambda>p. p_id p = p_id pkg) ?g (db v)\<rparr>) = (Inr z, t)"
    by (auto simp: record_publication_def db_simps split: if_splits)
  show "\<exists>b \<in> set (builds (db s)). ?p b" using pos by (auto simp: filter_empty_conv)
  show "\<exists>d. files d = files (db s) \<and> next_file_id d = next_file_id (db s) \<and>
      files (db t) = files (drop_stale (pl_stale plan) (fold (take_over (p_id pkg)) (pl_rows plan)
        (insert_files (p_id pkg) pf (filter (\<lambda>row. pr_existing row = None) (pl_rows plan)) d)))"
    by (rule exI [of _ "db ?u"]) (use record_files_Inr [OF v] refresh_package_status_Inr [OF w] in simp)
qed

lemma insert_files_old: "f \<in> set (files d) \<Longrightarrow> f \<in> set (files (insert_files k pf rows d))"
  by (induction rows arbitrary: d) (simp_all add: insert_file_def)

lemma insert_files_new:
  "f \<in> set (files (insert_files k pf rows d)) \<Longrightarrow>
     f \<in> set (files d) \<or> f_platform f = pf \<and> f_package_id f = k \<and> next_file_id d \<le> f_id f \<and>
       f_filename f \<in> pr_filename ` set rows"
proof (induction rows arbitrary: d)
  case (Cons row rows)
  from Cons.IH [of "insert_file k pf row d"] Cons.prems show ?case
    by (auto simp: insert_file_def)
qed simp

lemma insert_files_all:
  "row \<in> set rows \<Longrightarrow> \<exists>f \<in> set (files (insert_files k pf rows d)).
     f_filename f = pr_filename row \<and> f_platform f = pf \<and> f_package_id f = k \<and> next_file_id d \<le> f_id f"
proof (induction rows arbitrary: d)
  case (Cons r rows)
  show ?case
  proof (cases "row = r")
    case True
    let ?f = "\<lparr>f_id = next_file_id d, f_filename = pr_filename r, f_platform = pf, f_package_id = k,
      f_size = Some (pr_size r)\<rparr>"
    have "?f \<in> set (files (insert_files k pf rows (insert_file k pf r d)))"
      by (rule insert_files_old) (simp add: insert_file_def)
    then show ?thesis using True by (intro bexI [of _ ?f]) simp_all
  next
    case False
    with Cons have "\<exists>f \<in> set (files (insert_files k pf rows (insert_file k pf r d))).
        f_filename f = pr_filename row \<and> f_platform f = pf \<and> f_package_id f = k \<and>
        next_file_id (insert_file k pf r d) \<le> f_id f" by auto
    then show ?thesis by (force simp: insert_file_def)
  qed
qed simp

definition existing_ids :: "plan_row list \<Rightarrow> id set" where
  "existing_ids rows = {i. \<exists>row \<in> set rows. pr_existing row = Some i}"

lemma fold_take_over:
  "\<exists>g. files (fold (take_over k) rows d) = map g (files d) \<and>
     (\<forall>f. f_id (g f) = f_id f \<and> f_filename (g f) = f_filename f \<and> f_platform (g f) = f_platform f \<and>
       f_package_id (g f) = (if f_id f \<in> existing_ids rows then k else f_package_id f))"
proof (induction rows arbitrary: d)
  case Nil
  show ?case by (rule exI [of _ id]) (simp add: existing_ids_def)
next
  case (Cons row rows)
  define h where "h = (\<lambda>f :: file_row. case pr_existing row of None \<Rightarrow> f
    | Some i \<Rightarrow> if f_id f = i then f\<lparr>f_package_id := k, f_size := Some (pr_size row)\<rparr> else f)"
  have h: "files (take_over k row d) = map h (files d)"
    by (simp add: take_over_def h_def split: option.splits)
  from Cons.IH [of "take_over k row d"] obtain g where
    g: "files (fold (take_over k) rows (take_over k row d)) = map g (files (take_over k row d))"
      "\<forall>f. f_id (g f) = f_id f \<and> f_filename (g f) = f_filename f \<and> f_platform (g f) = f_platform f \<and>
       f_package_id (g f) = (if f_id f \<in> existing_ids rows then k else f_package_id f)" by blast
  show ?case
    by (rule exI [of _ "g \<circ> h"])
      (use g h in \<open>auto simp: h_def existing_ids_def split: option.splits\<close>)
qed

lemma files_same_id: "files_ok d \<Longrightarrow> f \<in> set (files d) \<Longrightarrow> g \<in> set (files d) \<Longrightarrow> f_id f = f_id g \<Longrightarrow> f = g"
  by (auto simp: files_ok_def dest: distinct_map_eq)

lemma files_find:
  "files_ok d \<Longrightarrow> f \<in> set (files d) \<Longrightarrow>
   find (\<lambda>g. f_filename g = f_filename f \<and> f_platform g = f_platform f) (files d) = Some f"
  by (rule find_unique) (auto simp: files_ok_def dest: distinct_map_eq)

lemma existing_ids_plan:
  assumes ok: "files_ok d" and f: "f \<in> set (files d)"
  shows "f_id f \<in> existing_ids (plan_of pf described d) \<longleftrightarrow>
    f_platform f = pf \<and> f_filename f \<in> set (map st_filename described)"
proof
  assume "f_id f \<in> existing_ids (plan_of pf described d)"
  then obtain st g where st: "st \<in> set described" "g \<in> set (files d)" "f_filename g = st_filename st"
      "f_platform g = pf" "f_id f = f_id g"
    by (auto simp: existing_ids_def plan_of_def dest!: find_Some_mem)
  then show "f_platform f = pf \<and> f_filename f \<in> set (map st_filename described)"
    using files_same_id [OF ok f st(2)] by auto
next
  assume "f_platform f = pf \<and> f_filename f \<in> set (map st_filename described)"
  with files_find [OF ok f] show "f_id f \<in> existing_ids (plan_of pf described d)"
    by (force simp: existing_ids_def plan_of_def)
qed

lemma owned_after_record:
  assumes plan: "plan_publication pkg pf described ver s = (Inr plan, u)" and ok: "files_ok (db s)"
    and rec: "record_publication i pkg pf plan u = (Inr x, t)"
  shows "owned_files (p_id pkg) pf (db t) = set (map st_filename described)"
proof -
  let ?k = "p_id pkg" and ?N = "set (map st_filename described)" and ?F = "files (db s)"
  let ?rows = "plan_of pf described (db s)"
  let ?stale = "filter (\<lambda>f. f_package_id f = ?k \<and> f_platform f = pf \<and> f_filename f \<notin> ?N) ?F"
  let ?new = "filter (\<lambda>row. pr_existing row = None) ?rows"
  note p = plan_publication_Inr [OF plan ok]
  from record_Inr(1) [OF rec] p obtain d where d: "files d = ?F" "next_file_id d = next_file_id (db s)"
    and t: "files (db t) = files (drop_stale ?stale (fold (take_over ?k) ?rows (insert_files ?k pf ?new d)))"
    by auto
  obtain g where g: "files (fold (take_over ?k) ?rows (insert_files ?k pf ?new d)) =
      map g (files (insert_files ?k pf ?new d))"
    and gf: "\<And>f. f_id (g f) = f_id f" "\<And>f. f_filename (g f) = f_filename f" "\<And>f. f_platform (g f) = f_platform f"
      "\<And>f. f_package_id (g f) = (if f_id f \<in> existing_ids ?rows then ?k else f_package_id f)"
    using fold_take_over [of ?k ?rows "insert_files ?k pf ?new d"] by blast
  let ?I = "set (files (insert_files ?k pf ?new d))"
  have mem: "h \<in> set (files (db t)) \<longleftrightarrow> (\<exists>f \<in> ?I. h = g f \<and> f_id f \<notin> f_id ` set ?stale)" for h
    unfolding t drop_stale_def using g by (auto simp: gf)
  have old: "f_filename f \<in> ?N" if "f \<in> set ?F" "f_id f \<notin> f_id ` set ?stale" "f_package_id (g f) = ?k"
      "f_platform f = pf" for f
  proof (rule ccontr)
    assume "f_filename f \<notin> ?N"
    moreover from this have "f_package_id f = ?k"
      using that(3) existing_ids_plan [OF ok that(1), of pf described] by (simp add: gf)
    ultimately have "f \<in> set ?stale" using that by simp
    then show False using that(2) by blast
  qed
  have "owned_files ?k pf (db t) \<subseteq> ?N"
  proof
    fix n assume "n \<in> owned_files ?k pf (db t)"
    then obtain f where f: "f \<in> ?I" "f_id f \<notin> f_id ` set ?stale" "f_package_id (g f) = ?k" "f_platform f = pf"
      "n = f_filename f" by (auto simp: owned_files_def mem gf)
    from insert_files_new [OF f(1)] d show "n \<in> ?N"
      using old [OF _ f(2-4)] f(5) by (auto simp: plan_of_def)
  qed
  moreover have "n \<in> owned_files ?k pf (db t)" if n: "n \<in> ?N" for n
  proof -
    have "\<exists>f \<in> ?I. f_filename f = n \<and> f_platform f = pf \<and> f_package_id (g f) = ?k \<and> f_id f \<notin> f_id ` set ?stale"
    proof (cases "find (\<lambda>f. f_filename f = n \<and> f_platform f = pf) ?F")
      case (Some f)
      then have f: "f \<in> set ?F" "f_filename f = n" "f_platform f = pf" by (auto dest: find_Some_mem)
      then have "f_package_id (g f) = ?k" using existing_ids_plan [OF ok f(1)] n by (simp add: gf)
      moreover have "f_id f \<notin> f_id ` set ?stale" using files_same_id [OF ok] f n by auto
      moreover have "f \<in> ?I" using f(1) d(1) insert_files_old by metis
      ultimately show ?thesis using f by blast
    next
      case None
      from n obtain st where st: "st \<in> set described" "st_filename st = n" by auto
      let ?row = "\<lparr>pr_filename = st_filename st, pr_existing = map_option f_id
        (find (\<lambda>f. f_filename f = st_filename st \<and> f_platform f = pf) ?F), pr_size = st_size st\<rparr>"
      have "?row \<in> set ?rows" unfolding plan_of_def using st(1) by simp
      with None st(2) obtain row where row: "row \<in> set ?new" "pr_filename row = n" by fastforce
      from insert_files_all [OF row(1), of ?k pf d] obtain f where f: "f \<in> ?I" "f_filename f = n"
        "f_platform f = pf" "f_package_id f = ?k" "next_file_id d \<le> f_id f" using row(2) by auto
      have "f_id f \<notin> f_id ` set ?stale" using f(5) d(2) ok by (fastforce simp: files_ok_def)
      with f show ?thesis by (auto simp: gf)
    qed
    then obtain f where f: "f \<in> ?I" "f_filename f = n" "f_platform f = pf" "f_package_id (g f) = ?k"
      "f_id f \<notin> f_id ` set ?stale" by blast
    then have "g f \<in> set (files (db t))" unfolding mem by blast
    with f show ?thesis unfolding owned_files_def by (intro image_eqI [of _ _ "g f"]) (auto simp: gf)
  qed
  ultimately show ?thesis by blast
qed

section \<open>Properties\<close>

definition sample_publication :: server where
  "sample_publication = snd (complete sample_owner 3 2 (report_of Outcome_Succeeded) sample_server)
     \<lparr>db := (db (snd (complete sample_owner 3 2 (report_of Outcome_Succeeded) sample_server)))
        \<lparr>files := [\<lparr>f_id = 1, f_filename = ''old'', f_platform = X86_64, f_package_id = 1, f_size = None\<rparr>,
                   \<lparr>f_id = 2, f_filename = ''lib'', f_platform = X86_64, f_package_id = 2, f_size = None\<rparr>],
         next_file_id := 3\<rparr>\<rparr>"

definition sample_staged :: "staged list" where
  "sample_staged = [\<lparr>st_filename = ''lib'', st_size = 10\<rparr>, \<lparr>st_filename = ''new'', st_size = 20\<rparr>]"

text \<open>C24: After a publication is planned and recorded, the package owns, on the build's platform,
  exactly the files that were staged: new names are added, names it held but no longer
  ships are dropped, and a name another package held changes hands only when that package is
  gone or depends on the publishing one.\<close>

theorem publication_owns_staged:
  assumes plan: "plan_publication pkg pf described ver s = (Inr plan, u)" and ok: "files_ok (db s)"
    and rec: "record_publication i pkg pf plan u = (Inr x, t)"
  shows "owned_files (p_id pkg) pf (db t) = set (map st_filename described) \<and>
    (\<forall>f \<in> set (files (db s)). f_platform f = pf \<and> f_filename f \<in> set (map st_filename described) \<longrightarrow>
       may_take pkg f (db s))"
  using owned_after_record [OF plan ok rec] plan_publication_Inr(5) [OF plan ok] by blast

theorem publication_owns_staged_witness:
  "\<exists>plan u t. plan_publication (sample_package 1 ''lib'' Active) X86_64 sample_staged ''2-1'' sample_publication = (Inr plan, u) \<and>
     record_publication 2 (sample_package 1 ''lib'' Active) X86_64 plan u = (Inr (), t) \<and>
     owned_files 1 X86_64 (db t) = {''lib'', ''new''}"
proof -
  let ?pkg = "sample_package 1 ''lib'' Active"
  have "(case plan_publication ?pkg X86_64 sample_staged ''2-1'' sample_publication of
      (Inr plan, u) \<Rightarrow> (case record_publication 2 ?pkg X86_64 plan u of (Inr x, t) \<Rightarrow> True | _ \<Rightarrow> False) | _ \<Rightarrow> False)"
    by code_simp
  then obtain plan u where
    p: "plan_publication ?pkg X86_64 sample_staged ''2-1'' sample_publication = (Inr plan, u)"
    and c: "case record_publication 2 ?pkg X86_64 plan u of (Inr x, t) \<Rightarrow> True | _ \<Rightarrow> False" by (rule case_InrE)
  from c obtain t where r: "record_publication 2 ?pkg X86_64 plan u = (Inr (), t)" by (rule case_InrE) simp
  have "files_ok (db sample_publication)" by code_simp
  then have "owned_files (p_id ?pkg) X86_64 (db t) = set (map st_filename sample_staged)"
    using publication_owns_staged [OF p _ r] by blast
  then show ?thesis using p r by (auto simp: sample_package_def sample_staged_def)
qed

text \<open>The file name of a package reads back as the name and version it was made of, however many
  dashes the name has and whatever the compression.\<close>

theorem filename_round_trip:
  assumes "CHR ''.'' \<notin> set ext" "CHR ''-'' \<notin> set ver" "CHR ''-'' \<notin> set rel" "CHR ''-'' \<notin> set arch"
  shows "parse_arch_pkg (name @ ''-'' @ ver @ ''-'' @ rel @ ''-'' @ arch @ ''.pkg.tar.'' @ ext) =
    Inr \<lparr>pp_name = name, pp_version = ver @ ''-'' @ rel\<rparr>"
  by (rule parse_arch_pkg_parts [OF assms])

theorem filename_round_trip_witness:
  "parse_arch_pkg ''lib-foo-1.2-3-x86_64.pkg.tar.zst'' = Inr \<lparr>pp_name = ''lib-foo'', pp_version = ''1.2-3''\<rparr>"
  using filename_round_trip [of "''zst''" "''1.2''" "''3''" "''x86_64''" "''lib-foo''"] by simp



lemma settle_Inr:
  assumes "settle build s = (Inr x, t)"
  shows "db t = (if \<exists>b \<in> set (builds (db s)). b_id b = b_id build \<and> b_status b = Publishing
    then refreshed (b_pkg_id build) (set_builds (\<lambda>b. b_id b = b_id build \<and> b_status b = Publishing)
      (\<lambda>b. b\<lparr>b_status := Successful\<rparr>) (db s)) else db s)"
proof -
  from assms obtain r u where "transition build [Publishing] Successful (\<lambda>_. True) (\<lambda>b. b) s = (Inr r, u)" "t = u"
    by (auto simp: settle_def db_simps)
  then show ?thesis using transition_Inr [of build "[Publishing]" Successful "\<lambda>_. True" "\<lambda>b. b" s r u]
    by (auto simp: moves_def [abs_def] moved_to_def [abs_def] split: if_splits)
qed

text \<open>Publishing ends once: settling marks a build successful only while it is being published, and
  a failure reported afterwards changes nothing; likewise after a failed publication
  settling changes nothing.\<close>

theorem publication_ends_once:
  shows "(settle build s = (Inr (), t) \<and> fail_publication build t = (Inr r, u) \<longrightarrow> r = Unchanged \<and> db u = db t) \<and>
    (fail_publication build s = (Inr q, t) \<and> settle build t = (Inr (), u) \<longrightarrow> db u = db t)"
proof -
  have fail: "if \<exists>b \<in> set (builds (db v)). b_id b = b_id build \<and> b_status b = Publishing
      then (\<forall>b \<in> set (builds (db w)). b_id b = b_id build \<longrightarrow> b_status b \<noteq> Publishing) else oc = Unchanged \<and> db w = db v"
    if "fail_publication build v = (Inr oc, w)" for v w oc
    using that transition_Inr [of build "[Publishing]" Failed "\<lambda>_. True" "\<lambda>b. b\<lparr>b_end_time := Some (clock v)\<rparr>" v oc w]
    by (auto simp: fail_publication_def db_simps moves_def moved_to_def split: if_splits)
  have settled: "\<forall>b \<in> set (builds (db w)). b_id b = b_id build \<longrightarrow> b_status b \<noteq> Publishing"
    if "settle build v = (Inr (), w)" for v w
    using settle_Inr [OF that] by (auto split: if_splits)
  have "r = Unchanged \<and> db u = db t" if "settle build s = (Inr (), t)" "fail_publication build t = (Inr r, u)"
    using fail [OF that(2)] settled [OF that(1)] by meson
  moreover have "db u = db t" if "fail_publication build s = (Inr q, t)" "settle build t = (Inr (), u)"
    using fail [OF that(1)] settle_Inr [OF that(2)] by metis
  ultimately show ?thesis by blast
qed

theorem publication_ends_once_witness:
  "\<exists>b t r u. b_status b = Publishing \<and> settle b sample_publication = (Inr (), t) \<and>
     fail_publication b t = (Inr r, u) \<and> r = Unchanged \<and> db u = db t"
proof -
  let ?b = "builds (db sample_publication) ! 1"
  have st: "b_status ?b = Publishing" by code_simp
  have "(case settle ?b sample_publication of
      (Inr x, t) \<Rightarrow> (case fail_publication ?b t of (Inr r, u) \<Rightarrow> True | _ \<Rightarrow> False) | _ \<Rightarrow> False)"
    by code_simp
  then obtain x t where t: "settle ?b sample_publication = (Inr x, t)"
    and c: "case fail_publication ?b t of (Inr r, u) \<Rightarrow> True | _ \<Rightarrow> False" by (rule case_InrE)
  from c obtain r u where "fail_publication ?b t = (Inr r, u)" by (rule case_InrE)
  with st t publication_ends_once [of ?b sample_publication t r u] show ?thesis by auto
qed

end
