(* ===== verification/Units.thy ===== *)
theory Units
  imports Prelude
begin

text \<open>
  \<^verbatim>\<open>aurcache-common/src/units.rs\<close>, the sizes and durations of the configuration, and the
  worker policy \<^verbatim>\<open>aurcache-utils/src/worker_policy.rs\<close> reads with them. A \<^verbatim>\<open>u64\<close> is a natural
  number that the checked operations keep below \<open>u64_MAX\<close>.
\<close>

section \<open>Numbers as text\<close>

definition digit_char :: "nat \<Rightarrow> char" where
  "digit_char n = char_of (48 + n)"

definition digit_value :: "char \<Rightarrow> nat" where
  "digit_value c = of_char c - 48"

fun show_nat :: "nat \<Rightarrow> string" where
  "show_nat n = (if n < 10 then [digit_char n] else show_nat (n div 10) @ [digit_char (n mod 10)])"

declare show_nat.simps [simp del]

definition digits_value :: "string \<Rightarrow> nat" where
  "digits_value s = foldl (\<lambda>n c. n * 10 + digit_value c) 0 s"

text \<open>\<^verbatim>\<open>str::parse::<u64>\<close>: digits, after at most one plus sign, that fit.\<close>

definition parse_u64 :: "string \<Rightarrow> nat option" where
  "parse_u64 s =
     (let ds = (case s of [] \<Rightarrow> [] | c # cs \<Rightarrow> if c = CHR ''+'' then cs else s) in
      if ds \<noteq> [] \<and> list_all is_ascii_digit ds \<and> digits_value ds \<le> u64_MAX
      then Some (digits_value ds) else None)"

text \<open>\<^verbatim>\<open>str::parse::<i64>\<close>: a minus sign too, and the range of an \<^verbatim>\<open>i64\<close>.\<close>

definition parse_i64 :: "string \<Rightarrow> int option" where
  "parse_i64 s =
     (let neg = (case s of [] \<Rightarrow> False | c # _ \<Rightarrow> c = CHR ''-'');
          ds = (case s of [] \<Rightarrow> [] | c # cs \<Rightarrow> if c = CHR ''+'' \<or> c = CHR ''-'' then cs else s);
          v = (if neg then - int (digits_value ds) else int (digits_value ds)) in
      if ds \<noteq> [] \<and> list_all is_ascii_digit ds \<and> - i64_MAX - 1 \<le> v \<and> v \<le> i64_MAX
      then Some v else None)"

definition checked_mul :: "nat \<Rightarrow> nat \<Rightarrow> nat option" where
  "checked_mul a b = (if a * b \<le> u64_MAX then Some (a * b) else None)"

definition checked_add :: "nat \<Rightarrow> nat \<Rightarrow> nat option" where
  "checked_add a b = (if a + b \<le> u64_MAX then Some (a + b) else None)"

definition to_ascii_lowercase :: "string \<Rightarrow> string" where
  "to_ascii_lowercase s =
     map (\<lambda>c. if 65 \<le> (of_char c :: nat) \<and> (of_char c :: nat) \<le> 90 then char_of (of_char c + (32 :: nat)) else c) s"

definition is_ascii_alphabetic :: "char \<Rightarrow> bool" where
  "is_ascii_alphabetic c \<longleftrightarrow>
     (65 \<le> (of_char c :: nat) \<and> (of_char c :: nat) \<le> 90) \<or> (97 \<le> (of_char c :: nat) \<and> (of_char c :: nat) \<le> 122)"

section \<open>Sizes\<close>

definition size_exponent :: "char \<Rightarrow> nat option" where
  "size_exponent c =
     (if c = CHR ''k'' then Some 1 else if c = CHR ''m'' then Some 2
      else if c = CHR ''g'' then Some 3 else if c = CHR ''t'' then Some 4 else None)"

definition size_base :: "string \<Rightarrow> nat option" where
  "size_base s = (if s = [] \<or> s = ''ib'' then Some 1024 else if s = ''b'' then Some 1000 else None)"

definition parse_size :: "string \<Rightarrow> nat option" where
  "parse_size raw =
     (let s = trim raw;
          number = takeWhile is_ascii_digit s;
          unit = dropWhile is_ascii_digit s
      in case parse_u64 number of
           None \<Rightarrow> None
         | Some n \<Rightarrow>
             (case to_ascii_lowercase (trim_start unit) of
                [] \<Rightarrow> Some n
              | letter # chars \<Rightarrow>
                  if letter = CHR ''b'' \<and> chars = [] then Some n
                  else
                    (case size_exponent letter of
                       None \<Rightarrow> None
                     | Some exponent \<Rightarrow>
                         (case size_base chars of
                            None \<Rightarrow> None
                          | Some base \<Rightarrow> checked_mul n (base ^ exponent)))))"

definition SIZE_UNITS :: "(char \<times> nat) list" where
  "SIZE_UNITS = [(CHR ''T'', 2 ^ 40), (CHR ''G'', 2 ^ 30), (CHR ''M'', 2 ^ 20), (CHR ''K'', 2 ^ 10)]"

definition format_with :: "(char \<times> nat) list \<Rightarrow> nat \<Rightarrow> string" where
  "format_with units n =
     (case find (\<lambda>(_, unit). n \<noteq> 0 \<and> n mod unit = 0) units of
        None \<Rightarrow> show_nat n
      | Some (letter, unit) \<Rightarrow> show_nat (n div unit) @ [letter])"

definition format_size :: "nat \<Rightarrow> string" where
  "format_size bytes = format_with SIZE_UNITS bytes"

section \<open>Durations\<close>

definition unit_seconds :: "string \<Rightarrow> nat option" where
  "unit_seconds u =
     (if u \<in> {''s'', ''sec'', ''secs'', ''second'', ''seconds''} then Some 1
      else if u \<in> {''m'', ''min'', ''mins'', ''minute'', ''minutes''} then Some 60
      else if u \<in> {''h'', ''hr'', ''hrs'', ''hour'', ''hours''} then Some (60 * 60)
      else if u \<in> {''d'', ''day'', ''days''} then Some (24 * 60 * 60)
      else if u \<in> {''w'', ''week'', ''weeks''} then Some (7 * 24 * 60 * 60)
      else None)"

lemma parse_u64_Nil [simp]: "parse_u64 [] = None"
  by (simp add: parse_u64_def)

lemma length_trim_start: "length (trim_start s) \<le> length s"
  by (simp add: trim_start_def length_dropWhile_le)

lemma takeWhile_dropWhile_length: "takeWhile P xs \<noteq> [] \<Longrightarrow> length (dropWhile P xs) < length xs"
  by (cases xs) (auto simp: le_imp_less_Suc length_dropWhile_le split: if_splits)

text \<open>The loop over the terms; every round takes at least one digit off the front.\<close>

function duration_terms :: "string \<Rightarrow> nat \<Rightarrow> nat \<Rightarrow> nat option" where
  "duration_terms rest acc terms =
     (if rest = [] then (if terms > 0 then Some acc else None)
      else
        (case parse_u64 (takeWhile is_ascii_digit rest) of
           None \<Rightarrow> None
         | Some number \<Rightarrow>
             (let after = trim_start (dropWhile is_ascii_digit rest) in
              case unit_seconds (to_ascii_lowercase (takeWhile is_ascii_alphabetic after)) of
                None \<Rightarrow> None
              | Some secs \<Rightarrow>
                  (case checked_mul number secs of
                     None \<Rightarrow> None
                   | Some amount \<Rightarrow>
                       (case checked_add acc amount of
                          None \<Rightarrow> None
                        | Some acc' \<Rightarrow>
                            duration_terms (trim_start (dropWhile is_ascii_alphabetic after)) acc'
                              (terms + 1))))))"
  by pat_completeness auto

termination
proof (relation "measure (\<lambda>(rest, _, _). length rest)", simp, goal_cases)
  case (1 rest acc terms number after secs amount acc')
  then have "takeWhile is_ascii_digit rest \<noteq> []" by (metis option.distinct(1) parse_u64_Nil)
  then have "length after < length rest"
    using 1 takeWhile_dropWhile_length length_trim_start le_less_trans by metis
  moreover have "length (trim_start (dropWhile is_ascii_alphabetic after)) \<le> length after"
    using length_trim_start length_dropWhile_le order_trans by metis
  ultimately show ?case by simp
qed

declare duration_terms.simps [simp del]

definition parse_duration :: "string \<Rightarrow> nat option" where
  "parse_duration raw =
     (let s = trim raw in
      case parse_u64 s of
        Some seconds \<Rightarrow> Some seconds
      | None \<Rightarrow> duration_terms s 0 0)"

definition DURATION_UNITS :: "(char \<times> nat) list" where
  "DURATION_UNITS =
     [(CHR ''w'', 7 * 24 * 60 * 60), (CHR ''d'', 24 * 60 * 60), (CHR ''h'', 60 * 60), (CHR ''m'', 60)]"

definition format_duration :: "nat \<Rightarrow> string" where
  "format_duration seconds = format_with DURATION_UNITS seconds"

section \<open>The worker policy\<close>

record worker_policy =
  wp_lease_ttl_secs :: int
  wp_max_attempts :: int
  wp_spill_delay_secs :: int
  wp_liveness_timeout_secs :: int
  wp_reap_interval_secs :: nat
  wp_reap_backstop_grace_secs :: int
  wp_cert_validity_days :: int

definition lookup_set :: "(string \<Rightarrow> string option) \<Rightarrow> string \<Rightarrow> string option" where
  "lookup_set lookup key =
     (case lookup key of None \<Rightarrow> None | Some v \<Rightarrow> if trim v = [] then None else Some v)"

definition policy_duration :: "(string \<Rightarrow> string option) \<Rightarrow> string \<Rightarrow> nat \<Rightarrow> nat" where
  "policy_duration lookup key dflt =
     (case lookup_set lookup key of
        None \<Rightarrow> dflt
      | Some raw \<Rightarrow> (case parse_duration raw of None \<Rightarrow> dflt | Some d \<Rightarrow> d))"

definition policy_count :: "(string \<Rightarrow> string option) \<Rightarrow> string \<Rightarrow> int \<Rightarrow> int" where
  "policy_count lookup key dflt =
     (case lookup_set lookup key of
        None \<Rightarrow> dflt
      | Some raw \<Rightarrow> (case parse_i64 (trim raw) of None \<Rightarrow> dflt | Some n \<Rightarrow> n))"

definition policy_seconds :: "(string \<Rightarrow> string option) \<Rightarrow> string \<Rightarrow> nat \<Rightarrow> int" where
  "policy_seconds lookup key dflt =
     (let d = int (policy_duration lookup key dflt) in if d \<le> i64_MAX then d else i64_MAX)"

definition from_lookup :: "(string \<Rightarrow> string option) \<Rightarrow> worker_policy" where
  "from_lookup lookup =
     \<lparr>wp_lease_ttl_secs = policy_seconds lookup ''LEASE_TTL'' 60,
      wp_max_attempts =
        (let n = policy_count lookup ''MAX_ATTEMPTS'' 3
         in if - i32_MAX - 1 \<le> n \<and> n \<le> i32_MAX then n else 3),
      wp_spill_delay_secs = policy_seconds lookup ''WORKER_SPILL_DELAY'' 60,
      wp_liveness_timeout_secs = policy_seconds lookup ''WORKER_LIVENESS_TIMEOUT'' 60,
      wp_reap_interval_secs = max (policy_duration lookup ''REAP_INTERVAL'' 20) 1,
      wp_reap_backstop_grace_secs = policy_seconds lookup ''REAP_BACKSTOP_GRACE'' 300,
      wp_cert_validity_days = policy_count lookup ''WORKER_CERT_VALIDITY_DAYS'' 3650\<rparr>"

section \<open>Reading back what was written\<close>

lemma of_char_digit: "n < 10 \<Longrightarrow> (of_char (digit_char n) :: nat) = 48 + n"
  by (simp add: digit_char_def)

lemma digit_char_digit: "n < 10 \<Longrightarrow> is_ascii_digit (digit_char n)"
  by (simp add: is_ascii_digit_def of_char_digit)

lemma digit_value_char: "n < 10 \<Longrightarrow> digit_value (digit_char n) = n"
  by (simp add: digit_value_def of_char_digit)

lemma show_nat_neq_Nil [simp]: "show_nat n \<noteq> []"
  by (subst show_nat.simps) simp

lemma digits_value_snoc: "digits_value (s @ [c]) = digits_value s * 10 + digit_value c"
  by (simp add: digits_value_def)

lemma show_nat_digits: "list_all is_ascii_digit (show_nat n)"
proof (induction n rule: show_nat.induct)
  case (1 n)
  then show ?case by (subst show_nat.simps) (auto simp: digit_char_digit)
qed

lemma digits_value_show [simp]: "digits_value (show_nat n) = n"
proof (induction n rule: show_nat.induct)
  case (1 n)
  show ?case
  proof (cases "n < 10")
    case True
    then show ?thesis by (subst show_nat.simps) (simp add: digits_value_def digit_value_char)
  next
    case False
    then show ?thesis using 1 by (subst show_nat.simps) (simp add: digits_value_snoc digit_value_char)
  qed
qed

lemma digit_not_space: "is_ascii_digit c \<Longrightarrow> \<not> is_whitespace c \<and> c \<noteq> CHR ''+'' \<and> c \<noteq> CHR ''-''"
  by (auto simp: is_ascii_digit_def is_whitespace_def)

lemma alpha_not_space: "is_ascii_alphabetic c \<Longrightarrow> \<not> is_whitespace c \<and> \<not> is_ascii_digit c"
  by (auto simp: is_ascii_alphabetic_def is_whitespace_def is_ascii_digit_def)

lemma digit_not_alpha: "is_ascii_digit c \<Longrightarrow> \<not> is_ascii_alphabetic c"
  by (auto simp: is_ascii_alphabetic_def is_ascii_digit_def)

lemma hd_show_nat: "is_ascii_digit (hd (show_nat n))"
  using show_nat_digits [of n] by (cases "show_nat n") auto

lemma parse_u64_digits:
  "ds \<noteq> [] \<Longrightarrow> list_all is_ascii_digit ds \<Longrightarrow>
   parse_u64 ds = (if digits_value ds \<le> u64_MAX then Some (digits_value ds) else None)"
  by (cases ds) (auto simp: parse_u64_def dest: digit_not_space)

lemma parse_u64_show: "n \<le> u64_MAX \<Longrightarrow> parse_u64 (show_nat n) = Some n"
  by (simp add: parse_u64_digits show_nat_digits)

lemma takeWhile_show:
  assumes "rest = [] \<or> \<not> is_ascii_digit (hd rest)"
  shows "takeWhile is_ascii_digit (show_nat n @ rest) = show_nat n"
    "dropWhile is_ascii_digit (show_nat n @ rest) = rest"
proof -
  have all: "\<forall>c \<in> set (show_nat n). is_ascii_digit c" using show_nat_digits [of n] by (simp add: list_all_iff)
  have "takeWhile is_ascii_digit rest = []" "dropWhile is_ascii_digit rest = rest"
    using assms by (cases rest; simp)+
  with all show "takeWhile is_ascii_digit (show_nat n @ rest) = show_nat n"
    "dropWhile is_ascii_digit (show_nat n @ rest) = rest" by simp_all
qed

lemma takeWhile_show_plain [simp]:
  "takeWhile is_ascii_digit (show_nat n) = show_nat n" "dropWhile is_ascii_digit (show_nat n) = []"
  using takeWhile_show [of "[]" n] by simp_all

lemma trim_show:
  assumes "rest = [] \<or> \<not> is_whitespace (last rest)"
  shows "trim (show_nat n @ rest) = show_nat n @ rest"
proof (rule trim_trimmed)
  have "is_ascii_digit (last (show_nat n))"
    using show_nat_digits [of n] by (simp add: list_all_iff)
  then show "trimmed (show_nat n @ rest)"
    using assms hd_show_nat [of n] digit_not_space by (cases "rest = []") (auto simp: trimmed_def)
qed

lemma trim_show_plain [simp]: "trim (show_nat n) = show_nat n"
  using trim_show [of "[]" n] by simp

lemma parse_size_plain: "n \<le> u64_MAX \<Longrightarrow> parse_size (show_nat n) = Some n"
  by (simp add: parse_size_def Let_def parse_u64_show trim_start_def to_ascii_lowercase_def)

lemma parse_size_letter:
  assumes "n \<le> u64_MAX" and c: "\<not> is_ascii_digit c" "\<not> is_whitespace c"
    and e: "to_ascii_lowercase [c] = [l]" "size_exponent l = Some e"
  shows "parse_size (show_nat n @ [c]) = checked_mul n (1024 ^ e)"
proof -
  have "l \<noteq> CHR ''b''" using e(2) by (auto simp: size_exponent_def)
  then show ?thesis
    using assms trim_show [of "[c]" n] takeWhile_show [of "[c]" n]
    by (simp add: parse_size_def Let_def parse_u64_show trim_start_def size_base_def)
qed

lemma size_unit_letter:
  assumes "(c, u) \<in> set SIZE_UNITS"
  shows "\<exists>e l. u = 1024 ^ e \<and> to_ascii_lowercase [c] = [l] \<and> size_exponent l = Some e \<and>
    \<not> is_ascii_digit c \<and> \<not> is_whitespace c"
proof -
  have "to_ascii_lowercase ''T'' = ''t''" "to_ascii_lowercase ''G'' = ''g''" "to_ascii_lowercase ''M'' = ''m''"
    "to_ascii_lowercase ''K'' = ''k''" by code_simp+
  moreover have "size_exponent CHR ''t'' = Some 4" "size_exponent CHR ''g'' = Some 3"
    "size_exponent CHR ''m'' = Some 2" "size_exponent CHR ''k'' = Some 1" by code_simp+
  ultimately show ?thesis using assms
    by (fastforce simp: SIZE_UNITS_def is_ascii_digit_def is_whitespace_def)
qed

lemma format_with_cases:
  obtains "format_with units n = show_nat n"
  | c u where "(c, u) \<in> set units" "n mod u = 0" "format_with units n = show_nat (n div u) @ [c]"
proof (cases "find (\<lambda>(_, unit). n \<noteq> 0 \<and> n mod unit = 0) units")
  case None
  then show ?thesis using that(1) by (simp add: format_with_def)
next
  case (Some cu)
  then show ?thesis using that(2) [of "fst cu" "snd cu"] find_Some_mem [OF Some]
    by (auto simp: format_with_def)
qed

lemma parse_format_size:
  assumes "n \<le> u64_MAX"
  shows "parse_size (format_size n) = Some n"
proof (cases rule: format_with_cases [of SIZE_UNITS n])
  case 1
  then show ?thesis using assms by (simp add: format_size_def parse_size_plain)
next
  case (2 c u)
  obtain e l where e: "u = 1024 ^ e" "to_ascii_lowercase [c] = [l]" "size_exponent l = Some e"
    "\<not> is_ascii_digit c" "\<not> is_whitespace c" using size_unit_letter [OF 2(1)] by blast
  have "n div u * u = n" using 2(2) by auto
  then have "checked_mul (n div u) (1024 ^ e) = Some n" using assms e(1) by (simp add: checked_mul_def)
  moreover have "n div u \<le> u64_MAX" using assms div_le_dividend order_trans by blast
  ultimately show ?thesis using parse_size_letter [OF _ e(4,5,2,3)] 2(3) by (simp add: format_size_def)
qed

text \<open>Durations: each term adds its own seconds.\<close>

definition unit_names :: "string list" where
  "unit_names =
     [''s'', ''sec'', ''secs'', ''second'', ''seconds'', ''m'', ''min'', ''mins'', ''minute'', ''minutes'',
      ''h'', ''hr'', ''hrs'', ''hour'', ''hours'', ''d'', ''day'', ''days'', ''w'', ''week'', ''weeks'']"

lemma unit_seconds_names: "unit_seconds u = Some secs \<Longrightarrow> u \<in> set unit_names \<and> 0 < secs"
  unfolding unit_seconds_def unit_names_def
  by (simp only: list.set insert_iff empty_iff) (auto split: if_splits)

lemma unit_name:
  assumes "unit_seconds u = Some secs"
  shows "list_all is_ascii_alphabetic u \<and> to_ascii_lowercase u = u \<and> u \<noteq> [] \<and> 0 < secs"
proof -
  have "list_all (\<lambda>u. list_all is_ascii_alphabetic u \<and> to_ascii_lowercase u = u \<and> u \<noteq> []) unit_names"
    by code_simp
  with unit_seconds_names [OF assms] show ?thesis unfolding list_all_iff [of _ unit_names] by blast
qed

definition term_text :: "nat \<times> string \<Rightarrow> string" where
  "term_text t = show_nat (fst t) @ snd t"

definition term_seconds :: "nat \<times> string \<Rightarrow> nat" where
  "term_seconds t = fst t * (case unit_seconds (snd t) of None \<Rightarrow> 0 | Some secs \<Rightarrow> secs)"

lemma span_unit:
  assumes "list_all is_ascii_alphabetic u" and "rest = [] \<or> is_ascii_digit (hd rest)"
  shows "takeWhile is_ascii_alphabetic (u @ rest) = u" "dropWhile is_ascii_alphabetic (u @ rest) = rest"
proof -
  have "takeWhile is_ascii_alphabetic rest = []" "dropWhile is_ascii_alphabetic rest = rest"
    using assms(2) by (cases rest; simp add: digit_not_alpha)+
  with assms(1) show "takeWhile is_ascii_alphabetic (u @ rest) = u"
    "dropWhile is_ascii_alphabetic (u @ rest) = rest" by (simp_all add: list_all_iff)
qed

lemma trim_start_id: "s = [] \<or> \<not> is_whitespace (hd s) \<Longrightarrow> trim_start s = s"
  by (cases s) (auto simp: trim_start_def)

lemma duration_terms_sum:
  assumes "\<forall>t \<in> set ts. unit_seconds (snd t) \<noteq> None"
    and "acc + sum_list (map term_seconds ts) \<le> u64_MAX" and "ts \<noteq> [] \<or> 0 < k"
  shows "duration_terms (concat (map term_text ts)) acc k = Some (acc + sum_list (map term_seconds ts))"
  using assms
proof (induction ts arbitrary: acc k)
  case Nil
  then show ?case by (simp add: duration_terms.simps)
next
  case (Cons t ts)
  obtain secs where secs: "unit_seconds (snd t) = Some secs" using Cons.prems(1) by auto
  note unit = unit_name [OF secs]
  let ?rest = "concat (map term_text ts)"
  have rest: "?rest = [] \<or> is_ascii_digit (hd ?rest)"
    by (cases ts) (auto simp: term_text_def hd_show_nat)
  have secs_t: "term_seconds t = fst t * secs" by (simp add: term_seconds_def secs)
  have bound: "acc + fst t * secs + sum_list (map term_seconds ts) \<le> u64_MAX"
    using Cons.prems(2) secs_t by simp
  have "fst t \<le> fst t * secs" using unit by simp
  then have n: "fst t \<le> u64_MAX" using bound by linarith
  have hd_u: "\<not> is_ascii_digit (hd (snd t @ ?rest))" "\<not> is_whitespace (hd (snd t @ ?rest))"
    using unit alpha_not_space by (cases "snd t"; auto)+
  have span: "takeWhile is_ascii_digit (show_nat (fst t) @ snd t @ ?rest) = show_nat (fst t)"
    "trim_start (dropWhile is_ascii_digit (show_nat (fst t) @ snd t @ ?rest)) = snd t @ ?rest"
    using takeWhile_show [of "snd t @ ?rest" "fst t"] hd_u trim_start_id [of "snd t @ ?rest"] by simp_all
  have tail: "trim_start ?rest = ?rest" using rest digit_not_space by (intro trim_start_id) auto
  have "duration_terms (concat (map term_text (t # ts))) acc k =
      duration_terms ?rest (acc + fst t * secs) (Suc k)"
    using span unit secs n bound tail span_unit [OF _ rest, of "snd t"]
    by (subst duration_terms.simps)
      (simp add: term_text_def parse_u64_show Let_def checked_mul_def checked_add_def)
  also have "\<dots> = Some (acc + fst t * secs + sum_list (map term_seconds ts))"
    by (rule Cons.IH) (use Cons.prems(1) bound in auto)
  finally show ?case by (simp add: secs_t add.assoc)
qed

lemma parse_u64_letter:
  assumes "s \<noteq> []" "\<not> is_ascii_digit (last s)"
  shows "parse_u64 s = None"
proof -
  have "\<not> list_all is_ascii_digit ds" if "ds \<noteq> []" "last ds = last s" for ds
    using that assms(2) last_in_set [of ds] by (auto simp: list_all_iff)
  from this [of s] this [of "tl s"] assms(1) show ?thesis
    by (cases s; cases "tl s") (auto simp: parse_u64_def Let_def)
qed

lemma parse_duration_terms:
  assumes ts: "ts \<noteq> []" "\<forall>t \<in> set ts. unit_seconds (snd t) \<noteq> None"
    and fits: "sum_list (map term_seconds ts) \<le> u64_MAX"
  shows "parse_duration (concat (map term_text ts)) = Some (sum_list (map term_seconds ts))"
proof -
  let ?s = "concat (map term_text ts)"
  obtain us t where us: "ts = us @ [t]" using ts(1) by (cases ts rule: rev_cases) auto
  obtain secs where "unit_seconds (snd t) = Some secs" using ts(2) us by auto
  note unit = unit_name [OF this]
  have ne: "?s \<noteq> []" using us by (simp add: term_text_def)
  have "last ?s = last (snd t)" using us unit by (simp add: term_text_def)
  then have last: "is_ascii_alphabetic (last ?s)" using unit by (simp add: list_all_iff)
  have "is_ascii_digit (hd ?s)" using ts(1) by (cases ts) (auto simp: term_text_def hd_show_nat)
  then have "trimmed ?s" using last alpha_not_space digit_not_space by (simp add: trimmed_def)
  then have "trim ?s = ?s" by (rule trim_trimmed)
  moreover have "parse_u64 ?s = None" using parse_u64_letter [OF ne] last alpha_not_space by blast
  moreover have "duration_terms ?s 0 0 = Some (sum_list (map term_seconds ts))"
    using duration_terms_sum [of ts 0 0] ts fits by simp
  ultimately show ?thesis by (simp add: parse_duration_def Let_def)
qed

lemma parse_format_duration:
  assumes "n \<le> u64_MAX"
  shows "parse_duration (format_duration n) = Some n"
proof (cases rule: format_with_cases [of DURATION_UNITS n])
  case 1
  then show ?thesis using assms
    by (simp add: format_duration_def parse_duration_def Let_def parse_u64_show)
next
  case (2 c u)
  then have u: "unit_seconds [c] = Some u" by (auto simp: DURATION_UNITS_def unit_seconds_def)
  have "n div u * u = n" using 2(2) by auto
  then have "term_seconds (n div u, [c]) = n" by (simp add: term_seconds_def u)
  then show ?thesis using parse_duration_terms [of "[(n div u, [c])]"] assms u 2(3)
    by (simp add: format_duration_def term_text_def)
qed

end
