(* ===== verification/Ordered_Maps.thy ===== *)
theory Ordered_Maps
  imports Prelude
begin

text \<open>
  The standard library's ordered map, \<^verbatim>\<open>BTreeMap\<close>, as the sources use it: inserted into,
  looked up, collected from an iterator and walked in the order of its keys. It is the
  association list of its entries in key order; \<open>keyed_map\<close> is what its clients rely on.
\<close>

section \<open>The interface\<close>

locale keyed_map =
  fixes valid :: "'m \<Rightarrow> bool"
    and empty :: 'm
    and lookup :: "'m \<Rightarrow> 'k \<Rightarrow> 'v option"
    and insert :: "'k \<Rightarrow> 'v \<Rightarrow> 'm \<Rightarrow> 'm"
  assumes valid_empty [simp]: "valid empty"
    and valid_insert [simp]: "valid m \<Longrightarrow> valid (insert k v m)"
    and lookup_empty [simp]: "lookup empty k = None"
    and lookup_insert: "valid m \<Longrightarrow> lookup (insert k v m) j = (if j = k then Some v else lookup m j)"
begin

lemma valid_fold: "valid m \<Longrightarrow> valid (fold (\<lambda>(k, v). insert k v) xs m)"
  by (induction xs arbitrary: m) (auto split: prod.splits)

lemma lookup_fold:
  "valid m \<Longrightarrow> lookup (fold (\<lambda>(k, v). insert k v) xs m) j =
     (case map_of (rev xs) j of None \<Rightarrow> lookup m j | Some v \<Rightarrow> Some v)"
  by (induction xs arbitrary: m) (auto simp: lookup_insert map_add_def split: option.splits)

text \<open>Collecting an iterator of pairs: the last value of a key counts.\<close>

lemma lookup_collect: "lookup (fold (\<lambda>(k, v). insert k v) xs empty) j = map_of (rev xs) j"
  by (simp add: lookup_fold split: option.splits)

lemma lookup_collect_distinct:
  "distinct (map fst xs) \<Longrightarrow> lookup (fold (\<lambda>(k, v). insert k v) xs empty) = map_of xs"
proof -
  assume d: "distinct (map fst xs)"
  then have "map_of (rev xs) = map_of xs"
    by (intro map_of_eqI) (auto simp: rev_map [symmetric] d distinct_map map_of_eq_Some_iff)
  then show ?thesis using lookup_collect by fastforce
qed

end

section \<open>Entries in key order\<close>

definition ordered :: "('k::linorder \<times> 'v) list \<Rightarrow> bool" where
  "ordered m \<longleftrightarrow> sorted_wrt (<) (map fst m)"

fun btree_insert :: "'k::linorder \<Rightarrow> 'v \<Rightarrow> ('k \<times> 'v) list \<Rightarrow> ('k \<times> 'v) list" where
  "btree_insert k v [] = [(k, v)]"
| "btree_insert k v ((j, u) # m) =
     (if k < j then (k, v) # (j, u) # m
      else if k = j then (k, v) # m
      else (j, u) # btree_insert k v m)"

definition btree_collect :: "('k::linorder \<times> 'v) list \<Rightarrow> ('k \<times> 'v) list" where
  "btree_collect xs = fold (\<lambda>(k, v). btree_insert k v) xs []"

lemma ordered_Nil [simp]: "ordered []"
  by (simp add: ordered_def)

lemma ordered_Cons: "ordered ((k, v) # m) \<longleftrightarrow> (\<forall>j \<in> fst ` set m. k < j) \<and> ordered m"
  by (auto simp: ordered_def)

lemma keys_btree_insert [simp]: "fst ` set (btree_insert k v m) = insert k (fst ` set m)"
  by (induction k v m rule: btree_insert.induct) auto

lemma ordered_btree_insert [simp]: "ordered m \<Longrightarrow> ordered (btree_insert k v m)"
  by (induction k v m rule: btree_insert.induct) (auto simp: ordered_Cons)

lemma map_of_btree_insert:
  "ordered m \<Longrightarrow> map_of (btree_insert k v m) j = (if j = k then Some v else map_of m j)"
  by (induction k v m rule: btree_insert.induct) (auto simp: ordered_Cons)

interpretation btree: keyed_map ordered "[]" map_of btree_insert
  by unfold_locales (simp_all add: map_of_btree_insert)

lemma ordered_distinct: "ordered m \<Longrightarrow> distinct (map fst m)"
  by (simp add: ordered_def strict_sorted_iff)

lemma ordered_collect [simp]: "ordered (btree_collect xs)"
  unfolding btree_collect_def by (rule btree.valid_fold) simp

lemma map_of_collect: "map_of (btree_collect xs) k = map_of (rev xs) k"
  unfolding btree_collect_def by (rule btree.lookup_collect)

lemma map_of_collect_distinct: "distinct (map fst xs) \<Longrightarrow> map_of (btree_collect xs) = map_of xs"
  unfolding btree_collect_def by (rule btree.lookup_collect_distinct)

text \<open>An ordered map is determined by what it looks up.\<close>

lemma ordered_ext:
  assumes "ordered m" "ordered n" "map_of m = map_of n"
  shows "m = n"
proof -
  have keys: "set (map fst m) = set (map fst n)"
    using assms(3) by (metis dom_map_of_conv_image_fst set_map)
  have "map fst m = map fst n"
    using assms(1,2) keys sorted_distinct_set_unique [of "map fst m" "map fst n"]
    by (simp add: ordered_def strict_sorted_iff)
  moreover have "snd p = snd q" if "p \<in> set m" "q \<in> set n" "fst p = fst q" for p q
    using that assms(3) map_of_is_SomeI [OF ordered_distinct [OF assms(1)]]
      map_of_is_SomeI [OF ordered_distinct [OF assms(2)]] by (metis option.inject prod.collapse)
  ultimately show ?thesis
    by (metis (no_types, opaque_lifting) length_map nth_equalityI nth_map nth_mem prod.expand)
qed

end
