(* ===== verification/Worker_Config.thy ===== *)
theory Worker_Config
  imports Units Ordered_Maps
begin

text \<open>
  What a worker can be configured with and what it reports running: the settings it
  declares and the checks of \<^verbatim>\<open>aurcache-common/src/worker_config.rs\<close>.

  The \<^verbatim>\<open>f64\<close> of a fractional setting is a parameter: its parser, its order, and which of
  its values are finite. The sentences an operator reads are kept as values that say
  which sentence it is and what it names; the prose descriptions are left out.
\<close>

section \<open>Kinds of values\<close>

record 'f floats =
  parse_f64 :: "string \<Rightarrow> 'f option"
  is_finite :: "'f \<Rightarrow> bool"
  f_less :: "'f \<Rightarrow> 'f \<Rightarrow> bool"
  f_zero :: 'f

datatype 'f value_kind =
    Kind_Integer "int option" "int option"
  | Kind_Float "'f option" "'f option"
  | Kind_Bool
  | Kind_Size
  | Kind_Duration
  | Kind_Choice "string list"
  | Kind_Text
  | Kind_List
  | Kind_Unknown

datatype 'f refusal =
    NotWholeNumber string
  | BelowInteger string int
  | AboveInteger string int
  | NotNumber string
  | NotFinite string
  | BelowFloat string 'f
  | AboveFloat string 'f
  | NotBool string
  | NotSize string
  | NotDuration string
  | NotOneOf string "string list"
  | NotAccepted string
  | SavedEmpty

definition check_bounds ::
    "('t \<Rightarrow> 't \<Rightarrow> bool) \<Rightarrow> ('t \<Rightarrow> 'r) \<Rightarrow> ('t \<Rightarrow> 'r) \<Rightarrow> 't \<Rightarrow> 't option \<Rightarrow> 't option \<Rightarrow> 'r + unit" where
  "check_bounds lt low high value mn mx =
     (case mn of
        Some lo \<Rightarrow>
          if lt value lo then Inl (low lo)
          else (case mx of Some hi \<Rightarrow> if lt hi value then Inl (high hi) else Inr () | None \<Rightarrow> Inr ())
      | None \<Rightarrow> (case mx of Some hi \<Rightarrow> if lt hi value then Inl (high hi) else Inr () | None \<Rightarrow> Inr ()))"

definition validate :: "'f floats \<Rightarrow> 'f value_kind \<Rightarrow> string \<Rightarrow> 'f refusal + unit" where
  "validate F kind written =
     (let raw = trim written in
      case kind of
        Kind_Integer mn mx \<Rightarrow>
          (case parse_i64 raw of
             None \<Rightarrow> Inl (NotWholeNumber raw)
           | Some value \<Rightarrow> check_bounds (<) (BelowInteger raw) (AboveInteger raw) value mn mx)
      | Kind_Float mn mx \<Rightarrow>
          (case parse_f64 F raw of
             None \<Rightarrow> Inl (NotNumber raw)
           | Some value \<Rightarrow>
               if \<not> is_finite F value then Inl (NotFinite raw)
               else check_bounds (f_less F) (BelowFloat raw) (AboveFloat raw) value mn mx)
      | Kind_Bool \<Rightarrow> if raw \<in> {''true'', ''false''} then Inr () else Inl (NotBool raw)
      | Kind_Size \<Rightarrow> (case parse_size raw of Some _ \<Rightarrow> Inr () | None \<Rightarrow> Inl (NotSize raw))
      | Kind_Duration \<Rightarrow> (case parse_duration raw of Some _ \<Rightarrow> Inr () | None \<Rightarrow> Inl (NotDuration raw))
      | Kind_Choice options \<Rightarrow> if raw \<in> set options then Inr () else Inl (NotOneOf raw options)
      | Kind_Text \<Rightarrow> Inr ()
      | Kind_List \<Rightarrow> Inr ()
      | Kind_Unknown \<Rightarrow> Inr ())"

section \<open>Declarations, reports and saves\<close>

datatype applies = NextJob | NextLoop | Immediately

record 'f setting_decl =
  sd_key :: string
  sd_kind :: "'f value_kind"
  sd_category :: string
  sd_default :: "string option"
  sd_env_var :: "string option"
  sd_applies :: applies

datatype effective_source = Source_Env | Source_Server | Source_EnvDefault | Source_Default

datatype setting_status = Applied | Overridden | Unsupported | Rejected

datatype 'f reason =
    PinnedHere string string
  | ServerRefused "'f refusal"
  | HostRefused string
  | Ignored string "'f refusal"
  | Shadows string
  | NoSuchSetting string

record 'f effective_setting =
  es_value :: "string option"
  es_source :: effective_source
  es_status :: setting_status
  es_reason :: "'f reason option"

record 'f effective_config =
  ec_received_revision :: "string option"
  ec_settings :: "(string \<times> 'f effective_setting) list"

record config_snapshot =
  cs_revision :: string
  cs_settings :: "(string \<times> string) list"

definition validate_value :: "'f floats \<Rightarrow> 'f setting_decl list \<Rightarrow> string \<Rightarrow> string \<Rightarrow> 'f refusal + unit" where
  "validate_value F declared key value =
     (case find (\<lambda>decl. sd_key decl = key) declared of
        None \<Rightarrow> Inl (NotAccepted key)
      | Some decl \<Rightarrow> validate F (sd_kind decl) value)"

definition changed_since :: "'f effective_config \<Rightarrow> 'f effective_config \<Rightarrow> string list" where
  "changed_since now before =
     filter (\<lambda>name. case (map_of (ec_settings now) name, map_of (ec_settings before) name) of
                (Some n, Some b) \<Rightarrow> es_value n \<noteq> es_value b \<or> es_status n \<noteq> es_status b
              | _ \<Rightarrow> True)
       (remdups_adj (sort (map fst (ec_settings now) @ map fst (ec_settings before))))"

definition checked_value ::
    "'f floats \<Rightarrow> 'f setting_decl list \<Rightarrow> string \<Rightarrow> string option \<Rightarrow> (string \<times> 'f refusal) + string option" where
  "checked_value F declared key value =
     (case value of
        None \<Rightarrow> Inr None
      | Some raw \<Rightarrow>
          (let v = trim raw in
           if v = [] then Inl (key, SavedEmpty)
           else (case validate_value F declared key v of
                   Inl why \<Rightarrow> Inl (key, why)
                 | Inr _ \<Rightarrow> Inr (Some v))))"

fun check_loop ::
    "'f floats \<Rightarrow> 'f setting_decl list \<Rightarrow> (string \<times> string option) list \<Rightarrow> (string \<times> 'f refusal) list \<Rightarrow>
     (string \<times> string option) list \<Rightarrow> (string \<times> 'f refusal) list \<times> (string \<times> string option) list" where
  "check_loop F declared [] refused checked = (refused, checked)"
| "check_loop F declared ((key, value) # changes) refused checked =
     (case checked_value F declared key value of
        Inl problem \<Rightarrow> check_loop F declared changes (refused @ [problem]) checked
      | Inr v \<Rightarrow> check_loop F declared changes refused (btree_insert key v checked))"

definition checked_changes ::
    "'f floats \<Rightarrow> 'f setting_decl list \<Rightarrow> (string \<times> string option) list \<Rightarrow>
     (string \<times> 'f refusal) list + (string \<times> string option) list" where
  "checked_changes F declared changes =
     (case check_loop F declared changes [] [] of
        (refused, checked) \<Rightarrow> if refused = [] then Inr checked else Inl (remdups_adj refused))"

section \<open>What the checks accept\<close>

lemma check_bounds_Inr:
  "check_bounds lt low high value mn mx = Inr () \<longleftrightarrow>
     (\<forall>lo. mn = Some lo \<longrightarrow> \<not> lt value lo) \<and> (\<forall>hi. mx = Some hi \<longrightarrow> \<not> lt hi value)"
  by (auto simp: check_bounds_def split: option.splits if_splits)

lemma validate_trim [simp]: "validate F kind (trim s) = validate F kind s"
  by (simp add: validate_def)

definition acceptable :: "'f floats \<Rightarrow> 'f setting_decl list \<Rightarrow> string \<Rightarrow> string \<Rightarrow> bool" where
  "acceptable F declared key value \<longleftrightarrow>
     trim value \<noteq> [] \<and>
     (case find (\<lambda>decl. sd_key decl = key) declared of
        None \<Rightarrow> False
      | Some decl \<Rightarrow> validate F (sd_kind decl) value = Inr ())"

lemma checked_value_Inr:
  "checked_value F declared key value = Inr v \<longleftrightarrow>
     v = map_option trim value \<and> (\<forall>raw. value = Some raw \<longrightarrow> acceptable F declared key raw)"
  by (auto simp: checked_value_def acceptable_def validate_value_def Let_def split: option.splits sum.splits)

lemma checked_value_Inl:
  "checked_value F declared key value = Inl problem \<Longrightarrow>
     fst problem = key \<and> (\<exists>raw. value = Some raw \<and> \<not> acceptable F declared key raw)"
  by (auto simp: checked_value_def acceptable_def validate_value_def Let_def split: option.splits sum.splits if_splits)

lemma btree_insert_last: "\<forall>j \<in> fst ` set m. j < k \<Longrightarrow> btree_insert k v m = m @ [(k, v)]"
  by (induction m) auto

text \<open>What the loop refuses and what it keeps, in the order of the keys.\<close>

lemma check_loop_eq:
  assumes "ordered (checked @ map (\<lambda>(k, v). (k, map_option trim v)) changes)"
  shows "check_loop F declared changes refused checked =
    (refused @ concat (map (\<lambda>(k, v). case checked_value F declared k v of Inl p \<Rightarrow> [p] | Inr _ \<Rightarrow> []) changes),
     checked @ concat (map (\<lambda>(k, v). case checked_value F declared k v of Inl _ \<Rightarrow> [] | Inr x \<Rightarrow> [(k, x)]) changes))"
  using assms
proof (induction changes arbitrary: refused checked)
  case Nil
  then show ?case by simp
next
  case (Cons c changes)
  obtain k v where c: "c = (k, v)" by fastforce
  have sub: "ordered (checked @ map (\<lambda>(k, v). (k, map_option trim v)) changes)"
    using Cons.prems by (auto simp: ordered_def sorted_wrt_append)
  have last: "btree_insert k x checked = checked @ [(k, x)]" for x
    using Cons.prems by (intro btree_insert_last) (auto simp: c ordered_def sorted_wrt_append)
  have "ordered ((checked @ [(k, x)]) @ map (\<lambda>(k, v). (k, map_option trim v)) changes)" for x
    using Cons.prems by (auto simp: c ordered_def sorted_wrt_append)
  then show ?case using Cons.IH [OF sub] Cons.IH [of "checked @ [(k, _)]"]
    by (cases "checked_value F declared k v") (simp_all add: c last)
qed

lemma ordered_trimmed: "ordered changes \<Longrightarrow> ordered (map (\<lambda>(k, v). (k, f v)) changes)"
  by (simp add: ordered_def case_prod_beta comp_def)

lemma checked_changes_cases:
  assumes "ordered changes"
  shows "checked_changes F declared changes =
    (if \<forall>(k, v) \<in> set changes. \<forall>raw. v = Some raw \<longrightarrow> acceptable F declared k raw
     then Inr (map (\<lambda>(k, v). (k, map_option trim v)) changes)
     else Inl (remdups_adj (concat (map (\<lambda>(k, v). case checked_value F declared k v of Inl p \<Rightarrow> [p] | Inr _ \<Rightarrow> []) changes))))"
proof -
  let ?all = "\<forall>(k, v) \<in> set changes. \<forall>raw. v = Some raw \<longrightarrow> acceptable F declared k raw"
  let ?bad = "concat (map (\<lambda>(k, v). case checked_value F declared k v of Inl p \<Rightarrow> [p] | Inr _ \<Rightarrow> []) changes)"
  let ?good = "concat (map (\<lambda>(k, v). case checked_value F declared k v of Inl _ \<Rightarrow> [] | Inr x \<Rightarrow> [(k, x)]) changes)"
  have loop: "check_loop F declared changes [] [] = (?bad, ?good)"
    using check_loop_eq [of "[]" changes F declared "[]"] ordered_trimmed [OF assms, of "map_option trim"] by simp
  have "?bad = [] \<longleftrightarrow> ?all"
  proof -
    have "(case checked_value F declared k v of Inl p \<Rightarrow> [p] | Inr _ \<Rightarrow> []) = [] \<longleftrightarrow>
        (\<forall>raw. v = Some raw \<longrightarrow> acceptable F declared k raw)" for k v
      using checked_value_Inl [of F declared k v] checked_value_Inr [of F declared k v]
      by (cases "checked_value F declared k v") auto
    then show ?thesis by (auto simp: concat_eq_Nil_conv)
  qed
  moreover have "?good = map (\<lambda>(k, v). (k, map_option trim v)) changes" if ?all
    using that
  proof (induction changes)
    case Nil
    then show ?case by simp
  next
    case (Cons c changes)
    then have "checked_value F declared (fst c) (snd c) = Inr (map_option trim (snd c))"
      by (auto simp: checked_value_Inr)
    with Cons show ?case by (cases c) auto
  qed
  ultimately show ?thesis by (simp add: checked_changes_def loop)
qed

lemma changed_since_set:
  "set (changed_since now before) =
     {name. map_option (\<lambda>s. (es_value s, es_status s)) (map_of (ec_settings now) name) \<noteq>
            map_option (\<lambda>s. (es_value s, es_status s)) (map_of (ec_settings before) name)}"
proof -
  have key: "name \<in> fst ` set m \<longleftrightarrow> map_of m name \<noteq> None" for name and m :: "(string \<times> 'a effective_setting) list"
    by (simp add: map_of_eq_None_iff)
  have "name \<in> set (changed_since now before) \<longleftrightarrow>
      map_option (\<lambda>s. (es_value s, es_status s)) (map_of (ec_settings now) name) \<noteq>
      map_option (\<lambda>s. (es_value s, es_status s)) (map_of (ec_settings before) name)" for name
    by (cases "map_of (ec_settings now) name"; cases "map_of (ec_settings before) name")
      (simp_all add: changed_since_def image_Un key)
  then show ?thesis by blast
qed

end
