(* ===== verification/Worker_Store.thy ===== *)
theory Worker_Store
  imports Job_Leases List_Columns Worker_Config
begin

text \<open>
  The registry of build workers, \<^verbatim>\<open>aurcache-db/src/helpers/worker_store.rs\<close>: registration,
  approval and revocation, the embedded worker's key, and the settings kept for a worker.
  A fingerprint is unique in \<^verbatim>\<open>workers\<close>, a key is unique per worker in
  \<^verbatim>\<open>worker_settings\<close>; an insert that would repeat one updates the row it repeats.
\<close>

section \<open>Registration\<close>

record worker_registration =
  reg_name :: string
  reg_fingerprint :: string
  reg_arches :: "string list"
  reg_version :: string
  reg_kind :: string
  reg_package_affinity :: "string list"
  reg_priority :: int
  reg_concurrency :: int
  reg_settings_declaration :: string

text \<open>A list column is read back from the text it is stored as.\<close>

definition stored_list :: "string list \<Rightarrow> string list" where
  "stored_list entries = worker_list_from_str (worker_list_display (list_new entries))"

definition refresh_worker :: "worker_registration \<Rightarrow> timestamp \<Rightarrow> worker \<Rightarrow> worker" where
  "refresh_worker reg now w =
     w\<lparr>w_name := reg_name reg, w_arches := stored_list (reg_arches reg), w_last_seen := Some now,
       w_version := Some (reg_version reg), w_kind := Some (reg_kind reg),
       w_package_affinity := stored_list (reg_package_affinity reg), w_priority := reg_priority reg,
       w_concurrency := reg_concurrency reg, w_settings_declaration := reg_settings_declaration reg\<rparr>"

definition new_worker :: "id \<Rightarrow> worker_registration \<Rightarrow> timestamp \<Rightarrow> worker" where
  "new_worker i reg now =
     \<lparr>w_id = i, w_name = reg_name reg, w_status = Pending, w_cert_fingerprint = reg_fingerprint reg,
      w_signed_cert = None, w_not_after = None, w_arches = stored_list (reg_arches reg),
      w_last_seen = Some now, w_version = Some (reg_version reg), w_kind = Some (reg_kind reg),
      w_package_affinity = stored_list (reg_package_affinity reg), w_priority = reg_priority reg,
      w_concurrency = reg_concurrency reg, w_settings_declaration = reg_settings_declaration reg,
      w_effective_config = None, w_paused = False, w_embedded = False\<rparr>"

definition upsert_worker :: "worker_registration \<Rightarrow> timestamp \<Rightarrow> tables \<Rightarrow> tables" where
  "upsert_worker reg now d =
     (if \<exists>w \<in> set (workers d). w_cert_fingerprint w = reg_fingerprint reg
      then set_workers (\<lambda>w. w_cert_fingerprint w = reg_fingerprint reg) (refresh_worker reg now) d
      else d\<lparr>workers := workers d @ [new_worker (next_worker_id d) reg now],
             next_worker_id := next_worker_id d + 1\<rparr>)"

definition find_worker :: "id \<Rightarrow> worker option dbm" where
  "find_worker i = select (find_worker_by_id i)"

definition worker_with_key :: "string \<Rightarrow> tables \<Rightarrow> worker option" where
  "worker_with_key fingerprint d = find (\<lambda>w. w_cert_fingerprint w = fingerprint) (workers d)"

definition find_worker_by_fingerprint :: "string \<Rightarrow> worker option dbm" where
  "find_worker_by_fingerprint fingerprint = select (worker_with_key fingerprint)"

definition register_worker :: "worker_registration \<Rightarrow> worker dbm" where
  "register_worker reg =
     dbind now_secs (\<lambda>now.
     dthen (modify (upsert_worker reg now))
       (dbind (find_worker_by_fingerprint (reg_fingerprint reg)) (\<lambda>row.
        case row of
          Some w \<Rightarrow> ret w
        | None \<Rightarrow> raise (Custom ''worker vanished after registration''))))"

section \<open>The embedded worker\<close>

datatype rekey = Known | NoRow | Rekeyed string

definition rekey_embedded :: "string \<Rightarrow> rekey dbm" where
  "rekey_embedded fingerprint =
     dbind (find_worker_by_fingerprint fingerprint) (\<lambda>known.
     if known \<noteq> None then ret Known
     else dbind (select (\<lambda>d. find w_embedded (workers d))) (\<lambda>row.
     case row of
       None \<Rightarrow> ret NoRow
     | Some w \<Rightarrow>
         dthen (modify (set_workers (\<lambda>v. w_id v = w_id w)
           (\<lambda>v. v\<lparr>w_cert_fingerprint := fingerprint, w_signed_cert := None, w_not_after := None\<rparr>)))
         (ret (Rekeyed (w_cert_fingerprint w)))))"

definition mark_embedded :: "id \<Rightarrow> unit dbm" where
  "mark_embedded i = modify (set_workers (\<lambda>_. True) (\<lambda>w. w\<lparr>w_embedded := (w_id w = i)\<rparr>))"

section \<open>Changes to one worker\<close>

definition update_worker :: "id \<Rightarrow> (worker \<Rightarrow> worker) \<Rightarrow> worker option dbm" where
  "update_worker i change =
     dbind (find_worker i) (\<lambda>row.
     case row of
       None \<Rightarrow> ret None
     | Some w \<Rightarrow> dthen (modify (set_workers (\<lambda>v. w_id v = i) change)) (ret (Some (change w))))"

definition store_signed_cert :: "id \<Rightarrow> string \<Rightarrow> timestamp \<Rightarrow> worker option dbm" where
  "store_signed_cert i cert not_after =
     update_worker i (\<lambda>w. w\<lparr>w_signed_cert := Some cert, w_not_after := Some not_after\<rparr>)"

definition approve_worker :: "id \<Rightarrow> worker option dbm" where
  "approve_worker i = update_worker i (\<lambda>w. w\<lparr>w_status := Approved\<rparr>)"

record revoked =
  rv_worker :: worker
  rv_abandoned :: "abandoned list"

definition revoke_worker :: "id \<Rightarrow> int \<Rightarrow> revoked option dbm" where
  "revoke_worker i max_attempts =
     dbind (update_worker i (\<lambda>w. w\<lparr>w_status := Revoked, w_paused := False\<rparr>)) (\<lambda>row.
     case row of
       None \<Rightarrow> ret None
     | Some w \<Rightarrow>
         dbind (abandon_worker_builds i max_attempts) (\<lambda>abandoned.
         ret (Some \<lparr>rv_worker = w, rv_abandoned = abandoned\<rparr>)))"

definition set_paused :: "id \<Rightarrow> bool \<Rightarrow> worker option dbm" where
  "set_paused i paused = update_worker i (\<lambda>w. w\<lparr>w_paused := paused\<rparr>)"

definition store_effective_config :: "id \<Rightarrow> string \<Rightarrow> unit dbm" where
  "store_effective_config i effective =
     modify (set_workers (\<lambda>w. w_id w = i) (\<lambda>w. w\<lparr>w_effective_config := Some effective\<rparr>))"

definition TOUCH_THROTTLE_SECS :: int where
  "TOUCH_THROTTLE_SECS = 10"

text \<open>The row the caller holds is changed with the stored one: it is returned.\<close>

definition touch_last_seen :: "worker \<Rightarrow> string option \<Rightarrow> worker dbm" where
  "touch_last_seen worker ver =
     dbind now_secs (\<lambda>now.
     let version_changed = (case ver of None \<Rightarrow> False | Some v \<Rightarrow> w_version worker \<noteq> Some v);
         fresh = (case w_last_seen worker of None \<Rightarrow> False | Some seen \<Rightarrow> now - seen < TOUCH_THROTTLE_SECS);
         touch = (\<lambda>w. case ver of
                    None \<Rightarrow> w\<lparr>w_last_seen := Some now\<rparr>
                  | Some v \<Rightarrow> w\<lparr>w_last_seen := Some now, w_version := Some v\<rparr>)
     in if fresh \<and> \<not> version_changed then ret worker
        else dthen (modify (set_workers (\<lambda>w. w_id w = w_id worker) touch)) (ret (touch worker)))"

section \<open>Tallies\<close>

record build_tally =
  tally_active :: int
  tally_successful :: int
  tally_failed :: int

definition no_builds :: build_tally where
  "no_builds = \<lparr>tally_active = 0, tally_successful = 0, tally_failed = 0\<rparr>"

text \<open>The rows of \<^verbatim>\<open>GROUP BY worker_id, status\<close> over the builds a worker took.\<close>

definition status_counts :: "tables \<Rightarrow> (id \<times> build_state \<times> int) list" where
  "status_counts d =
     map (\<lambda>(w, st). (w, st, int (length (filter (\<lambda>b. b_worker_id b = Some w \<and> b_status b = st) (builds d)))))
       (remdups (List.map_filter (\<lambda>b. map_option (\<lambda>w. (w, b_status b)) (b_worker_id b)) (builds d)))"

definition add_count :: "(id \<times> build_state \<times> int) \<Rightarrow> (id \<rightharpoonup> build_tally) \<Rightarrow> (id \<rightharpoonup> build_tally)" where
  "add_count row tallies =
     (case row of (w, st, n) \<Rightarrow>
        let count = (if n \<le> i32_MAX then n else i32_MAX);
            tally = (case tallies w of None \<Rightarrow> no_builds | Some t \<Rightarrow> t)
        in tallies(w \<mapsto>
             (case st of
                Active \<Rightarrow> tally\<lparr>tally_active := count\<rparr>
              | Successful \<Rightarrow> tally\<lparr>tally_successful := count\<rparr>
              | Failed \<Rightarrow> tally\<lparr>tally_failed := count\<rparr>
              | _ \<Rightarrow> tally)))"

definition build_tallies :: "(id \<rightharpoonup> build_tally) dbm" where
  "build_tallies = select (\<lambda>d. fold add_count (status_counts d) Map.empty)"

definition list_workers :: "worker list dbm" where
  "list_workers = select (\<lambda>d. sort_key (\<lambda>w. (w_name w, w_id w)) (workers d))"

section \<open>Settings kept for a worker\<close>

definition setting_values :: "id \<Rightarrow> tables \<Rightarrow> (string \<times> string) list" where
  "setting_values worker_id d =
     btree_collect (map (\<lambda>s. (ws_key s, ws_value s)) (filter (\<lambda>s. ws_worker_id s = worker_id) (worker_settings d)))"

definition worker_setting_values :: "id \<Rightarrow> (string \<times> string) list dbm" where
  "worker_setting_values worker_id = select (setting_values worker_id)"

record saved_settings =
  saved_set :: "string list"
  saved_reset :: "string list"

definition saved_is_empty :: "saved_settings \<Rightarrow> bool" where
  "saved_is_empty saved \<longleftrightarrow> saved_set saved = [] \<and> saved_reset saved = []"

definition put_setting :: "id \<Rightarrow> string \<Rightarrow> string \<Rightarrow> tables \<Rightarrow> tables" where
  "put_setting worker_id k value d =
     (if \<exists>s \<in> set (worker_settings d). setting_key s = (worker_id, k)
      then d\<lparr>worker_settings :=
             map (\<lambda>s. if setting_key s = (worker_id, k) then s\<lparr>ws_value := value\<rparr> else s) (worker_settings d)\<rparr>
      else d\<lparr>worker_settings := worker_settings d @ [\<lparr>ws_worker_id = worker_id, ws_key = k, ws_value = value\<rparr>]\<rparr>)"

definition upsert_worker_setting :: "id \<Rightarrow> string \<Rightarrow> string \<Rightarrow> unit dbm" where
  "upsert_worker_setting worker_id k value =
     statement (\<lambda>d. if find_worker_by_id worker_id d = None then (Inl ForeignKey, d)
                    else (Inr (), put_setting worker_id k value d))"

definition remove_setting :: "id \<Rightarrow> string \<Rightarrow> tables \<Rightarrow> tables" where
  "remove_setting worker_id k d =
     d\<lparr>worker_settings := filter (\<lambda>s. setting_key s \<noteq> (worker_id, k)) (worker_settings d)\<rparr>"

definition save_one :: "id \<Rightarrow> (string \<times> string) list \<Rightarrow> saved_settings \<Rightarrow> string \<times> string option \<Rightarrow> saved_settings dbm" where
  "save_one worker_id before saved change =
     (case change of
        (k, Some value) \<Rightarrow>
          if map_of before k \<noteq> Some value
          then dthen (upsert_worker_setting worker_id k value) (ret (saved\<lparr>saved_set := saved_set saved @ [k]\<rparr>))
          else ret saved
      | (k, None) \<Rightarrow>
          if map_of before k \<noteq> None
          then dthen (modify (remove_setting worker_id k)) (ret (saved\<lparr>saved_reset := saved_reset saved @ [k]\<rparr>))
          else ret saved)"

fun save_all ::
    "id \<Rightarrow> (string \<times> string) list \<Rightarrow> saved_settings \<Rightarrow> (string \<times> string option) list \<Rightarrow> saved_settings dbm" where
  "save_all worker_id before saved [] = ret saved"
| "save_all worker_id before saved (change # changes) =
     dbind (save_one worker_id before saved change) (\<lambda>saved'. save_all worker_id before saved' changes)"

definition save_worker_settings :: "id \<Rightarrow> (string \<times> string option) list \<Rightarrow> saved_settings dbm" where
  "save_worker_settings worker_id changes =
     transaction
       (dbind (worker_setting_values worker_id) (\<lambda>before.
        dbind (save_all worker_id before \<lparr>saved_set = [], saved_reset = []\<rparr> changes) (\<lambda>saved.
        ret (Commit saved))))"

section \<open>The limits an upgrade kept\<close>

definition GLOBAL_SCOPE :: id where
  "GLOBAL_SCOPE = -1"

definition settings_scope :: "id option \<Rightarrow> id" where
  "settings_scope pkg_id = (case pkg_id of Some i \<Rightarrow> i | None \<Rightarrow> GLOBAL_SCOPE)"

definition package_of :: "id \<Rightarrow> id option" where
  "package_of stored = (if stored = GLOBAL_SCOPE then None else Some stored)"

definition EMBEDDED_WORKER_LIMITS :: "(string \<times> string) list" where
  "EMBEDDED_WORKER_LIMITS =
     [(''cpu_limit'', ''cpu_limit''), (''memory_limit'', ''memory_limit''), (''max_concurrent_builds'', ''concurrency'')]"

record 'f refused_limit =
  rl_key :: string
  rl_value :: string
  rl_reason :: "'f refusal"

record 'f adopted_limits =
  al_saved :: saved_settings
  al_refused :: "'f refused_limit list"

definition adopt_row ::
    "'f floats \<Rightarrow> 'f setting_decl list \<Rightarrow> setting_row \<Rightarrow> (string \<times> string option) list \<times> 'f refused_limit list \<Rightarrow>
     (string \<times> string option) list \<times> 'f refused_limit list" where
  "adopt_row F decls row acc =
     (case acc of (changes, refused) \<Rightarrow>
        case map_of EMBEDDED_WORKER_LIMITS (se_key row) of
          None \<Rightarrow> acc
        | Some k \<Rightarrow>
            (case map_option trim (se_value row) of
               None \<Rightarrow> acc
             | Some value \<Rightarrow>
                 if value = [] then acc
                 else (case validate_value F decls k value of
                         Inr _ \<Rightarrow> (btree_insert k (Some value) changes, refused)
                       | Inl reason \<Rightarrow>
                           (changes, refused @ [\<lparr>rl_key = k, rl_value = value, rl_reason = reason\<rparr>]))))"

definition kept_limits :: "tables \<Rightarrow> setting_row list" where
  "kept_limits d =
     filter (\<lambda>row. se_pkg_id row = settings_scope None \<and> se_key row \<in> fst ` set EMBEDDED_WORKER_LIMITS) (settings d)"

definition adopt_0_5_limits :: "'f floats \<Rightarrow> id \<Rightarrow> 'f setting_decl list \<Rightarrow> 'f adopted_limits dbm" where
  "adopt_0_5_limits F worker_id decls =
     dbind (select kept_limits) (\<lambda>kept.
     if kept = [] then ret \<lparr>al_saved = \<lparr>saved_set = [], saved_reset = []\<rparr>, al_refused = []\<rparr>
     else
       (case fold (adopt_row F decls) kept ([], []) of (changes, refused) \<Rightarrow>
          dbind (save_worker_settings worker_id changes) (\<lambda>saved.
          dthen (modify (\<lambda>d. d\<lparr>settings := filter (\<lambda>row. se_id row \<notin> se_id ` set kept) (settings d)\<rparr>))
            (ret \<lparr>al_saved = saved, al_refused = refused\<rparr>))))"

section \<open>The registry stays well formed\<close>

lemma registry_ok_iff:
  "registry_ok (registry d) \<longleftrightarrow>
     distinct (map w_id (workers d)) \<and> distinct (map w_cert_fingerprint (workers d)) \<and>
     (\<forall>w \<in> set (workers d). w_id w < next_worker_id d) \<and>
     distinct (map setting_key (worker_settings d)) \<and>
     ws_worker_id ` set (worker_settings d) \<subseteq> w_id ` set (workers d)"
  by (simp add: registry_def)

lemma map_set_workers:
  "(\<And>w. p w \<Longrightarrow> g (f w) = g w) \<Longrightarrow> map g (workers (set_workers p f d)) = map g (workers d)"
  by simp

lemma registry_ok_set_workers:
  assumes "registry_ok (registry d)" and "\<And>w. p w \<Longrightarrow> w_id (f w) = w_id w"
    and "\<And>w. p w \<Longrightarrow> w_cert_fingerprint (f w) = w_cert_fingerprint w"
  shows "registry_ok (registry (set_workers p f d))"
proof -
  have ids: "map w_id (workers (set_workers p f d)) = map w_id (workers d)"
    by (rule map_set_workers) (rule assms(2))
  have keys: "map w_cert_fingerprint (workers (set_workers p f d)) = map w_cert_fingerprint (workers d)"
    by (rule map_set_workers) (rule assms(3))
  have ids': "w_id ` set (workers (set_workers p f d)) = w_id ` set (workers d)"
    using ids by (metis list.set_map)
  have "\<forall>i \<in> w_id ` set (workers d). i < next_worker_id d" using assms(1) by (simp add: registry_ok_iff)
  then have "\<forall>w \<in> set (workers (set_workers p f d)). w_id w < next_worker_id d"
    using ids' by (metis imageI)
  then show ?thesis
    using assms(1) unfolding registry_ok_iff ids keys ids' by simp
qed

lemma admin_set_workers:
  assumes "\<And>w. p w \<Longrightarrow> w_id (f w) = w_id w" and "\<And>w. p w \<Longrightarrow> w_cert_fingerprint (f w) = w_cert_fingerprint w"
  shows "preserves (admin_inv X) (modify (set_workers p f))"
proof (rule preserves_modify)
  fix d
  assume "admin_inv X d"
  then show "admin_inv X (set_workers p f d)"
    using registry_ok_set_workers [OF _ assms] by (simp add: admin_inv_def)
qed

lemma registry_ok_insert:
  assumes "registry_ok (registry d)" and "\<forall>w \<in> set (workers d). w_cert_fingerprint w \<noteq> w_cert_fingerprint n"
    and "w_id n = next_worker_id d"
  shows "registry_ok (registry (d\<lparr>workers := workers d @ [n], next_worker_id := next_worker_id d + 1\<rparr>))"
  using assms unfolding registry_ok_iff by auto

lemma admin_upsert: "admin_inv X d \<Longrightarrow> admin_inv X (upsert_worker reg now d)"
  using registry_ok_insert [of d "new_worker (next_worker_id d) reg now"]
    registry_ok_set_workers [of d "\<lambda>w. w_cert_fingerprint w = reg_fingerprint reg" "refresh_worker reg now"]
  by (auto simp: admin_inv_def upsert_worker_def refresh_worker_def new_worker_def)

lemma admin_register: "preserves (admin_inv X) (register_worker reg)"
  unfolding register_worker_def find_worker_by_fingerprint_def
  by (intro pres preserves_modify admin_upsert) (auto intro: pres split: option.split)

lemma admin_update:
  "(\<And>w. w_id (f w) = w_id w \<and> w_cert_fingerprint (f w) = w_cert_fingerprint w) \<Longrightarrow>
   preserves (admin_inv X) (update_worker i f)"
  unfolding update_worker_def find_worker_def
  by (intro pres) (auto intro!: pres admin_set_workers split: option.split)

lemma registry_ok_rekey:
  assumes "registry_ok (registry d)" and "worker_with_key fp d = None"
  shows "registry_ok (registry (set_workers (\<lambda>v. w_id v = i)
    (\<lambda>v. v\<lparr>w_cert_fingerprint := fp, w_signed_cert := None, w_not_after := None\<rparr>) d))"
proof -
  let ?f = "\<lambda>v. v\<lparr>w_cert_fingerprint := fp, w_signed_cert := None, w_not_after := None\<rparr>"
  have fresh: "fp \<notin> w_cert_fingerprint ` set (workers d)"
    using assms(2) by (auto simp: worker_with_key_def find_None_iff)
  have step: "distinct (map w_cert_fingerprint (map (\<lambda>v. if w_id v = i then ?f v else v) ws))"
    if "distinct (map w_id ws)" "distinct (map w_cert_fingerprint ws)" "fp \<notin> w_cert_fingerprint ` set ws" for ws
    using that
  proof (induction ws)
    case Nil
    then show ?case by simp
  next
    case (Cons w ws)
    have same: "map (\<lambda>v. if w_id v = i then ?f v else v) ws = ws" if "w_id w = i"
      using that Cons.prems(1) by (intro map_if_unchanged) (metis distinct.simps(2) imageI list.set_map list.simps(9))
    show ?case
      using Cons same by (cases "w_id w = i") (auto simp: image_iff)
  qed
  have "distinct (map w_id (workers d))" "distinct (map w_cert_fingerprint (workers d))"
    using assms(1) unfolding registry_ok_iff by blast+
  then have keys: "distinct (map w_cert_fingerprint (workers (set_workers (\<lambda>v. w_id v = i) ?f d)))"
    unfolding set_workers_sel(9) using fresh by (rule step)
  have ids: "map w_id (workers (set_workers (\<lambda>v. w_id v = i) ?f d)) = map w_id (workers d)"
    by (rule map_set_workers) simp
  then have ids': "w_id ` set (workers (set_workers (\<lambda>v. w_id v = i) ?f d)) = w_id ` set (workers d)"
    by (metis list.set_map)
  have "\<forall>j \<in> w_id ` set (workers d). j < next_worker_id d" using assms(1) by (simp add: registry_ok_iff)
  then have "\<forall>w \<in> set (workers (set_workers (\<lambda>v. w_id v = i) ?f d)). w_id w < next_worker_id d"
    using ids' by (metis imageI)
  then show ?thesis using assms(1) keys unfolding registry_ok_iff ids ids' by simp
qed

lemma rekey_embedded_run:
  assumes "rekey_embedded fp s = (r, t)"
  shows "db t = db s \<or> worker_with_key fp (db s) = None \<and>
    (\<exists>i. db t = set_workers (\<lambda>v. w_id v = i)
       (\<lambda>v. v\<lparr>w_cert_fingerprint := fp, w_signed_cert := None, w_not_after := None\<rparr>) (db s))"
  using assms
  by (auto simp: rekey_embedded_def find_worker_by_fingerprint_def dbind_def dthen_def select_def modify_def
      statement_def ret_def split: if_splits option.splits)

lemma admin_rekey: "preserves (admin_inv X) (rekey_embedded fp)"
  unfolding preserves_def
proof (intro allI impI)
  fix s r t
  assume inv: "admin_inv X (db s)" and run: "rekey_embedded fp s = (r, t)"
  from rekey_embedded_run [OF run] show "admin_inv X (db t)"
    using inv registry_ok_rekey [of "db s" fp] by (auto simp: admin_inv_def)
qed

lemma admin_mark: "preserves (admin_inv X) (mark_embedded i)"
  unfolding mark_embedded_def by (rule admin_set_workers) simp_all

lemma admin_touch: "preserves (admin_inv X) (touch_last_seen w ver)"
  unfolding touch_last_seen_def Let_def
  by (intro pres) (auto intro!: pres admin_set_workers split: option.split)

lemma admin_effective: "preserves (admin_inv X) (store_effective_config i e)"
  unfolding store_effective_config_def by (rule admin_set_workers) simp_all

lemma setting_key_value [simp]: "setting_key (s\<lparr>ws_value := v\<rparr>) = setting_key s"
  "ws_worker_id (s\<lparr>ws_value := v\<rparr>) = ws_worker_id s"
  by (simp_all add: setting_key_def)

lemma put_setting_sel [simp]:
  "builds (put_setting w k v d) = builds d" "packages (put_setting w k v d) = packages d"
  "next_build_id (put_setting w k v d) = next_build_id d" "workers (put_setting w k v d) = workers d"
  "next_worker_id (put_setting w k v d) = next_worker_id d"
  by (simp_all add: put_setting_def)

lemma admin_put:
  assumes "admin_inv X d" and "find_worker_by_id w d \<noteq> None"
  shows "admin_inv X (put_setting w k v d)"
proof -
  have w: "w \<in> w_id ` set (workers d)"
    using assms(2) by (auto simp: find_worker_by_id_def find_None_iff)
  have ok: "distinct (map setting_key (worker_settings d))" "ws_worker_id ` set (worker_settings d) \<subseteq> w_id ` set (workers d)"
    using assms(1) by (simp_all add: admin_inv_def registry_ok_iff)
  have keys: "map setting_key (map (\<lambda>s. if setting_key s = (w, k) then s\<lparr>ws_value := v\<rparr> else s) ss) = map setting_key ss" for ss
    by (induction ss) auto
  have ids: "ws_worker_id ` set (map (\<lambda>s. if setting_key s = (w, k) then s\<lparr>ws_value := v\<rparr> else s) ss) = ws_worker_id ` set ss" for ss
    by (induction ss) auto
  have "distinct (map setting_key (worker_settings (put_setting w k v d)))"
  proof (cases "\<exists>s \<in> set (worker_settings d). setting_key s = (w, k)")
    case True
    then have "worker_settings (put_setting w k v d) =
        map (\<lambda>s. if setting_key s = (w, k) then s\<lparr>ws_value := v\<rparr> else s) (worker_settings d)"
      by (simp add: put_setting_def)
    then show ?thesis unfolding keys using ok(1) by (simp only: keys)
  next
    case False
    then show ?thesis using ok(1) by (auto simp: put_setting_def setting_key_def)
  qed
  moreover have "ws_worker_id ` set (worker_settings (put_setting w k v d)) \<subseteq> w_id ` set (workers d)"
    using ok(2) ids [of "worker_settings d"] w by (auto simp: put_setting_def)
  ultimately show ?thesis using assms(1) by (simp add: admin_inv_def registry_ok_iff)
qed

lemma admin_upsert_setting: "preserves (admin_inv X) (upsert_worker_setting w k v)"
  unfolding upsert_worker_setting_def by (rule preserves_statement) (auto intro: admin_put)

lemma admin_remove_setting: "preserves (admin_inv X) (modify (remove_setting w k))"
  by (rule preserves_modify)
    (auto simp: admin_inv_def registry_ok_iff remove_setting_def distinct_map_filter)

lemma admin_save_one: "preserves (admin_inv X) (save_one w before saved change)"
  unfolding save_one_def
  by (auto intro!: pres admin_upsert_setting admin_remove_setting split: prod.split option.split)

lemma admin_save_all: "preserves (admin_inv X) (save_all w before saved changes)"
  by (induction changes arbitrary: saved) (auto intro!: pres admin_save_one)

lemma admin_save: "preserves (admin_inv X) (save_worker_settings w changes)"
proof -
  have "preserves (admin_inv X) (dbind (worker_setting_values w) (\<lambda>before.
        dbind (save_all w before \<lparr>saved_set = [], saved_reset = []\<rparr> changes) (\<lambda>saved. ret (Commit saved))))"
    unfolding worker_setting_values_def by (intro pres admin_save_all)
  then show ?thesis unfolding save_worker_settings_def
    by (intro preserves_transaction) (auto dest: preservesD)
qed

lemma admin_adopt: "preserves (admin_inv X) (adopt_0_5_limits F w decls)"
  unfolding adopt_0_5_limits_def
  by (intro pres) (auto intro!: pres admin_save preserves_modify simp: admin_inv_def registry_def split: prod.split)

interpretation registration: registry_program register_worker
  by unfold_locales (rule admin_register)

interpretation rekeying: registry_program rekey_embedded
  by unfold_locales (rule admin_rekey)

interpretation embedding: registry_program mark_embedded
  by unfold_locales (rule admin_mark)

interpretation certifying: registry_program "\<lambda>(i, cert, not_after). store_signed_cert i cert not_after"
  by unfold_locales (auto simp: store_signed_cert_def intro!: admin_update)

interpretation approving: registry_program approve_worker
  by unfold_locales (auto simp: approve_worker_def intro!: admin_update)

interpretation pausing: registry_program "\<lambda>(i, paused). set_paused i paused"
  by unfold_locales (auto simp: set_paused_def intro!: admin_update)

interpretation touching: registry_program "\<lambda>(w, ver). touch_last_seen w ver"
  by unfold_locales (auto intro!: admin_touch)

interpretation reporting: registry_program "\<lambda>(i, e). store_effective_config i e"
  by unfold_locales (auto intro!: admin_effective)

interpretation saving: registry_program "\<lambda>(w, changes). save_worker_settings w changes"
  by unfold_locales (auto intro!: admin_save)

interpretation adopting: registry_program "\<lambda>(w, decls). adopt_0_5_limits F w decls" for F
  by unfold_locales (auto intro!: admin_adopt)

text \<open>Revoking changes a worker, then ends its builds.\<close>

interpretation revoke: server_program "\<lambda>_ _. True" "\<lambda>(i, m). revoke_worker i m"
proof -
  have upd: "serves (update_worker i (\<lambda>w. w\<lparr>w_status := Revoked, w_paused := False\<rparr>))" for i
    by (rule serves_admin) (auto intro: admin_update)
  have "serves (revoke_worker i m)" for i m
    unfolding revoke_worker_def using revocation.serves_prog [of "(i, m)"]
    by (auto intro!: serves_dbind [OF upd] serves_dbind serves_basic split: option.split)
  then show "server_program (\<lambda>_ _. True) (\<lambda>(i, m). revoke_worker i m)"
    by unfold_locales (auto dest: servesD)
qed

section \<open>What registration does\<close>

lemma worker_with_key_Some:
  "worker_with_key fp d = Some w \<Longrightarrow> w \<in> set (workers d) \<and> w_cert_fingerprint w = fp"
  unfolding worker_with_key_def by (rule find_Some_mem)

lemma worker_with_key_upsert:
  "worker_with_key (reg_fingerprint reg) (upsert_worker reg now d) =
     (case worker_with_key (reg_fingerprint reg) d of
        Some w \<Rightarrow> Some (refresh_worker reg now w)
      | None \<Rightarrow> Some (new_worker (next_worker_id d) reg now))"
proof -
  let ?fp = "reg_fingerprint reg" and ?f = "refresh_worker reg now"
  have found: "find (\<lambda>w. w_cert_fingerprint w = ?fp) (map (\<lambda>w. if w_cert_fingerprint w = ?fp then ?f w else w) ws) =
      map_option ?f (find (\<lambda>w. w_cert_fingerprint w = ?fp) ws)" for ws
    by (induction ws) (auto simp: refresh_worker_def)
  have app: "find (\<lambda>w. w_cert_fingerprint w = ?fp) (ws @ [n]) = Some n"
    if "w_cert_fingerprint n = ?fp" "\<forall>w \<in> set ws. w_cert_fingerprint w \<noteq> ?fp" for ws n
    using that by (induction ws) auto
  show ?thesis
  proof (cases "worker_with_key ?fp d")
    case None
    then have none: "\<forall>w \<in> set (workers d). w_cert_fingerprint w \<noteq> ?fp"
      by (auto simp: worker_with_key_def find_None_iff)
    then have "workers (upsert_worker reg now d) = workers d @ [new_worker (next_worker_id d) reg now]"
      by (auto simp: upsert_worker_def)
    then show ?thesis using None app [OF _ none, of "new_worker (next_worker_id d) reg now"]
      by (simp add: worker_with_key_def new_worker_def)
  next
    case (Some w)
    then have "\<exists>w \<in> set (workers d). w_cert_fingerprint w = ?fp" by (auto dest: worker_with_key_Some)
    then have "workers (upsert_worker reg now d) =
        map (\<lambda>w. if w_cert_fingerprint w = ?fp then ?f w else w) (workers d)"
      by (simp add: upsert_worker_def)
    then show ?thesis using Some found [of "workers d"] by (simp add: worker_with_key_def)
  qed
qed

lemma registered_ex: "\<exists>w. worker_with_key (reg_fingerprint reg) (upsert_worker reg now d) = Some w"
  by (cases "worker_with_key (reg_fingerprint reg) d") (simp_all add: worker_with_key_upsert)

lemma register_worker_run:
  assumes "register_worker reg s = (Inr w, t)"
  shows "db t = upsert_worker reg (clock s) (db s)"
    "w = (case worker_with_key (reg_fingerprint reg) (db s) of
        Some v \<Rightarrow> refresh_worker reg (clock s) v
      | None \<Rightarrow> new_worker (next_worker_id (db s)) reg (clock s))"
proof -
  have "db t = upsert_worker reg (clock s) (db s) \<and>
      worker_with_key (reg_fingerprint reg) (upsert_worker reg (clock s) (db s)) = Some w"
    using assms by (auto simp: register_worker_def find_worker_by_fingerprint_def db_simps split: option.splits)
  then show "db t = upsert_worker reg (clock s) (db s)"
    "w = (case worker_with_key (reg_fingerprint reg) (db s) of
        Some v \<Rightarrow> refresh_worker reg (clock s) v
      | None \<Rightarrow> new_worker (next_worker_id (db s)) reg (clock s))"
    by (auto simp: worker_with_key_upsert split: option.splits)
qed

lemma register_worker_goes_through:
  assumes "outage s = None"
  shows "\<exists>w t. register_worker reg s = (Inr w, t) \<and> outage t = None"
proof -
  obtain w where "worker_with_key (reg_fingerprint reg) (upsert_worker reg (clock s) (db s)) = Some w"
    using registered_ex by blast
  with assms show ?thesis
    by (auto simp: register_worker_def find_worker_by_fingerprint_def dbind_def dthen_def now_secs_def modify_def
        select_def statement_def up_def ret_def)
qed

lemma refresh_twice [simp]: "refresh_worker reg now (refresh_worker reg now w) = refresh_worker reg now w"
  by (simp add: refresh_worker_def)

lemma refresh_new [simp]: "refresh_worker reg now (new_worker i reg now) = new_worker i reg now"
  by (simp add: refresh_worker_def new_worker_def)

lemma upsert_idem: "upsert_worker reg now (upsert_worker reg now d) = upsert_worker reg now d"
proof -
  let ?fp = "reg_fingerprint reg"
  have "\<exists>w \<in> set (workers (upsert_worker reg now d)). w_cert_fingerprint w = ?fp"
  proof -
    obtain w where "worker_with_key ?fp (upsert_worker reg now d) = Some w" using registered_ex by blast
    then show ?thesis using worker_with_key_Some by blast
  qed
  moreover have "set_workers (\<lambda>w. w_cert_fingerprint w = ?fp) (refresh_worker reg now) (upsert_worker reg now d) =
      upsert_worker reg now d"
  proof -
    have id: "map (\<lambda>w. if w_cert_fingerprint w = ?fp then refresh_worker reg now w else w)
        (workers (upsert_worker reg now d)) = workers (upsert_worker reg now d)"
      by (rule map_idI) (auto simp: upsert_worker_def split: if_splits)
    show ?thesis unfolding set_workers_def id by simp
  qed
  ultimately show ?thesis by (subst upsert_worker_def) simp
qed

section \<open>What a save does\<close>

definition setting_at :: "id \<Rightarrow> string \<Rightarrow> tables \<Rightarrow> string option" where
  "setting_at w k d = map_option ws_value (find (\<lambda>s. setting_key s = (w, k)) (worker_settings d))"

lemma setting_values_at:
  assumes "registry_ok (registry d)"
  shows "map_of (setting_values w d) k = setting_at w k d"
proof -
  have d: "distinct (map setting_key (worker_settings d))" using assms by (simp add: registry_ok_iff)
  have "distinct (map fst (map (\<lambda>s. (ws_key s, ws_value s)) (filter (\<lambda>s. ws_worker_id s = w) ss)))"
    if "distinct (map setting_key ss)" for ss
    using that by (induction ss) (auto simp: setting_key_def image_iff)
  moreover have "map_of (map (\<lambda>s. (ws_key s, ws_value s)) (filter (\<lambda>s. ws_worker_id s = w) ss)) k =
      map_option ws_value (find (\<lambda>s. setting_key s = (w, k)) ss)" for ss
    by (induction ss) (auto simp: setting_key_def)
  ultimately show ?thesis using d by (simp add: setting_values_def setting_at_def map_of_collect_distinct)
qed

lemma setting_at_put: "setting_at w' k' (put_setting w k v d) = (if (w', k') = (w, k) then Some v else setting_at w' k' d)"
proof -
  let ?f = "\<lambda>s. if setting_key s = (w, k) then s\<lparr>ws_value := v\<rparr> else s"
  have upd: "map_option ws_value (find (\<lambda>s. setting_key s = (w', k')) (map ?f ss)) =
      (if (w', k') = (w, k) then map_option (\<lambda>_. v) (find (\<lambda>s. setting_key s = (w', k')) ss)
       else map_option ws_value (find (\<lambda>s. setting_key s = (w', k')) ss))" for ss
    by (induction ss) auto
  have ext: "find (\<lambda>s. setting_key s = (w', k')) (ss @ [n]) =
      (case find (\<lambda>s. setting_key s = (w', k')) ss of
         Some s \<Rightarrow> Some s | None \<Rightarrow> if setting_key n = (w', k') then Some n else None)" for ss n
    by (induction ss) auto
  show ?thesis
  proof (cases "\<exists>s \<in> set (worker_settings d). setting_key s = (w, k)")
    case True
    then have "find (\<lambda>s. setting_key s = (w, k)) (worker_settings d) \<noteq> None" by (auto simp: find_None_iff)
    moreover have "worker_settings (put_setting w k v d) = map ?f (worker_settings d)"
      using True by (simp add: put_setting_def)
    ultimately show ?thesis using upd [of "worker_settings d"] by (auto simp: setting_at_def)
  next
    case False
    then have none: "find (\<lambda>s. setting_key s = (w, k)) (worker_settings d) = None" by (auto simp: find_None_iff)
    have "worker_settings (put_setting w k v d) =
        worker_settings d @ [\<lparr>ws_worker_id = w, ws_key = k, ws_value = v\<rparr>]"
      using False by (auto simp: put_setting_def)
    moreover have "setting_key \<lparr>ws_worker_id = w, ws_key = k, ws_value = v\<rparr> = (w, k)" by (simp add: setting_key_def)
    ultimately show ?thesis using none by (auto simp: setting_at_def ext split: option.splits)
  qed
qed

lemma setting_at_remove: "setting_at w' k' (remove_setting w k d) = (if (w', k') = (w, k) then None else setting_at w' k' d)"
proof -
  have "find (\<lambda>s. setting_key s = (w', k')) (filter (\<lambda>s. setting_key s \<noteq> (w, k)) ss) =
      (if (w', k') = (w, k) then None else find (\<lambda>s. setting_key s = (w', k')) ss)" for ss
    by (induction ss) auto
  then show ?thesis by (simp add: setting_at_def remove_setting_def)
qed

text \<open>One change is stored, and counted when it makes a difference.\<close>

definition makes_difference :: "(string \<times> string) list \<Rightarrow> string \<times> string option \<Rightarrow> bool" where
  "makes_difference before change \<longleftrightarrow> map_of before (fst change) \<noteq> snd change"

lemma save_one_run:
  assumes "save_one w before saved (k, v) s = (Inr saved', t)" and "setting_at w k (db s) = map_of before k"
  shows "setting_at w' k' (db t) = (if (w', k') = (w, k) then v else setting_at w' k' (db s))"
    "saved' = (if map_of before k = v then saved
      else if v = None then saved\<lparr>saved_reset := saved_reset saved @ [k]\<rparr>
      else saved\<lparr>saved_set := saved_set saved @ [k]\<rparr>)"
proof -
  have "setting_at w' k' (db t) = (if (w', k') = (w, k) then v else setting_at w' k' (db s)) \<and>
    saved' = (if map_of before k = v then saved
      else if v = None then saved\<lparr>saved_reset := saved_reset saved @ [k]\<rparr>
      else saved\<lparr>saved_set := saved_set saved @ [k]\<rparr>)"
  proof (cases v)
    case None
    then show ?thesis using assms
      by (cases "map_of before k") (auto simp: save_one_def db_simps setting_at_remove)
  next
    case (Some x)
    then show ?thesis using assms
      by (cases "map_of before k = Some x")
        (auto simp: save_one_def upsert_worker_setting_def db_simps setting_at_put split: if_splits)
  qed
  then show "setting_at w' k' (db t) = (if (w', k') = (w, k) then v else setting_at w' k' (db s))"
    "saved' = (if map_of before k = v then saved
      else if v = None then saved\<lparr>saved_reset := saved_reset saved @ [k]\<rparr>
      else saved\<lparr>saved_set := saved_set saved @ [k]\<rparr>)"
    by blast+
qed

lemma save_all_run:
  assumes "save_all w before saved changes s = (Inr saved', t)" and "distinct (map fst changes)"
    and "\<forall>k \<in> fst ` set changes. setting_at w k (db s) = map_of before k"
  shows "(\<forall>w' k'. setting_at w' k' (db t) =
      (case map_of changes k' of
         Some v \<Rightarrow> if w' = w then v else setting_at w' k' (db s)
       | None \<Rightarrow> setting_at w' k' (db s))) \<and>
    saved_set saved' = saved_set saved @
      map fst (filter (\<lambda>c. makes_difference before c \<and> snd c \<noteq> None) changes) \<and>
    saved_reset saved' = saved_reset saved @
      map fst (filter (\<lambda>c. makes_difference before c \<and> snd c = None) changes)"
  using assms
proof (induction changes arbitrary: saved s)
  case Nil
  then show ?case by (simp add: db_simps)
next
  case (Cons c changes)
  obtain k v where c: "c = (k, v)" by fastforce
  obtain mid u where u: "save_one w before saved (k, v) s = (Inr mid, u)" "save_all w before mid changes u = (Inr saved', t)"
    using Cons.prems(1) by (auto simp: c db_simps)
  have "setting_at w k (db s) = map_of before k" using Cons.prems(3) by (simp add: c)
  note one = save_one_run [OF u(1) this]
  have fresh: "k \<notin> fst ` set changes" using Cons.prems(2) by (simp add: c)
  have "\<forall>j \<in> fst ` set changes. setting_at w j (db u) = map_of before j"
    using Cons.prems(3) one(1) fresh by (auto simp: c)
  with Cons.IH [OF u(2)] Cons.prems(2) have IH: "(\<forall>w' k'. setting_at w' k' (db t) =
      (case map_of changes k' of
         Some v \<Rightarrow> if w' = w then v else setting_at w' k' (db u)
       | None \<Rightarrow> setting_at w' k' (db u)))"
    "saved_set saved' = saved_set mid @ map fst (filter (\<lambda>c. makes_difference before c \<and> snd c \<noteq> None) changes)"
    "saved_reset saved' = saved_reset mid @ map fst (filter (\<lambda>c. makes_difference before c \<and> snd c = None) changes)"
    by auto
  have none: "map_of changes k = None" using fresh by (simp add: map_of_eq_None_iff)
  have "\<forall>w' k'. setting_at w' k' (db t) =
      (case map_of (c # changes) k' of
         Some v \<Rightarrow> if w' = w then v else setting_at w' k' (db s)
       | None \<Rightarrow> setting_at w' k' (db s))"
    using IH(1) one(1) none by (auto simp: c split: option.splits)
  then show ?case using IH(2,3) one(2) by (auto simp: c makes_difference_def)
qed

lemma save_worker_settings_Inr:
  assumes run: "save_worker_settings w changes s = (Inr saved, t)" and "registry_ok (registry (db s))"
    and "distinct (map fst changes)"
  shows "(\<forall>w' k'. setting_at w' k' (db t) =
      (case map_of changes k' of
         Some v \<Rightarrow> if w' = w then v else setting_at w' k' (db s)
       | None \<Rightarrow> setting_at w' k' (db s))) \<and>
    saved_set saved = map fst (filter (\<lambda>c. setting_at w (fst c) (db s) \<noteq> snd c \<and> snd c \<noteq> None) changes) \<and>
    saved_reset saved = map fst (filter (\<lambda>c. setting_at w (fst c) (db s) \<noteq> snd c \<and> snd c = None) changes)"
proof -
  obtain u where u: "save_all w (setting_values w (db s)) \<lparr>saved_set = [], saved_reset = []\<rparr> changes (tick (tick s)) = (Inr saved, u)"
    "db t = db u"
    using run by (auto simp: save_worker_settings_def transaction_Inr worker_setting_values_def db_simps)
  note v = setting_values_at [OF assms(2)]
  show ?thesis using save_all_run [OF u(1) assms(3)] u(2) unfolding tick_sel by (simp add: v makes_difference_def)
qed

section \<open>Properties\<close>

text \<open>A worker that registers again under its key keeps its row, its approval, its certificate and
  whether it is paused, while everything it reports is replaced; a new key gets a row of its own
  that waits for approval; no other row changes; and registering twice is registering once.\<close>

theorem registration_keeps_standing:
  assumes ok: "db_ok (db s)" and up: "outage s = None"
  shows "\<exists>w t. register_worker reg s = (Inr w, t) \<and>
    (case worker_with_key (reg_fingerprint reg) (db s) of
       None \<Rightarrow> w_status w = Pending \<and> workers (db t) = workers (db s) @ [w] \<and> w_id w \<notin> w_id ` set (workers (db s))
     | Some v \<Rightarrow>
         w_id w = w_id v \<and> w_status w = w_status v \<and> w_paused w = w_paused v \<and> w_embedded w = w_embedded v \<and>
         w_signed_cert w = w_signed_cert v \<and> w_effective_config w = w_effective_config v \<and>
         workers (db t) = map (\<lambda>x. if w_id x = w_id v then w else x) (workers (db s))) \<and>
    w_name w = reg_name reg \<and> w_priority w = reg_priority reg \<and> w_concurrency w = reg_concurrency reg \<and>
    w_arches w = stored_list (reg_arches reg) \<and> w_package_affinity w = stored_list (reg_package_affinity reg) \<and>
    (\<exists>u. register_worker reg t = (Inr w, u) \<and> (clock t = clock s \<longrightarrow> db u = db t))"
proof -
  let ?fp = "reg_fingerprint reg"
  obtain w t where run: "register_worker reg s = (Inr w, t)" "outage t = None"
    using register_worker_goes_through [OF up] by blast
  note w = register_worker_run [OF run(1)]
  obtain w2 u where again: "register_worker reg t = (Inr w2, u)" using register_worker_goes_through [OF run(2)] by blast
  note w2 = register_worker_run [OF again]
  have clk: "clock t = clock s"
    using run(1) by (auto simp: register_worker_def find_worker_by_fingerprint_def db_simps split: option.splits)
  have found: "worker_with_key ?fp (db t) = Some w"
    using worker_with_key_upsert [of reg "clock s" "db s"] w by (simp split: option.splits)
  have w2w: "w2 = w" using w2(2) found w(2) clk by (auto split: option.splits)
  have same: "db u = db t" using w2(1) w(1) clk upsert_idem by simp
  have reg: "registry_ok (registry (db s))" by (rule db_okD(6) [OF ok])
  have rows: "case worker_with_key ?fp (db s) of
       None \<Rightarrow> w_status w = Pending \<and> workers (db t) = workers (db s) @ [w] \<and> w_id w \<notin> w_id ` set (workers (db s))
     | Some v \<Rightarrow>
         w_id w = w_id v \<and> w_status w = w_status v \<and> w_paused w = w_paused v \<and> w_embedded w = w_embedded v \<and>
         w_signed_cert w = w_signed_cert v \<and> w_effective_config w = w_effective_config v \<and>
         workers (db t) = map (\<lambda>x. if w_id x = w_id v then w else x) (workers (db s))"
  proof (cases "worker_with_key ?fp (db s)")
    case None
    then have "\<forall>x \<in> set (workers (db s)). w_cert_fingerprint x \<noteq> ?fp"
      by (auto simp: worker_with_key_def find_None_iff)
    then have "workers (db t) = workers (db s) @ [w]" using w None by (auto simp: upsert_worker_def)
    moreover have "w_id w \<notin> w_id ` set (workers (db s))" "w_status w = Pending"
      using reg w(2) None by (auto simp: registry_ok_iff new_worker_def)
    ultimately show ?thesis using None by simp
  next
    case (Some v)
    note v = worker_with_key_Some [OF Some]
    have "w_cert_fingerprint x = ?fp \<longleftrightarrow> w_id x = w_id v" if "x \<in> set (workers (db s))" for x
      using that v reg distinct_map_eq [of w_id "workers (db s)" x v] distinct_map_eq [of w_cert_fingerprint "workers (db s)" x v]
      by (auto simp: registry_ok_iff)
    moreover have "refresh_worker reg (clock s) x = w" if "x \<in> set (workers (db s))" "w_id x = w_id v" for x
      using that v reg distinct_map_eq [of w_id "workers (db s)" x v] w(2) Some by (simp add: registry_ok_iff)
    moreover have "workers (db t) = map (\<lambda>x. if w_cert_fingerprint x = ?fp then refresh_worker reg (clock s) x else x) (workers (db s))"
      using w(1) v by (auto simp: upsert_worker_def)
    ultimately have "workers (db t) = map (\<lambda>x. if w_id x = w_id v then w else x) (workers (db s))" by (simp cong: map_cong)
    then show ?thesis using Some w(2) by (simp add: refresh_worker_def)
  qed
  have "w_name w = reg_name reg \<and> w_priority w = reg_priority reg \<and> w_concurrency w = reg_concurrency reg \<and>
    w_arches w = stored_list (reg_arches reg) \<and> w_package_affinity w = stored_list (reg_package_affinity reg)"
    using w(2) by (auto simp: refresh_worker_def new_worker_def split: option.splits)
  with run(1) rows again w2w same show ?thesis by blast
qed

theorem registration_keeps_standing_witness:
  "\<exists>w t. register_worker \<lparr>reg_name = ''uno'', reg_fingerprint = ''one'', reg_arches = [''x86_64''], reg_version = ''2'',
       reg_kind = ''chroot'', reg_package_affinity = [], reg_priority = 5, reg_concurrency = 2,
       reg_settings_declaration = ''[]''\<rparr> sample_server = (Inr w, t) \<and> w_name w = ''uno'' \<and> w_status w = Approved"
proof -
  let ?reg = "\<lparr>reg_name = ''uno'', reg_fingerprint = ''one'', reg_arches = [''x86_64''], reg_version = ''2'',
       reg_kind = ''chroot'', reg_package_affinity = [], reg_priority = 5, reg_concurrency = 2,
       reg_settings_declaration = ''[]''\<rparr>"
  have "worker_with_key ''one'' sample_tables = Some (sample_worker 1 ''one'' [] 0)" by code_simp
  moreover have "w_status (sample_worker 1 ''one'' [] 0) = Approved" by (simp add: sample_worker_def)
  ultimately show ?thesis
    using registration_keeps_standing [of sample_server ?reg] sample_db_ok by auto
qed

text \<open>Saving a worker's settings is all or nothing: after an error nothing has changed, else every
  changed key reads as it was saved (removed keys read as unset), every other key of this and of
  every other worker reads as before, and the reply names exactly the keys that were given a
  new value and those that lost one.\<close>

theorem settings_saved_whole:
  assumes ok: "db_ok (db s)" and "ordered changes"
  shows "case save_worker_settings w changes s of
      (Inl e, t) \<Rightarrow> db t = db s
    | (Inr saved, t) \<Rightarrow>
        (\<forall>w' k. map_of (setting_values w' (db t)) k =
           (case map_of changes k of
              Some v \<Rightarrow> if w' = w then v else map_of (setting_values w' (db s)) k
            | None \<Rightarrow> map_of (setting_values w' (db s)) k)) \<and>
        saved_set saved = map fst (filter (\<lambda>(k, v). v \<noteq> None \<and> map_of (setting_values w (db s)) k \<noteq> v) changes) \<and>
        saved_reset saved = map fst (filter (\<lambda>(k, v). v = None \<and> map_of (setting_values w (db s)) k \<noteq> None) changes)"
proof (rule outcomeI)
  show "db t = db s" if "save_worker_settings w changes s = (Inl e, t)" for e t
    using that unfolding save_worker_settings_def by (rule transaction_Inl)
next
  fix saved t
  assume run: "save_worker_settings w changes s = (Inr saved, t)"
  note before = setting_values_at [OF db_okD(6) [OF ok]]
  have "registry_ok (registry (db t))" using saving.frame(4) [OF ok, of "(w, changes)"] run by simp
  note after = setting_values_at [OF this]
  note eff = save_worker_settings_Inr [OF run db_okD(6) [OF ok] ordered_distinct [OF assms(2)]]
  have "saved_set saved = map fst (filter (\<lambda>(k, v). v \<noteq> None \<and> setting_at w k (db s) \<noteq> v) changes)"
    "saved_reset saved = map fst (filter (\<lambda>(k, v). v = None \<and> setting_at w k (db s) \<noteq> None) changes)"
    using eff by (auto intro!: arg_cong [where f = "map fst"] filter_cong)
  then show "(\<forall>w' k. map_of (setting_values w' (db t)) k =
           (case map_of changes k of
              Some v \<Rightarrow> if w' = w then v else map_of (setting_values w' (db s)) k
            | None \<Rightarrow> map_of (setting_values w' (db s)) k)) \<and>
        saved_set saved = map fst (filter (\<lambda>(k, v). v \<noteq> None \<and> map_of (setting_values w (db s)) k \<noteq> v) changes) \<and>
        saved_reset saved = map fst (filter (\<lambda>(k, v). v = None \<and> map_of (setting_values w (db s)) k \<noteq> None) changes)"
    using eff unfolding before after by blast
qed

theorem settings_saved_whole_witness:
  "\<exists>saved t. save_worker_settings 1 [(''concurrency'', Some ''4'')] sample_server = (Inr saved, t) \<and>
     map_of (setting_values 1 (db t)) ''concurrency'' = Some ''4''"
proof -
  have "(case save_worker_settings 1 [(''concurrency'', Some ''4'')] sample_server of (Inr _, _) \<Rightarrow> True | _ \<Rightarrow> False)"
    by code_simp
  then obtain saved t where run: "save_worker_settings 1 [(''concurrency'', Some ''4'')] sample_server = (Inr saved, t)"
    by (auto split: prod.splits sum.splits)
  then show ?thesis
    using settings_saved_whole [of sample_server "[(''concurrency'', Some ''4'')]" 1] sample_db_ok by (simp add: ordered_def)
qed

end
