(* ===== verification/Setting_Resolution.thy ===== *)
theory Setting_Resolution
  imports Worker_Config
begin

text \<open>
  How a worker resolves its settings (\<^verbatim>\<open>aurcache-worker-core/src/settings.rs\<close>): the variable
  that pins a value on the machine, then the server's value, then the environment's
  default, then the built-in one; and the tables of settings of the protocol, of the
  chroot executor (\<^verbatim>\<open>aurcache-worker/src/settings.rs\<close>) and of the container executor
  (\<^verbatim>\<open>aurcache-worker-docker/src/settings.rs\<close>).
\<close>

section \<open>Resolving a setting on the worker\<close>

definition DEFAULT_SUFFIX :: string where
  "DEFAULT_SUFFIX = ''_DEFAULT''"

datatype builtin =
    Builtin_Unset
  | Builtin_Size nat
  | Builtin_Duration nat
  | Builtin_Integer int
  | Builtin_Text string

definition show_int :: "int \<Rightarrow> string" where
  "show_int i = (if i < 0 then CHR ''-'' # show_nat (nat (- i)) else show_nat (nat i))"

fun as_written :: "builtin \<Rightarrow> string option" where
  "as_written Builtin_Unset = None"
| "as_written (Builtin_Size bytes) = Some (format_size bytes)"
| "as_written (Builtin_Duration secs) = Some (format_duration secs)"
| "as_written (Builtin_Integer value) = Some (show_int value)"
| "as_written (Builtin_Text value) = Some value"

record 'f setting_spec =
  sp_key :: string
  sp_env_var :: string
  sp_kind :: "'f value_kind"
  sp_category :: string
  sp_applies :: applies
  sp_default :: builtin

text \<open>\<^verbatim>\<open>Resolution\<close> has the fields of \<^verbatim>\<open>EffectiveSetting\<close>.\<close>

type_synonym 'f resolution = "'f effective_setting"

record 'f entry =
  en_spec :: "'f setting_spec"
  en_current :: "'f resolution"
  en_from_env :: "'f resolution"
  en_pin :: "string option"
  en_fallback :: "string option"

record 'f worker_settings =
  st_entries :: "'f entry list"
  st_revision :: "string option"
  st_unsupported :: "string list"

text \<open>The process environment is a function from variables to what they are set to.\<close>

type_synonym environment = "string \<Rightarrow> string option"

definition env_opt :: "environment \<Rightarrow> string \<Rightarrow> string option" where
  "env_opt env key =
     (case env key of
        None \<Rightarrow> None
      | Some v \<Rightarrow> if trim v = [] then None else Some (trim v))"

fun try_candidates ::
    "'f floats \<Rightarrow> 'f value_kind \<Rightarrow> (string option \<times> effective_source \<times> string) list \<Rightarrow> 'f reason option \<Rightarrow>
     'f reason option \<times> (string \<times> effective_source) option" where
  "try_candidates F kind [] rejected = (rejected, None)"
| "try_candidates F kind ((raw, source, var) # candidates) rejected =
     (case raw of
        None \<Rightarrow> try_candidates F kind candidates rejected
      | Some raw \<Rightarrow>
          (case validate F kind (trim raw) of
             Inr _ \<Rightarrow> (rejected, Some (trim raw, source))
           | Inl why \<Rightarrow>
               try_candidates F kind candidates
                 (case rejected of None \<Rightarrow> Some (Ignored var why) | Some r \<Rightarrow> Some r)))"

definition resolve :: "'f floats \<Rightarrow> environment \<Rightarrow> 'f setting_spec \<Rightarrow> 'f entry" where
  "resolve F env spec =
     (let default_var = sp_env_var spec @ DEFAULT_SUFFIX;
          pin = env_opt env (sp_env_var spec);
          env_default = env_opt env default_var;
          (rejected, chosen) = try_candidates F (sp_kind spec)
            [(pin, Source_Env, sp_env_var spec), (env_default, Source_EnvDefault, default_var)] None;
          fallback =
            (case env_default of
               None \<Rightarrow> as_written (sp_default spec)
             | Some raw \<Rightarrow>
                 (case validate F (sp_kind spec) (trim raw) of
                    Inr _ \<Rightarrow> Some (trim raw)
                  | Inl _ \<Rightarrow> as_written (sp_default spec)));
          pin_value = (case chosen of Some (value, Source_Env) \<Rightarrow> Some value | _ \<Rightarrow> None);
          (value, source) =
            (case chosen of
               None \<Rightarrow> (as_written (sp_default spec), Source_Default)
             | Some (value, source) \<Rightarrow> (Some value, source));
          shadowed =
            (if pin \<noteq> None \<and> env_default \<noteq> None \<and> source = Source_Env
             then Some (Shadows default_var) else None);
          resolved =
            \<lparr>es_value = value, es_source = source,
             es_status = (if rejected \<noteq> None then Rejected else Applied),
             es_reason = (case rejected of None \<Rightarrow> shadowed | Some r \<Rightarrow> Some r)\<rparr>
      in \<lparr>en_spec = spec, en_current = resolved, en_from_env = resolved, en_pin = pin_value,
          en_fallback = fallback\<rparr>)"

definition extended :: "'f floats \<Rightarrow> environment \<Rightarrow> 'f worker_settings \<Rightarrow> 'f setting_spec list \<Rightarrow> 'f worker_settings" where
  "extended F env ws specs = ws\<lparr>st_entries := st_entries ws @ map (resolve F env) specs\<rparr>"

definition from_env :: "'f floats \<Rightarrow> environment \<Rightarrow> 'f setting_spec list \<Rightarrow> 'f worker_settings" where
  "from_env F env specs = extended F env \<lparr>st_entries = [], st_revision = None, st_unsupported = []\<rparr> specs"

definition snapshot_current :: "'f floats \<Rightarrow> config_snapshot \<Rightarrow> 'f entry \<Rightarrow> 'f resolution" where
  "snapshot_current F snapshot e =
     (case (en_pin e, map_of (cs_settings snapshot) (sp_key (en_spec e))) of
        (Some _, Some server) \<Rightarrow>
          (en_from_env e)\<lparr>es_status := Overridden,
            es_reason := Some (PinnedHere server (sp_env_var (en_spec e)))\<rparr>
      | (_, None) \<Rightarrow> en_from_env e
      | (None, Some server) \<Rightarrow>
          (case validate F (sp_kind (en_spec e)) server of
             Inr _ \<Rightarrow>
               \<lparr>es_value = Some (trim server), es_source = Source_Server,
                es_status = es_status (en_from_env e), es_reason = es_reason (en_from_env e)\<rparr>
           | Inl why \<Rightarrow>
               (en_current e)\<lparr>es_status := Rejected, es_reason := Some (ServerRefused why)\<rparr>))"

definition with_snapshot :: "'f floats \<Rightarrow> 'f worker_settings \<Rightarrow> config_snapshot \<Rightarrow> 'f worker_settings" where
  "with_snapshot F ws snapshot =
     \<lparr>st_entries = map (\<lambda>e. e\<lparr>en_current := snapshot_current F snapshot e\<rparr>) (st_entries ws),
      st_revision = Some (cs_revision snapshot),
      st_unsupported =
        filter (\<lambda>key. \<not> list_ex (\<lambda>e. sp_key (en_spec e) = key) (st_entries ws))
          (map fst (cs_settings snapshot))\<rparr>"

definition refuse_entry ::
    "(string \<times> string) list \<Rightarrow> 'f worker_settings \<Rightarrow> 'f entry \<Rightarrow> 'f entry" where
  "refuse_entry refusals previous e =
     (case map_of refusals (sp_key (en_spec e)) of
        None \<Rightarrow> e
      | Some why \<Rightarrow>
          (let before =
                 (case find (\<lambda>old. sp_key (en_spec old) = sp_key (en_spec e)) (st_entries previous) of
                    None \<Rightarrow> en_from_env e
                  | Some old \<Rightarrow> en_current old)
           in e\<lparr>en_current := before\<lparr>es_status := Rejected, es_reason := Some (HostRefused why)\<rparr>\<rparr>))"

definition refused ::
    "'f worker_settings \<Rightarrow> (string \<times> string) list \<Rightarrow> 'f worker_settings \<Rightarrow> 'f worker_settings" where
  "refused ws refusals previous = ws\<lparr>st_entries := map (refuse_entry refusals previous) (st_entries ws)\<rparr>"

section \<open>Reading a setting\<close>

definition find_entry :: "'f worker_settings \<Rightarrow> string \<Rightarrow> 'f entry option" where
  "find_entry ws key = find (\<lambda>e. sp_key (en_spec e) = key) (st_entries ws)"

definition source_of :: "'f worker_settings \<Rightarrow> string \<Rightarrow> effective_source option" where
  "source_of ws key = map_option (\<lambda>e. es_source (en_current e)) (find_entry ws key)"

definition raw :: "'f worker_settings \<Rightarrow> string \<Rightarrow> string option" where
  "raw ws key = Option.bind (find_entry ws key) (\<lambda>e. es_value (en_current e))"

definition size_of :: "'f worker_settings \<Rightarrow> string \<Rightarrow> nat option" where
  "size_of ws key = Option.bind (raw ws key) parse_size"

definition duration_of :: "'f worker_settings \<Rightarrow> string \<Rightarrow> nat option" where
  "duration_of ws key = Option.bind (raw ws key) parse_duration"

definition integer_of :: "'f worker_settings \<Rightarrow> string \<Rightarrow> int option" where
  "integer_of ws key = Option.bind (raw ws key) parse_i64"

definition float_of :: "'f floats \<Rightarrow> 'f worker_settings \<Rightarrow> string \<Rightarrow> 'f option" where
  "float_of F ws key = Option.bind (raw ws key) (parse_f64 F)"

definition parse_list :: "string \<Rightarrow> string list" where
  "parse_list s =
     filter (\<lambda>w. w \<noteq> []) (map trim (concat (map (split_on CHR '' '') (split_on CHR '','' s))))"

definition list_of :: "'f worker_settings \<Rightarrow> string \<Rightarrow> string list" where
  "list_of ws key = (case raw ws key of None \<Rightarrow> [] | Some s \<Rightarrow> parse_list s)"

definition declared_settings :: "'f worker_settings \<Rightarrow> 'f setting_decl list" where
  "declared_settings ws =
     map (\<lambda>e. \<lparr>sd_key = sp_key (en_spec e), sd_kind = sp_kind (en_spec e), sd_category = sp_category (en_spec e),
               sd_default = en_fallback e, sd_env_var = Some (sp_env_var (en_spec e)),
               sd_applies = sp_applies (en_spec e)\<rparr>) (st_entries ws)"

definition effective :: "'f worker_settings \<Rightarrow> 'f effective_config" where
  "effective ws =
     \<lparr>ec_received_revision = st_revision ws,
      ec_settings = btree_collect
        (map (\<lambda>e. (sp_key (en_spec e), en_current e)) (st_entries ws) @
         map (\<lambda>key. (key, \<lparr>es_value = None, es_source = Source_Server, es_status = Unsupported,
                           es_reason = Some (NoSuchSetting key)\<rparr>)) (st_unsupported ws))\<rparr>"

section \<open>The tables\<close>

definition spec_of ::
    "string \<Rightarrow> string \<Rightarrow> 'f value_kind \<Rightarrow> string \<Rightarrow> applies \<Rightarrow> builtin \<Rightarrow> 'f setting_spec" where
  "spec_of key var kind category app dflt =
     \<lparr>sp_key = key, sp_env_var = var, sp_kind = kind, sp_category = category, sp_applies = app,
      sp_default = dflt\<rparr>"

definition DEFAULT_CONCURRENCY :: int where "DEFAULT_CONCURRENCY = 1"
definition DEFAULT_POLL_INTERVAL :: nat where "DEFAULT_POLL_INTERVAL = 10"
definition DEFAULT_BUILD_TIMEOUT :: nat where "DEFAULT_BUILD_TIMEOUT = 3 * 60 * 60"
definition DEFAULT_KEYSERVER :: string where "DEFAULT_KEYSERVER = ''hkps://keyserver.ubuntu.com''"

definition protocol_settings :: "'f setting_spec list" where
  "protocol_settings =
     [spec_of ''concurrency'' ''WORKER_CONCURRENCY'' (Kind_Integer (Some 1) None) ''Scheduling'' Immediately
        (Builtin_Integer DEFAULT_CONCURRENCY),
      spec_of ''priority'' ''WORKER_PRIORITY'' (Kind_Integer None None) ''Scheduling'' Immediately
        (Builtin_Integer 0),
      spec_of ''packages'' ''WORKER_PACKAGES'' Kind_List ''Scheduling'' Immediately Builtin_Unset,
      spec_of ''poll_interval'' ''WORKER_POLL_INTERVAL'' Kind_Duration ''Scheduling'' NextLoop
        (Builtin_Duration DEFAULT_POLL_INTERVAL),
      spec_of ''build_timeout'' ''WORKER_BUILD_TIMEOUT'' Kind_Duration ''Build limits'' NextJob
        (Builtin_Duration DEFAULT_BUILD_TIMEOUT)]"

definition GiB :: nat where "GiB = 1024 * 1024 * 1024"
definition DEFAULT_TOTAL_CACHE_SIZE :: nat where "DEFAULT_TOTAL_CACHE_SIZE = 20 * GiB"
definition DEFAULT_CACHE_TTL :: nat where "DEFAULT_CACHE_TTL = 30 * 24 * 60 * 60"
definition DEFAULT_CHROOT_REFRESH_INTERVAL :: nat where "DEFAULT_CHROOT_REFRESH_INTERVAL = 15 * 60"
definition DEFAULT_BUILD_DISK_MAX :: nat where "DEFAULT_BUILD_DISK_MAX = 50 * GiB"
definition DEFAULT_DISK_MAX :: nat where "DEFAULT_DISK_MAX = 200 * GiB"
definition DEFAULT_BUILDDIR_MAX_BYTES :: nat where "DEFAULT_BUILDDIR_MAX_BYTES = 200 * GiB"
definition DEFAULT_BUILDDIR_MIN_FREE :: nat where "DEFAULT_BUILDDIR_MIN_FREE = 50 * GiB"

definition chroot_settings :: "'f floats \<Rightarrow> 'f setting_spec list" where
  "chroot_settings F =
     [spec_of ''keyserver'' ''WORKER_KEYSERVER'' Kind_Text ''Signatures'' NextJob (Builtin_Text DEFAULT_KEYSERVER),
      spec_of ''cache_max_size'' ''WORKER_CACHE_MAX_SIZE'' Kind_Size ''Caches'' NextLoop
        (Builtin_Size DEFAULT_TOTAL_CACHE_SIZE),
      spec_of ''srccache_max_size'' ''WORKER_SRCCACHE_MAX_SIZE'' Kind_Size ''Caches'' NextLoop Builtin_Unset,
      spec_of ''pkgcache_max_size'' ''WORKER_PKGCACHE_MAX_SIZE'' Kind_Size ''Caches'' NextLoop Builtin_Unset,
      spec_of ''cache_ttl'' ''WORKER_CACHE_TTL'' Kind_Duration ''Caches'' NextLoop
        (Builtin_Duration DEFAULT_CACHE_TTL),
      spec_of ''pkgcache_ttl'' ''WORKER_PKGCACHE_TTL'' Kind_Duration ''Caches'' NextLoop (Builtin_Duration 0),
      spec_of ''chroot_refresh_interval'' ''WORKER_CHROOT_REFRESH_INTERVAL'' Kind_Duration ''Chroots'' NextLoop
        (Builtin_Duration DEFAULT_CHROOT_REFRESH_INTERVAL),
      spec_of ''build_memory_max'' ''WORKER_BUILD_MEMORY_MAX'' Kind_Size ''Build limits'' NextJob Builtin_Unset,
      spec_of ''build_swap_max'' ''WORKER_BUILD_SWAP_MAX'' Kind_Size ''Build limits'' NextJob Builtin_Unset,
      spec_of ''build_cpus'' ''WORKER_BUILD_CPUS'' (Kind_Float (Some (f_zero F)) None) ''Build limits'' NextJob
        Builtin_Unset,
      spec_of ''total_build_memory_max'' ''WORKER_TOTAL_BUILD_MEMORY_MAX'' Kind_Size ''Build limits'' Immediately
        Builtin_Unset,
      spec_of ''total_build_swap_max'' ''WORKER_TOTAL_BUILD_SWAP_MAX'' Kind_Size ''Build limits'' Immediately
        Builtin_Unset,
      spec_of ''total_build_cpus'' ''WORKER_TOTAL_BUILD_CPUS'' (Kind_Float (Some (f_zero F)) None)
        ''Build limits'' Immediately Builtin_Unset,
      spec_of ''build_disk_max'' ''WORKER_BUILD_DISK_MAX'' Kind_Size ''Disk'' NextJob
        (Builtin_Size DEFAULT_BUILD_DISK_MAX),
      spec_of ''disk_max'' ''WORKER_DISK_MAX'' Kind_Size ''Disk'' Immediately (Builtin_Size DEFAULT_DISK_MAX),
      spec_of ''keep_failed'' ''WORKER_KEEP_FAILED'' Kind_Duration ''Chroots'' NextLoop Builtin_Unset,
      spec_of ''builddir_max_bytes'' ''WORKER_BUILDDIR_MAX_BYTES'' Kind_Size ''Build trees'' NextLoop
        (Builtin_Size DEFAULT_BUILDDIR_MAX_BYTES),
      spec_of ''builddir_min_free'' ''WORKER_BUILDDIR_MIN_FREE'' Kind_Size ''Build trees'' NextLoop
        (Builtin_Size DEFAULT_BUILDDIR_MIN_FREE)]"

definition DEFAULT_CPU_LIMIT :: int where "DEFAULT_CPU_LIMIT = 0"
definition DEFAULT_MEMORY_LIMIT :: int where "DEFAULT_MEMORY_LIMIT = -1"

definition docker_settings :: "'f setting_spec list" where
  "docker_settings =
     [spec_of ''cpu_limit'' ''CPU_LIMIT'' (Kind_Integer (Some 0) None) ''Build limits'' NextJob
        (Builtin_Integer DEFAULT_CPU_LIMIT),
      spec_of ''memory_limit'' ''MEMORY_LIMIT'' (Kind_Integer None None) ''Build limits'' NextJob
        (Builtin_Integer DEFAULT_MEMORY_LIMIT)]"

definition default_valid :: "'f floats \<Rightarrow> 'f setting_spec \<Rightarrow> bool" where
  "default_valid F spec \<longleftrightarrow>
     (case as_written (sp_default spec) of None \<Rightarrow> True | Some w \<Rightarrow> validate F (sp_kind spec) w = Inr ())"

definition check_table :: "'f floats \<Rightarrow> 'f setting_spec list \<Rightarrow> bool" where
  "check_table F specs \<longleftrightarrow>
     list_all (default_valid F) specs \<and> distinct (map sp_key specs) \<and> distinct (map sp_env_var specs)"

section \<open>What the environment resolves to\<close>

definition usable :: "'f floats \<Rightarrow> environment \<Rightarrow> 'f setting_spec \<Rightarrow> string \<Rightarrow> string option" where
  "usable F env spec var =
     (case env_opt env var of
        None \<Rightarrow> None
      | Some v \<Rightarrow> if validate F (sp_kind spec) v = Inr () then Some v else None)"

lemma env_opt_trimmed: "env_opt env var = Some v \<Longrightarrow> trimmed v \<and> v \<noteq> []"
  by (auto simp: env_opt_def split: option.splits if_splits)

lemma usable_Some: "usable F env spec var = Some v \<Longrightarrow> validate F (sp_kind spec) v = Inr () \<and> trimmed v"
  by (auto simp: usable_def env_opt_trimmed split: option.splits if_splits)

lemma resolve_sel:
  "en_spec (resolve F env spec) = spec"
  "en_current (resolve F env spec) = en_from_env (resolve F env spec)"
  "en_pin (resolve F env spec) = usable F env spec (sp_env_var spec)"
  "en_fallback (resolve F env spec) =
     (case usable F env spec (sp_env_var spec @ DEFAULT_SUFFIX) of
        None \<Rightarrow> as_written (sp_default spec) | Some d \<Rightarrow> Some d)"
  "es_value (en_from_env (resolve F env spec)) =
     (case usable F env spec (sp_env_var spec) of
        None \<Rightarrow> en_fallback (resolve F env spec) | Some v \<Rightarrow> Some v)"
proof -
  have valid: "validate F (sp_kind spec) v = Inr () \<longleftrightarrow> (\<exists>u. validate F (sp_kind spec) v = Inr u)" for v
    by simp
  note tr = trim_trimmed [OF conjunct1 [OF env_opt_trimmed]]
  show "en_spec (resolve F env spec) = spec"
    "en_current (resolve F env spec) = en_from_env (resolve F env spec)"
    by (simp_all add: resolve_def Let_def split: prod.splits)
  show "en_pin (resolve F env spec) = usable F env spec (sp_env_var spec)"
    by (auto simp: resolve_def usable_def Let_def tr split: option.splits sum.splits)
  show "en_fallback (resolve F env spec) =
     (case usable F env spec (sp_env_var spec @ DEFAULT_SUFFIX) of
        None \<Rightarrow> as_written (sp_default spec) | Some d \<Rightarrow> Some d)"
    by (auto simp: resolve_def usable_def Let_def tr split: option.splits sum.splits prod.splits)
  show "es_value (en_from_env (resolve F env spec)) =
     (case usable F env spec (sp_env_var spec) of
        None \<Rightarrow> en_fallback (resolve F env spec) | Some v \<Rightarrow> Some v)"
    by (auto simp: resolve_def usable_def Let_def tr split: option.splits sum.splits)
qed

section \<open>A worker's settings over its life\<close>

text \<open>
  A worker starts from its environment, then takes snapshots from the server, and its
  executor may refuse values the host cannot enforce, against any settings it ran before.
\<close>

inductive configured ::
    "'f floats \<Rightarrow> environment \<Rightarrow> 'f setting_spec list \<Rightarrow> 'f worker_settings \<Rightarrow> bool"
  for F env specs where
  started: "configured F env specs (from_env F env specs)"
| delivered: "configured F env specs ws \<Longrightarrow> configured F env specs (with_snapshot F ws snapshot)"
| host_refused: "configured F env specs ws \<Longrightarrow> configured F env specs previous \<Longrightarrow>
     configured F env specs (refused ws refusals previous)"

text \<open>Everything but the value in effect is as the environment resolved it.\<close>

lemma refuse_entry_sel [simp]:
  "en_spec (refuse_entry refusals previous e) = en_spec e"
  "(refuse_entry refusals previous e)\<lparr>en_current := c\<rparr> = e\<lparr>en_current := c\<rparr>"
  by (simp_all add: refuse_entry_def Let_def split: option.splits)

definition at_start :: "'f entry \<Rightarrow> 'f entry" where
  "at_start e = e\<lparr>en_current := en_from_env e\<rparr>"

lemma at_start_sel [simp]:
  "en_spec (at_start e) = en_spec e" "at_start (e\<lparr>en_current := c\<rparr>) = at_start e"
  "en_from_env (at_start e) = en_from_env e" "en_pin (at_start e) = en_pin e"
  by (simp_all add: at_start_def)

lemma at_start_refuse [simp]: "at_start (refuse_entry refusals previous e) = at_start e"
  by (simp add: refuse_entry_def Let_def split: option.splits)

lemma at_start_resolve [simp]: "at_start (resolve F env spec) = resolve F env spec"
  by (simp add: at_start_def resolve_sel(2) [symmetric])

lemma configured_entries: "configured F env specs ws \<Longrightarrow> map at_start (st_entries ws) = map (resolve F env) specs"
proof (induction rule: configured.induct)
  case started
  then show ?case by (simp add: from_env_def extended_def comp_def)
next
  case (delivered ws snapshot)
  then show ?case by (simp add: with_snapshot_def comp_def)
next
  case (host_refused ws previous refusals)
  then show ?case by (simp add: refused_def comp_def)
qed

lemma configured_specs: "configured F env specs ws \<Longrightarrow> map en_spec (st_entries ws) = specs"
proof -
  assume c: "configured F env specs ws"
  have "map en_spec (st_entries ws) = map en_spec (map at_start (st_entries ws))" by (simp add: comp_def)
  also have "\<dots> = specs" unfolding configured_entries [OF c] by (simp add: comp_def resolve_sel)
  finally show ?thesis .
qed

text \<open>The entry a key stands for.\<close>

lemma find_entry_ex:
  assumes c: "configured F env specs ws" and "distinct (map sp_key specs)" and "spec \<in> set specs"
  obtains e where "find_entry ws (sp_key spec) = Some e" "en_spec e = spec" "e \<in> set (st_entries ws)"
    "en_from_env e = en_from_env (resolve F env spec)" "en_pin e = en_pin (resolve F env spec)"
proof -
  obtain e where e: "e \<in> set (st_entries ws)" "en_spec e = spec"
    using configured_specs [OF c] assms(3) by force
  have keys: "distinct (map (\<lambda>e. sp_key (en_spec e)) (st_entries ws))"
    using assms(2) unfolding configured_specs [OF c, symmetric] by (simp add: comp_def)
  have "find_entry ws (sp_key spec) = Some e"
    unfolding find_entry_def
    by (rule find_unique) (use e distinct_map_eq [OF keys] in auto)
  moreover have "at_start e \<in> set (map (resolve F env) specs)"
    unfolding configured_entries [OF c, symmetric] using e(1) by simp
  then obtain spec' where "at_start e = resolve F env spec'" by auto
  then have "at_start e = resolve F env spec" using e(2) at_start_sel(1) [of e] by (simp add: resolve_sel(1))
  ultimately show ?thesis using that e by (metis at_start_sel(3,4))
qed

lemma find_map_current:
  "(\<And>e. en_spec (g e) = en_spec e) \<Longrightarrow>
   find (\<lambda>e. sp_key (en_spec e) = key) (map g es) = map_option g (find (\<lambda>e. sp_key (en_spec e) = key) es)"
  by (induction es) auto

lemma raw_with_snapshot:
  "find_entry ws key = Some e \<Longrightarrow> raw (with_snapshot F ws snapshot) key = es_value (snapshot_current F snapshot e)"
  by (simp add: raw_def find_entry_def with_snapshot_def find_map_current)

lemma raw_refused:
  assumes "configured F env specs ws" "configured F env specs previous" "distinct (map sp_key specs)" "spec \<in> set specs"
  shows "raw (refused ws refusals previous) (sp_key spec) =
    (if map_of refusals (sp_key spec) = None then raw ws (sp_key spec) else raw previous (sp_key spec))"
proof -
  obtain e where e: "find_entry ws (sp_key spec) = Some e" "en_spec e = spec" using find_entry_ex [OF assms(1,3,4)] .
  obtain p where p: "find_entry previous (sp_key spec) = Some p" using find_entry_ex [OF assms(2-4)] .
  have "raw (refused ws refusals previous) (sp_key spec) = es_value (en_current (refuse_entry refusals previous e))"
    using e(1) by (simp add: raw_def find_entry_def refused_def find_map_current)
  then show ?thesis using e p
    by (auto simp: refuse_entry_def raw_def find_entry_def Let_def split: option.splits)
qed

text \<open>Which value is in effect once a snapshot has been taken.\<close>

lemma value_after_snapshot:
  assumes "configured F env specs ws" "distinct (map sp_key specs)" "spec \<in> set specs"
  shows "raw (with_snapshot F ws snapshot) (sp_key spec) =
    (case usable F env spec (sp_env_var spec) of
       Some pin \<Rightarrow> Some pin
     | None \<Rightarrow>
         (case map_of (cs_settings snapshot) (sp_key spec) of
            Some server \<Rightarrow>
              if validate F (sp_kind spec) server = Inr () then Some (trim server) else raw ws (sp_key spec)
          | None \<Rightarrow>
              (case usable F env spec (sp_env_var spec @ DEFAULT_SUFFIX) of
                 Some d \<Rightarrow> Some d
               | None \<Rightarrow> as_written (sp_default spec))))"
proof -
  obtain e where e: "find_entry ws (sp_key spec) = Some e" "en_spec e = spec"
    "en_from_env e = en_from_env (resolve F env spec)" "en_pin e = en_pin (resolve F env spec)"
    using find_entry_ex [OF assms] by metis
  have r: "raw ws (sp_key spec) = es_value (en_current e)" using e(1) by (simp add: raw_def)
  show ?thesis
    unfolding raw_with_snapshot [OF e(1)] snapshot_current_def e(2-4) resolve_sel(3) r
    by (auto simp: resolve_sel split: option.splits sum.splits)
qed

section \<open>Every value in effect is usable\<close>

definition value_ok :: "'f floats \<Rightarrow> 'f entry \<Rightarrow> 'f resolution \<Rightarrow> bool" where
  "value_ok F e res \<longleftrightarrow>
     (as_written (sp_default (en_spec e)) \<noteq> None \<longrightarrow> es_value res \<noteq> None) \<and>
     (\<forall>v. es_value res = Some v \<longrightarrow>
        validate F (sp_kind (en_spec e)) v = Inr () \<and> (trimmed v \<or> Some v = as_written (sp_default (en_spec e))))"

lemma value_ok_env:
  assumes "default_valid F (en_spec e)" "en_from_env e = en_from_env (resolve F env (en_spec e))"
  shows "value_ok F e (en_from_env e)"
proof -
  let ?spec = "en_spec e"
  have "validate F (sp_kind ?spec) v = Inr () \<and> (trimmed v \<or> Some v = as_written (sp_default ?spec))"
    if v: "es_value (en_from_env e) = Some v" for v
  proof (cases "usable F env ?spec (sp_env_var ?spec)")
    case (Some pin)
    then show ?thesis using v usable_Some [OF Some] by (simp add: assms(2) resolve_sel(5))
  next
    case pin: None
    show ?thesis
    proof (cases "usable F env ?spec (sp_env_var ?spec @ DEFAULT_SUFFIX)")
      case (Some d)
      then show ?thesis using v pin usable_Some [OF Some] by (simp add: assms(2) resolve_sel(4,5))
    next
      case None
      then show ?thesis using v pin assms(1) by (simp add: assms(2) resolve_sel(4,5) default_valid_def)
    qed
  qed
  moreover have "es_value (en_from_env e) \<noteq> None" if "as_written (sp_default ?spec) \<noteq> None"
    using that by (auto simp: assms(2) resolve_sel(4,5) split: option.splits)
  ultimately show ?thesis by (simp add: value_ok_def)
qed

lemma configured_ok:
  assumes "configured F env specs ws" and table: "check_table F specs" and "e \<in> set (st_entries ws)"
  shows "value_ok F e (en_current e)"
  using assms(1,3)
proof (induction arbitrary: e rule: configured.induct)
  case started
  then obtain spec where spec: "spec \<in> set specs" "e = resolve F env spec"
    by (auto simp: from_env_def extended_def)
  then have "default_valid F (en_spec e)" using table by (auto simp: check_table_def list_all_iff resolve_sel)
  with value_ok_env [of F e env] spec show ?case by (simp add: resolve_sel)
next
  case (delivered ws snapshot)
  then obtain b where b: "b \<in> set (st_entries ws)" "e = b\<lparr>en_current := snapshot_current F snapshot b\<rparr>"
    by (auto simp: with_snapshot_def)
  have "at_start b \<in> set (map (resolve F env) specs)" unfolding configured_entries [OF delivered.hyps, symmetric] using b by simp
  then obtain spec where spec: "spec \<in> set specs" "at_start b = resolve F env spec" by auto
  then have s: "en_spec b = spec" "en_from_env b = en_from_env (resolve F env spec)"
    by (metis at_start_sel(1) resolve_sel(1), metis at_start_sel(3))
  then have env: "value_ok F b (en_from_env b)"
    using value_ok_env [of F b env] table spec by (auto simp: check_table_def list_all_iff)
  have "value_ok F b (snapshot_current F snapshot b)"
    using env delivered.IH [OF b(1)] by (auto simp: value_ok_def snapshot_current_def split: option.splits sum.splits)
  then show ?case using b by (simp add: value_ok_def)
next
  case (host_refused ws previous refusals)
  then obtain b where b: "b \<in> set (st_entries ws)" "e = refuse_entry refusals previous b"
    by (auto simp: refused_def)
  have bok: "value_ok F b (en_current b)" using host_refused.IH(1) b by blast
  have keys: "distinct (map sp_key specs)" using table by (simp add: check_table_def)
  have "en_spec b \<in> set specs" using b(1) configured_specs [OF host_refused.hyps(1)] by force
  then obtain p where p: "find_entry previous (sp_key (en_spec b)) = Some p" "en_spec p = en_spec b" "p \<in> set (st_entries previous)"
    using find_entry_ex [OF host_refused.hyps(2) keys] by metis
  have "value_ok F p (en_current p)" using host_refused.IH(2) p by blast
  then show ?case using bok p b(2)
    by (auto simp: refuse_entry_def find_entry_def value_ok_def Let_def split: option.splits)
qed

section \<open>The tables check out\<close>

lemma parse_size_trim [simp]: "parse_size (trim s) = parse_size s"
  by (simp add: parse_size_def)

lemma parse_duration_trim [simp]: "parse_duration (trim s) = parse_duration s"
  by (simp add: parse_duration_def)

lemma trimmed_show_int: "trimmed (show_int i)"
proof -
  have "\<not> is_whitespace (last (show_nat n))" for n
    using show_nat_digits [of n] digit_not_space last_in_set [OF show_nat_neq_Nil] by (auto simp: list_all_iff)
  moreover have "\<not> is_whitespace (hd (show_nat n))" for n
    using show_nat_digits [of n] digit_not_space hd_in_set [OF show_nat_neq_Nil] by (auto simp: list_all_iff)
  moreover have "\<not> is_whitespace CHR ''-''" by (simp add: is_whitespace_def)
  ultimately show ?thesis by (simp add: show_int_def trimmed_def show_nat_neq_Nil)
qed

lemma parse_show_int: "- i64_MAX - 1 \<le> i \<Longrightarrow> i \<le> i64_MAX \<Longrightarrow> parse_i64 (show_int i) = Some i"
proof -
  assume range: "- i64_MAX - 1 \<le> i" "i \<le> i64_MAX"
  have digit: "is_ascii_digit (hd (show_nat n))" for n
    using show_nat_digits [of n] hd_in_set [OF show_nat_neq_Nil] by (auto simp: list_all_iff)
  obtain c cs where c: "show_nat (nat i) = c # cs" using show_nat_neq_Nil by (cases "show_nat (nat i)") auto
  have "c \<noteq> CHR ''+''" "c \<noteq> CHR ''-''" using digit [of "nat i"] c by (auto simp: is_ascii_digit_def)
  then show ?thesis
    using range c show_nat_neq_Nil [of "nat (- i)"] show_nat_digits [of "nat i"] show_nat_digits [of "nat (- i)"]
      digits_value_show [of "nat i"] digits_value_show [of "nat (- i)"]
    by (simp add: parse_i64_def show_int_def Let_def)
qed

lemma default_valid_size: "n \<le> u64_MAX \<Longrightarrow> default_valid F (spec_of k v Kind_Size c a (Builtin_Size n))"
  by (simp add: default_valid_def spec_of_def validate_def parse_format_size)

lemma default_valid_duration:
  "n \<le> u64_MAX \<Longrightarrow> default_valid F (spec_of k v Kind_Duration c a (Builtin_Duration n))"
  by (simp add: default_valid_def spec_of_def validate_def parse_format_duration)

lemma default_valid_integer:
  "- i64_MAX - 1 \<le> n \<Longrightarrow> n \<le> i64_MAX \<Longrightarrow> (\<forall>lo. mn = Some lo \<longrightarrow> lo \<le> n) \<Longrightarrow>
   default_valid F (spec_of k v (Kind_Integer mn None) c a (Builtin_Integer n))"
  by (auto simp: default_valid_def spec_of_def validate_def trim_trimmed [OF trimmed_show_int] parse_show_int
      check_bounds_Inr Let_def)

lemma default_valid_text: "default_valid F (spec_of k v Kind_Text c a (Builtin_Text t))"
  by (simp add: default_valid_def spec_of_def validate_def)

lemma default_valid_unset: "default_valid F (spec_of k v kind c a Builtin_Unset)"
  by (simp add: default_valid_def spec_of_def)

lemmas default_valid_simps = default_valid_size default_valid_duration default_valid_integer default_valid_text
  default_valid_unset

lemmas table_constants = DEFAULT_CONCURRENCY_def DEFAULT_POLL_INTERVAL_def DEFAULT_BUILD_TIMEOUT_def
  GiB_def DEFAULT_TOTAL_CACHE_SIZE_def DEFAULT_CACHE_TTL_def DEFAULT_CHROOT_REFRESH_INTERVAL_def
  DEFAULT_BUILD_DISK_MAX_def DEFAULT_DISK_MAX_def DEFAULT_BUILDDIR_MAX_BYTES_def DEFAULT_BUILDDIR_MIN_FREE_def
  DEFAULT_CPU_LIMIT_def DEFAULT_MEMORY_LIMIT_def u64_MAX_def i64_MAX_def

lemma protocol_defaults: "list_all (default_valid F) protocol_settings"
  by (simp add: protocol_settings_def default_valid_simps table_constants)

lemma chroot_defaults: "list_all (default_valid F) (chroot_settings F)"
  by (simp add: chroot_settings_def default_valid_simps table_constants)

lemma docker_defaults: "list_all (default_valid F) docker_settings"
  by (simp add: docker_settings_def default_valid_simps table_constants)

definition chroot_table :: "'f floats \<Rightarrow> 'f setting_spec list" where
  "chroot_table F = protocol_settings @ chroot_settings F"

definition docker_table :: "'f setting_spec list" where
  "docker_table = protocol_settings @ docker_settings"

lemma tables_check:
  fixes F :: "'a floats"
  shows "check_table F (chroot_table F)" "check_table F docker_table"
proof -
  have "distinct (map sp_key (chroot_table F))" "distinct (map sp_env_var (chroot_table F))"
    by (simp_all add: chroot_table_def protocol_settings_def chroot_settings_def spec_of_def)
  then show "check_table F (chroot_table F)"
    using protocol_defaults [of F] chroot_defaults [of F] by (simp add: check_table_def chroot_table_def)
  have "distinct (map sp_key (docker_table :: 'a setting_spec list))"
    "distinct (map sp_env_var (docker_table :: 'a setting_spec list))"
    by (simp_all add: docker_table_def protocol_settings_def docker_settings_def spec_of_def)
  then show "check_table F docker_table"
    using protocol_defaults [of F] docker_defaults [of F] by (simp add: check_table_def docker_table_def)
qed

text \<open>In both tables whole numbers have a default and fractional ones have none.\<close>

definition kind_default :: "'f floats \<Rightarrow> 'f setting_spec \<Rightarrow> bool" where
  "kind_default F spec \<longleftrightarrow>
     (case sp_kind spec of
        Kind_Integer _ _ \<Rightarrow> \<exists>i. sp_default spec = Builtin_Integer i
      | Kind_Float mn _ \<Rightarrow> sp_default spec = Builtin_Unset \<and> mn = Some (f_zero F)
      | _ \<Rightarrow> True)"

lemma tables_kind_default: "list_all (kind_default F) (chroot_table F)" "list_all (kind_default F) docker_table"
  by (simp_all add: chroot_table_def docker_table_def protocol_settings_def chroot_settings_def docker_settings_def
      spec_of_def kind_default_def)

section \<open>Properties\<close>

text \<open>A worker with nothing set, and numbers that are whole.\<close>

definition whole_floats :: "int floats" where
  "whole_floats = \<lparr>parse_f64 = parse_i64, is_finite = (\<lambda>_. True), f_less = (<), f_zero = 0\<rparr>"

definition sample_settings :: "int worker_settings" where
  "sample_settings = from_env whole_floats (\<lambda>_. None) docker_table"

definition sample_concurrency :: "int setting_spec" where
  "sample_concurrency = hd protocol_settings"

lemma sample_concurrency_mem: "sample_concurrency \<in> set docker_table" "sp_key sample_concurrency = ''concurrency''"
  "sp_kind sample_concurrency = Kind_Integer (Some 1) None" "sp_default sample_concurrency = Builtin_Integer 1"
  by (simp_all add: sample_concurrency_def docker_table_def protocol_settings_def spec_of_def DEFAULT_CONCURRENCY_def)

lemma sample_configured: "configured whole_floats (\<lambda>_. None) docker_table sample_settings"
  unfolding sample_settings_def by (rule configured.started)




text \<open>C33: Whatever snapshots a worker took and whatever its host refused, the readers of its code never
  fail: every size, duration and fraction in effect reads as one, every whole-number setting has
  a value, and the bounds of the declaration hold of what is read.\<close>

theorem readers_succeed:
  assumes ws: "configured F env table ws" and table: "table \<in> {chroot_table F, docker_table}" and spec: "spec \<in> set table"
  shows "case sp_kind spec of
      Kind_Size \<Rightarrow> raw ws (sp_key spec) = None \<longleftrightarrow> size_of ws (sp_key spec) = None
    | Kind_Duration \<Rightarrow> raw ws (sp_key spec) = None \<longleftrightarrow> duration_of ws (sp_key spec) = None
    | Kind_Integer mn mx \<Rightarrow>
        \<exists>i. integer_of ws (sp_key spec) = Some i \<and> (\<forall>lo. mn = Some lo \<longrightarrow> lo \<le> i) \<and> (\<forall>hi. mx = Some hi \<longrightarrow> i \<le> hi)
    | Kind_Float mn mx \<Rightarrow>
        raw ws (sp_key spec) = None \<or>
        (\<exists>x. float_of F ws (sp_key spec) = Some x \<and> is_finite F x \<and> \<not> f_less F x (f_zero F))
    | _ \<Rightarrow> True"
proof -
  have check: "check_table F table" using table tables_check by auto
  have kinds: "kind_default F spec" using table spec tables_kind_default [of F] by (auto simp: list_all_iff)
  obtain e where e: "find_entry ws (sp_key spec) = Some e" "en_spec e = spec" "e \<in> set (st_entries ws)"
    using find_entry_ex [OF ws _ spec] check by (metis check_table_def)
  have ok: "value_ok F e (en_current e)" by (rule configured_ok [OF ws check e(3)])
  have r: "raw ws (sp_key spec) = es_value (en_current e)" using e(1) by (simp add: raw_def)
  have v: "validate F (sp_kind spec) v = Inr () \<and> (trimmed v \<or> Some v = as_written (sp_default spec))"
    if "raw ws (sp_key spec) = Some v" for v
    using ok that by (simp add: value_ok_def r e(2))
  show ?thesis
  proof (cases "sp_kind spec")
    case (Kind_Integer mn mx)
    then obtain i where i: "as_written (sp_default spec) = Some (show_int i)" using kinds by (auto simp: kind_default_def)
    then obtain w where w: "raw ws (sp_key spec) = Some w" using ok by (auto simp: value_ok_def r e(2))
    then have "trim w = w" using v [OF w] i trimmed_show_int trim_trimmed by fastforce
    with v [OF w] w Kind_Integer show ?thesis
      by (auto simp: validate_def integer_of_def check_bounds_Inr split: option.splits)
  next
    case (Kind_Float mn mx)
    then have "mn = Some (f_zero F)" "as_written (sp_default spec) = None" using kinds by (simp_all add: kind_default_def)
    moreover from this have "trim w = w" if "raw ws (sp_key spec) = Some w" for w
      using v [OF that] trim_trimmed by auto
    ultimately show ?thesis using v Kind_Float
      by (cases "raw ws (sp_key spec)") (auto simp: validate_def float_of_def check_bounds_Inr split: option.splits if_splits)
  next
    case Kind_Size
    then show ?thesis using v
      by (cases "raw ws (sp_key spec)") (auto simp: validate_def size_of_def split: option.splits)
  next
    case Kind_Duration
    then show ?thesis using v
      by (cases "raw ws (sp_key spec)") (auto simp: validate_def duration_of_def split: option.splits)
  qed simp_all
qed

theorem readers_succeed_witness:
  "\<exists>i. integer_of sample_settings ''concurrency'' = Some i \<and> 1 \<le> i"
  using readers_succeed [OF sample_configured _ sample_concurrency_mem(1)] by (auto simp: sample_concurrency_mem)

end
