(* ===== verification/Enrollment.thy ===== *)
theory Enrollment
  imports Completion Worker_Store Setting_Resolution
begin

text \<open>
  How workers join and stay in touch: registration and the policy that approves a worker
  without an operator (\<^verbatim>\<open>aurcache-utils/src/worker_enroll.rs\<close>), the settings delivered to it
  and reported by it (\<^verbatim>\<open>aurcache-utils/src/worker_settings.rs\<close>), its heartbeat
  (\<^verbatim>\<open>aurcache-utils/src/worker_heartbeat.rs\<close>), the operator's list of workers
  (\<^verbatim>\<open>aurcache-utils/src/worker_fleet.rs\<close>) and the protocol's messages
  (\<^verbatim>\<open>aurcache-common/src/worker.rs\<close>).

  Parameters of the model: the certificate authority, whose X.509 operations are library
  code; \<^verbatim>\<open>serde_json\<close> and the SHA-256 digest; and the files of the enrollment volume.
\<close>

section \<open>Protocols\<close>

record protocol_range =
  pr_min :: nat
  pr_max :: nat

definition PROTOCOLS :: protocol_range where
  "PROTOCOLS = \<lparr>pr_min = 1, pr_max = 1\<rparr>"

definition negotiate :: "protocol_range \<Rightarrow> protocol_range \<Rightarrow> nat option" where
  "negotiate mine other =
     (let newest = min (pr_max mine) (pr_max other)
      in if newest \<ge> max (pr_min mine) (pr_min other) then Some newest else None)"

section \<open>The messages and the parameters\<close>

record 'f register_request =
  rr_protocols :: protocol_range
  rr_name :: string
  rr_arches :: "string list"
  rr_version :: string
  rr_kind :: string
  rr_csr_pem :: string
  rr_enrollment_token :: "string option"
  rr_embedded_secret :: "string option"
  rr_affinity :: "string list"
  rr_priority :: int
  rr_concurrency :: nat
  rr_settings :: "'f setting_decl list"

record 'f heartbeat_msg =
  hb_active_build_ids :: "id list"
  hb_version :: string
  hb_effective :: "'f effective_config option"
  hb_received_revision :: "string option"

record heartbeat_response =
  hr_cancel :: "id list"
  hr_config :: "config_snapshot option"

record ca =
  ca_fingerprint_from_csr_pem :: "string \<Rightarrow> string + string"
  ca_issued :: "string \<Rightarrow> bool"
  ca_sign_worker_csr :: "string \<Rightarrow> int \<Rightarrow> string + (string \<times> timestamp)"

record 'f json =
  declaration_to_json :: "'f setting_decl list \<Rightarrow> string option"
  declaration_from_json :: "string \<Rightarrow> 'f setting_decl list option"
  effective_to_json :: "'f effective_config \<Rightarrow> string option"
  effective_from_json :: "string \<Rightarrow> 'f effective_config option"
  values_to_json :: "(string \<times> string) list \<Rightarrow> string option"
  sha256_hex :: "string \<Rightarrow> string"

section \<open>The enrollment policy\<close>

record enrollment_policy =
  ep_dir :: "string option"
  ep_preapproved :: "string list"
  ep_token :: "string option"
  ep_embedded_secret :: "string option"

definition secret_matches :: "string option \<Rightarrow> string option \<Rightarrow> bool" where
  "secret_matches provided expected \<longleftrightarrow>
     (case (provided, expected) of (Some p, Some e) \<Rightarrow> e \<noteq> [] \<and> p = e | _ \<Rightarrow> False)"

definition parse_preapproved :: "string \<Rightarrow> string list" where
  "parse_preapproved s =
     filter (\<lambda>fp. fp \<noteq> []) (map (\<lambda>fp. to_ascii_lowercase (trim fp)) (split_on CHR '','' s))"

definition policy_from_env :: "environment \<Rightarrow> enrollment_policy" where
  "policy_from_env env =
     \<lparr>ep_dir = env ''AURCACHE_ENROLLMENT_DIR'',
      ep_preapproved =
        (case env ''AURCACHE_PREAPPROVED_WORKERS'' of None \<Rightarrow> [] | Some s \<Rightarrow> parse_preapproved s),
      ep_token = env ''AURCACHE_ENROLLMENT_TOKEN'',
      ep_embedded_secret = env ''AURCACHE_EMBEDDED_WORKER_SECRET''\<rparr>"

text \<open>\<^verbatim>\<open>Path::join\<close> with a relative name.\<close>

definition path_join :: "string \<Rightarrow> string \<Rightarrow> string" where
  "path_join dir name = (if dir = [] \<or> last dir = CHR ''/'' then dir @ name else dir @ ''/'' @ name)"

definition approves ::
    "(string \<Rightarrow> bool) \<Rightarrow> enrollment_policy \<Rightarrow> approval_status \<Rightarrow> string \<Rightarrow> string option \<Rightarrow> bool" where
  "approves is_file policy status fingerprint token \<longleftrightarrow>
     (if status \<noteq> Pending then False
      else
        let has_csr = (case ep_dir policy of
                         None \<Rightarrow> False
                       | Some dir \<Rightarrow> is_file (path_join dir (fingerprint @ ''.csr'')))
        in has_csr \<or> list_ex (\<lambda>f. f = fingerprint) (ep_preapproved policy) \<or> secret_matches token (ep_token policy))"

definition is_embedded :: "enrollment_policy \<Rightarrow> string option \<Rightarrow> bool" where
  "is_embedded policy secret \<longleftrightarrow> secret_matches secret (ep_embedded_secret policy)"

section \<open>Registering\<close>

datatype registered =
    Agreed string nat
  | InvalidCsr string
  | NoCommonProtocol string protocol_range

datatype enroll_error = Enroll_Db db_err | Enroll_Ca string | Vanished

definition adopt_limits :: "'f floats \<Rightarrow> string \<Rightarrow> id \<Rightarrow> 'f setting_decl list \<Rightarrow> (enroll_error, unit) prog" where
  "adopt_limits F name i decls =
     dbind (attempt (adopt_0_5_limits F i decls)) (\<lambda>res.
     case res of
       Inl _ \<Rightarrow> ret ()
     | Inr adopted \<Rightarrow>
         if \<not> saved_is_empty (al_saved adopted)
         then emit (WorkerSettingsSaved name (saved_set (al_saved adopted)) (saved_reset (al_saved adopted)))
         else ret ())"

definition stored_concurrency :: "nat \<Rightarrow> int" where
  "stored_concurrency n = (let c = int (max n 1) in if c \<le> i32_MAX then c else i32_MAX)"

definition registration_of :: "'f register_request \<Rightarrow> string \<Rightarrow> string \<Rightarrow> worker_registration" where
  "registration_of input fingerprint decl_json =
     \<lparr>reg_name = rr_name input, reg_fingerprint = fingerprint, reg_arches = rr_arches input,
      reg_version = rr_version input, reg_kind = rr_kind input, reg_package_affinity = rr_affinity input,
      reg_priority = rr_priority input, reg_concurrency = stored_concurrency (rr_concurrency input),
      reg_settings_declaration = decl_json\<rparr>"

definition issue_certificate :: "ca \<Rightarrow> int \<Rightarrow> 'f register_request \<Rightarrow> worker \<Rightarrow> (enroll_error, unit) prog" where
  "issue_certificate C validity_days input worker =
     (if (case w_signed_cert worker of None \<Rightarrow> True | Some cert \<Rightarrow> \<not> ca_issued C cert)
      then (case ca_sign_worker_csr C (rr_csr_pem input) validity_days of
              Inl e \<Rightarrow> raise (Enroll_Ca e)
            | Inr (cert, not_after) \<Rightarrow>
                dbind (map_err Enroll_Db (store_signed_cert (w_id worker) cert not_after)) (\<lambda>row.
                if row = None then raise Vanished else ret ()))
      else ret ())"

definition auto_approve ::
    "(string \<Rightarrow> bool) \<Rightarrow> enrollment_policy \<Rightarrow> 'f register_request \<Rightarrow> string \<Rightarrow> worker \<Rightarrow> (enroll_error, unit) prog" where
  "auto_approve is_file policy input fingerprint worker =
     (if approves is_file policy (w_status worker) fingerprint (rr_enrollment_token input)
      then dbind (map_err Enroll_Db (approve_worker (w_id worker))) (\<lambda>row.
           if row = None then raise Vanished else emit (WorkerApproved (w_name worker)))
      else ret ())"

definition register_agreed ::
    "'f floats \<Rightarrow> 'f json \<Rightarrow> ca \<Rightarrow> (string \<Rightarrow> bool) \<Rightarrow> enrollment_policy \<Rightarrow> int \<Rightarrow> 'f register_request \<Rightarrow>
     string \<Rightarrow> (enroll_error, unit) prog" where
  "register_agreed F J C is_file policy validity_days input fingerprint =
     (let embedded = is_embedded policy (rr_embedded_secret input) in
      dthen (if embedded then dthen (map_err Enroll_Db (rekey_embedded fingerprint)) (ret ()) else ret ())
      (dbind (map_err Enroll_Db (find_worker_by_fingerprint fingerprint)) (\<lambda>known.
       dbind (case declaration_to_json J (rr_settings input) of
                Some decl_json \<Rightarrow> ret decl_json
              | None \<Rightarrow> dthen (emit (WorkerReportFailed (rr_name input) Report_Declaration)) (ret ''[]'')) (\<lambda>decl_json.
       dbind (map_err Enroll_Db (register_worker (registration_of input fingerprint decl_json))) (\<lambda>worker.
       dthen (if embedded \<and> \<not> w_embedded worker then map_err Enroll_Db (mark_embedded (w_id worker)) else ret ())
      (dthen (if embedded then adopt_limits F (w_name worker) (w_id worker) (rr_settings input) else ret ())
      (dthen (emit (if known \<noteq> None
                    then WorkerRegistered (w_name worker) (if rr_version input = [] then None else Some (rr_version input))
                    else WorkerEnrolled (w_name worker)))
      (dthen (issue_certificate C validity_days input worker)
       (auto_approve is_file policy input fingerprint worker)))))))))"

definition register ::
    "'f floats \<Rightarrow> 'f json \<Rightarrow> ca \<Rightarrow> (string \<Rightarrow> bool) \<Rightarrow> enrollment_policy \<Rightarrow> int \<Rightarrow> 'f register_request \<Rightarrow>
     (enroll_error, registered) prog" where
  "register F J C is_file policy validity_days input =
     (case ca_fingerprint_from_csr_pem C (rr_csr_pem input) of
        Inl e \<Rightarrow> ret (InvalidCsr e)
      | Inr fingerprint \<Rightarrow>
          (case negotiate PROTOCOLS (rr_protocols input) of
             None \<Rightarrow> ret (NoCommonProtocol (rr_name input) (rr_protocols input))
           | Some protocol \<Rightarrow>
               dthen (register_agreed F J C is_file policy validity_days input fingerprint)
                 (ret (Agreed fingerprint protocol))))"

section \<open>Settings of a worker\<close>

definition config_revision :: "'f json \<Rightarrow> (string \<times> string) list \<Rightarrow> string" where
  "config_revision J values = sha256_hex J (case values_to_json J values of None \<Rightarrow> [] | Some j \<Rightarrow> j)"

definition snapshot_for :: "'f json \<Rightarrow> worker \<Rightarrow> string option \<Rightarrow> ('e, config_snapshot option) prog" where
  "snapshot_for J worker received =
     dbind (attempt (worker_setting_values (w_id worker))) (\<lambda>res.
     case res of
       Inl _ \<Rightarrow> ret None
     | Inr values \<Rightarrow>
         ret (if received \<noteq> Some (config_revision J values)
              then Some \<lparr>cs_revision = config_revision J values, cs_settings = values\<rparr> else None))"

definition record_effective :: "'f json \<Rightarrow> worker \<Rightarrow> 'f effective_config \<Rightarrow> ('e, unit) prog" where
  "record_effective J worker eff =
     (let failed = emit (WorkerReportFailed (w_name worker) Report_Configuration);
          changed =
            (case Option.bind (w_effective_config worker) (effective_from_json J) of
               None \<Rightarrow> [] | Some before \<Rightarrow> changed_since eff before);
          refused = map fst (filter (\<lambda>(_, setting). es_status setting = Rejected) (ec_settings eff))
      in dthen (case effective_to_json J eff of
                  Some j \<Rightarrow>
                    dbind (attempt (store_effective_config (w_id worker) j)) (\<lambda>res.
                    case res of Inl _ \<Rightarrow> failed | Inr _ \<Rightarrow> ret ())
                | None \<Rightarrow> failed)
         (dthen (if changed \<noteq> [] then emit (WorkerConfigChanged (w_name worker) changed) else ret ())
         (if refused \<noteq> [] then emit (WorkerSettingRejected (w_name worker) refused) else ret ())))"

definition declared_by :: "'f json \<Rightarrow> worker \<Rightarrow> 'f setting_decl list" where
  "declared_by J worker =
     (case declaration_from_json J (w_settings_declaration worker) of None \<Rightarrow> [] | Some ds \<Rightarrow> ds)"

datatype 'f save = Saved saved_settings | Refused "(string \<times> 'f refusal) list"

definition save_settings ::
    "'f floats \<Rightarrow> 'f json \<Rightarrow> worker \<Rightarrow> (string \<times> string option) list \<Rightarrow> 'f save dbm" where
  "save_settings F J worker changes =
     (case checked_changes F (declared_by J worker) changes of
        Inl why \<Rightarrow> ret (Refused why)
      | Inr good \<Rightarrow> dbind (save_worker_settings (w_id worker) good) (\<lambda>saved. ret (Saved saved)))"

definition rejected_count :: "'f json \<Rightarrow> worker \<Rightarrow> int option" where
  "rejected_count J worker =
     Option.bind (Option.bind (w_effective_config worker) (effective_from_json J)) (\<lambda>report.
       let n = int (length (filter (\<lambda>(_, setting). es_status setting = Rejected) (ec_settings report)))
       in if n \<le> i32_MAX then Some n else None)"

record 'f config_view =
  cv_worker_id :: id
  cv_revision :: string
  cv_settings :: "'f setting_decl list"
  cv_effective :: "'f effective_config option"
  cv_values :: "(string \<times> string) list"

definition settings_view :: "'f json \<Rightarrow> worker \<Rightarrow> 'f config_view dbm" where
  "settings_view J worker =
     dbind (worker_setting_values (w_id worker)) (\<lambda>values.
     ret \<lparr>cv_worker_id = w_id worker, cv_revision = config_revision J values,
          cv_settings = declared_by J worker,
          cv_effective = Option.bind (w_effective_config worker) (effective_from_json J),
          cv_values = values\<rparr>)"

section \<open>Heartbeats\<close>

definition worker_heartbeat ::
    "'f json \<Rightarrow> int \<Rightarrow> int \<Rightarrow> worker \<Rightarrow> 'f heartbeat_msg \<Rightarrow> heartbeat_response dbm" where
  "worker_heartbeat J lease_ttl_secs max_attempts worker hb =
     dbind (touch_last_seen worker (Some (hb_version hb))) (\<lambda>worker.
     dthen (case hb_effective hb of None \<Rightarrow> ret () | Some eff \<Rightarrow> record_effective J worker eff)
     (dbind (heartbeat (w_id worker) (hb_active_build_ids hb) lease_ttl_secs max_attempts) (\<lambda>outcome.
      dthen (if ho_dropped outcome \<noteq> []
             then dthen (emit (WorkerReaped [w_name worker] (nb_retried (named (ho_dropped outcome)))
                                (nb_failed (named (ho_dropped outcome)))))
                    (report_abandoned (ho_dropped outcome))
             else ret ())
      (dbind (snapshot_for J worker (hb_received_revision hb)) (\<lambda>config.
       ret \<lparr>hr_cancel = ho_cancel_requested outcome, hr_config = config\<rparr>)))))"

section \<open>The fleet as an operator sees it\<close>

record worker_summary =
  sm_settings_rejected :: "int option"
  sm_id :: id
  sm_name :: string
  sm_status :: approval_status
  sm_cert_fingerprint :: string
  sm_arches :: "string list"
  sm_package_affinity :: "string list"
  sm_priority :: int
  sm_last_seen :: "timestamp option"
  sm_version :: "string option"
  sm_kind :: "string option"
  sm_online :: bool
  sm_active_builds :: int
  sm_successful_builds :: int
  sm_failed_builds :: int
  sm_paused :: bool

definition summarise :: "'f json \<Rightarrow> worker \<Rightarrow> build_tally \<Rightarrow> timestamp \<Rightarrow> int \<Rightarrow> worker_summary" where
  "summarise J w tally now timeout =
     \<lparr>sm_settings_rejected = rejected_count J w, sm_id = w_id w, sm_name = w_name w, sm_status = w_status w,
      sm_cert_fingerprint = w_cert_fingerprint w, sm_arches = w_arches w,
      sm_package_affinity = w_package_affinity w, sm_priority = w_priority w, sm_last_seen = w_last_seen w,
      sm_version = w_version w, sm_kind = w_kind w, sm_online = is_live (w_last_seen w) now timeout,
      sm_active_builds = tally_active tally, sm_successful_builds = tally_successful tally,
      sm_failed_builds = tally_failed tally, sm_paused = w_paused w\<rparr>"

definition list_fleet :: "'f json \<Rightarrow> int \<Rightarrow> worker_summary list dbm" where
  "list_fleet J timeout =
     dbind list_workers (\<lambda>ws.
     dbind build_tallies (\<lambda>tallies.
     dbind now_secs (\<lambda>now.
     ret (map (\<lambda>w. summarise J w (case tallies (w_id w) of None \<Rightarrow> no_builds | Some t \<Rightarrow> t) now timeout) ws))))"

section \<open>Registration keeps the registry in order\<close>

lemma admin_find_key: "preserves I (find_worker_by_fingerprint fp)"
  unfolding find_worker_by_fingerprint_def by (rule pres)

lemma admin_adopt_limits: "preserves (admin_inv X) (adopt_limits F name i decls)"
  unfolding adopt_limits_def by (auto intro!: pres admin_adopt split: sum.split)

lemma admin_issue: "preserves (admin_inv X) (issue_certificate C days input w)"
  unfolding issue_certificate_def store_signed_cert_def
  by (auto intro!: pres admin_update split: sum.split option.split)

lemma admin_auto_approve: "preserves (admin_inv X) (auto_approve is_file policy input fp w)"
  unfolding auto_approve_def approve_worker_def by (auto intro!: pres admin_update)

lemma admin_register_agreed: "preserves (admin_inv X) (register_agreed F J C is_file policy days input fp)"
  unfolding register_agreed_def Let_def
  by (auto intro!: pres admin_rekey admin_find_key admin_register admin_mark admin_adopt_limits admin_issue
      admin_auto_approve split: option.split)

interpretation enrollment: registry_program "register F J C is_file policy days" for F J C is_file policy days
  by unfold_locales (auto simp: register_def intro!: pres admin_register_agreed split: sum.split option.split)

section \<open>Workers that were revoked\<close>

text \<open>
  The rows whose ids are in \<open>R\<close> are revoked. A new worker's id is fresh, so it is none of
  them.
\<close>

definition revoked_inv :: "id set \<Rightarrow> tables \<Rightarrow> bool" where
  "revoked_inv R d \<longleftrightarrow>
     (\<forall>w \<in> set (workers d). w_id w \<in> R \<longrightarrow> w_status w = Revoked) \<and> (\<forall>i \<in> R. i < next_worker_id d)"

text \<open>A value read on the way decides what the rest may do.\<close>

lemma preserves_dbind_result:
  assumes "preserves I m" and "\<And>s x t. I (db s) \<Longrightarrow> m s = (Inr x, t) \<Longrightarrow> Q x" and "\<And>x. Q x \<Longrightarrow> preserves I (f x)"
  shows "preserves I (dbind m f)"
  unfolding preserves_def
proof (intro allI impI)
  fix s r t
  assume inv: "I (db s)" and run: "dbind m f s = (r, t)"
  from run show "I (db t)"
  proof (cases rule: dbind_cases)
    case (1 e)
    then show ?thesis using preservesD [OF assms(1) inv] by blast
  next
    case (2 x u)
    then show ?thesis
      using preservesD [OF assms(1) inv 2(1)] preservesD [OF assms(3) [OF assms(2) [OF inv 2(1)]]] by blast
  qed
qed

lemma revoked_set_workers:
  assumes "\<And>w. p w \<Longrightarrow> w_id (f w) = w_id w" and "\<And>w. p w \<Longrightarrow> w_status w = Revoked \<Longrightarrow> w_id w \<in> R \<Longrightarrow> w_status (f w) = Revoked"
  shows "preserves (revoked_inv R) (modify (set_workers p f))"
  by (rule preserves_modify) (use assms in \<open>auto simp: revoked_inv_def\<close>)

lemma revoked_upsert: "revoked_inv R d \<Longrightarrow> revoked_inv R (upsert_worker reg now d)"
  by (auto simp: revoked_inv_def upsert_worker_def refresh_worker_def new_worker_def)

lemma revoked_register_worker: "preserves (revoked_inv R) (register_worker reg)"
  unfolding register_worker_def find_worker_by_fingerprint_def
  by (intro pres preserves_modify revoked_upsert) (auto intro: pres split: option.split)

lemma register_worker_status:
  assumes "revoked_inv R (db s)" and "register_worker reg s = (Inr w, t)" and "w_id w \<in> R"
  shows "w_status w = Revoked"
proof -
  have "worker_with_key (reg_fingerprint reg) (db t) = Some w"
    using assms(2) by (auto simp: register_worker_def find_worker_by_fingerprint_def db_simps split: option.splits)
  then have "w \<in> set (workers (db t))" by (auto dest: worker_with_key_Some)
  then show ?thesis using preservesD [OF revoked_register_worker assms(1,2)] assms(3) by (simp add: revoked_inv_def)
qed

lemma revoked_rekey: "preserves (revoked_inv R) (rekey_embedded fp)"
  unfolding rekey_embedded_def find_worker_by_fingerprint_def
  by (auto intro!: pres revoked_set_workers split: option.split)

lemma revoked_mark: "preserves (revoked_inv R) (mark_embedded i)"
  unfolding mark_embedded_def by (auto intro!: revoked_set_workers)

lemma revoked_update:
  "(\<And>w. w_id (f w) = w_id w) \<Longrightarrow> (\<And>w. w_status w = Revoked \<Longrightarrow> w_id w \<in> R \<Longrightarrow> w_id w = i \<Longrightarrow> w_status (f w) = Revoked) \<Longrightarrow>
   preserves (revoked_inv R) (update_worker i f)"
  unfolding update_worker_def find_worker_def by (auto intro!: pres revoked_set_workers split: option.split)

lemma revoked_inv_settings [simp]:
  "revoked_inv R (put_setting w k v d) = revoked_inv R d" "revoked_inv R (remove_setting w k d) = revoked_inv R d"
  by (simp_all add: revoked_inv_def remove_setting_def)

lemma revoked_save: "preserves (revoked_inv R) (save_worker_settings w changes)"
proof -
  have "preserves (revoked_inv R) (save_one w before saved c)" for before saved c
    unfolding save_one_def upsert_worker_setting_def
    by (auto intro!: pres preserves_statement preserves_modify split: prod.split option.split)
  then have "preserves (revoked_inv R) (save_all w before saved cs)" for before saved cs
    by (induction cs arbitrary: saved) (auto intro!: pres)
  then have "preserves (revoked_inv R) (dbind (worker_setting_values w) (\<lambda>before.
        dbind (save_all w before \<lparr>saved_set = [], saved_reset = []\<rparr> changes) (\<lambda>saved. ret (Commit saved))))"
    unfolding worker_setting_values_def by (auto intro!: pres)
  then show ?thesis unfolding save_worker_settings_def
    by (intro preserves_transaction) (auto dest: preservesD)
qed

lemma revoked_adopt: "preserves (revoked_inv R) (adopt_0_5_limits F w decls)"
  unfolding adopt_0_5_limits_def
  by (intro pres) (auto intro!: pres revoked_save preserves_modify simp: revoked_inv_def split: prod.split)

lemma revoked_adopt_limits: "preserves (revoked_inv R) (adopt_limits F name i decls)"
  unfolding adopt_limits_def by (auto intro!: pres revoked_adopt split: sum.split)

lemma revoked_issue: "preserves (revoked_inv R) (issue_certificate C days input w)"
  unfolding issue_certificate_def store_signed_cert_def
  by (auto intro!: pres revoked_update split: sum.split option.split)

lemma revoked_auto_approve:
  "w_id w \<in> R \<longrightarrow> w_status w = Revoked \<Longrightarrow> preserves (revoked_inv R) (auto_approve is_file policy input fp w)"
  unfolding auto_approve_def approve_worker_def approves_def
  by (auto intro!: pres revoked_update split: if_splits)

lemma revoked_register: "preserves (revoked_inv R) (register F J C is_file policy days input)"
proof -
  have "preserves (revoked_inv R) (register_agreed F J C is_file policy days input fp)" for fp
    unfolding register_agreed_def Let_def dthen_def
    by (intro preserves_dbind_result [where Q = "\<lambda>w. w_id w \<in> R \<longrightarrow> w_status w = Revoked" and m = "map_err Enroll_Db (register_worker _)"]
        preserves_dbind preserves_map_err revoked_register_worker)
      (auto intro!: pres revoked_rekey admin_find_key revoked_mark revoked_adopt_limits revoked_issue
        revoked_auto_approve simp: db_simps dest: register_worker_status split: option.split)
  then show ?thesis unfolding register_def by (auto intro!: pres split: sum.split option.split)
qed

section \<open>Heartbeats keep everything in order\<close>

lemma serves_worker_heartbeat: "serves (worker_heartbeat J ttl m w hb)"
proof -
  have beat: "serves (heartbeat i ids ttl m)" for i ids
    using beats.serves_prog [of "(i, ids, ttl, m)"] by simp
  have report: "serves (report_abandoned lost)" for lost
    by (rule serves_admin) (rule preserves_report_abandoned)
  have eff: "serves (record_effective J v e)" for v e
    unfolding record_effective_def Let_def
    by (auto intro!: serves_dthen serves_dbind serves_attempt serves_basic serves_admin [OF admin_effective]
        split: option.split sum.split)
  show ?thesis
    unfolding worker_heartbeat_def snapshot_for_def worker_setting_values_def
    by (auto intro!: serves_dthen serves_dbind serves_attempt serves_basic beat report eff
        serves_admin [OF admin_touch] split: option.split sum.split)
qed

lemma serves_save_settings: "serves (save_settings F J w changes)"
  unfolding save_settings_def
  by (auto intro!: serves_dbind [OF serves_admin [OF admin_save]] serves_basic split: sum.split)

lemma revoked_registry: "registry d' = registry d \<Longrightarrow> revoked_inv R d' = revoked_inv R d"
  by (simp add: revoked_inv_def registry_def)

lemma revoked_build: "refines m \<Longrightarrow> preserves (revoked_inv R) m"
  unfolding preserves_def using refines_registry revoked_registry by metis

lemma revoked_touch: "preserves (revoked_inv R) (touch_last_seen w ver)"
  unfolding touch_last_seen_def Let_def by (auto intro!: pres revoked_set_workers split: option.split)

lemma revoked_set_paused: "preserves (revoked_inv R) (set_paused i paused)"
  unfolding set_paused_def by (rule revoked_update) simp_all

lemma revoked_save_settings: "preserves (revoked_inv R) (save_settings F J w changes)"
  unfolding save_settings_def by (auto intro!: pres revoked_save split: sum.split)

lemma revoked_revoke: "preserves (revoked_inv R) (revoke_worker i m)"
  unfolding revoke_worker_def using revoked_build [OF revocation.steps [of "(i, m)"]]
  by (auto intro!: pres revoked_update split: option.split)

lemma revoked_heartbeat: "preserves (revoked_inv R) (worker_heartbeat J ttl m w hb)"
proof -
  have "preserves (revoked_inv R) (store_effective_config i j)" for i j
    unfolding store_effective_config_def by (auto intro!: revoked_set_workers)
  then have eff: "preserves (revoked_inv R) (record_effective J v e)" for v e
    unfolding record_effective_def Let_def by (auto intro!: pres split: option.split sum.split)
  have beat: "preserves (revoked_inv R) (heartbeat i ids ttl m)" for i ids
    using revoked_build [OF beats.steps [of "(i, ids, ttl, m)"]] by simp
  show ?thesis
    unfolding worker_heartbeat_def snapshot_for_def worker_setting_values_def
    by (auto intro!: pres eff beat revoked_touch split: option.split sum.split)
qed

section \<open>Who is approved without an operator\<close>

text \<open>What holds after a program when it held before, whether it returns or fails.\<close>

definition triple :: "(tables \<Rightarrow> bool) \<Rightarrow> ('e, 'a) prog \<Rightarrow> ('a \<Rightarrow> tables \<Rightarrow> bool) \<Rightarrow> (tables \<Rightarrow> bool) \<Rightarrow> bool" where
  "triple P m Q E \<longleftrightarrow>
     (\<forall>s r t. P (db s) \<longrightarrow> m s = (r, t) \<longrightarrow> (case r of Inr x \<Rightarrow> Q x (db t) | Inl _ \<Rightarrow> E (db t)))"

lemma triple_dbind:
  assumes "triple P m Q E" and "\<And>x. triple (Q x) (f x) R E"
  shows "triple P (dbind m f) R E"
  unfolding triple_def
proof (intro allI impI)
  fix s r t
  assume P: "P (db s)" and run: "dbind m f s = (r, t)"
  from run show "case r of Inr x \<Rightarrow> R x (db t) | Inl _ \<Rightarrow> E (db t)"
  proof (cases rule: dbind_cases)
    case (1 e)
    then show ?thesis using assms(1) P unfolding triple_def by fastforce
  next
    case (2 x u)
    then have "Q x (db u)" using assms(1) P unfolding triple_def by fastforce
    then show ?thesis using assms(2) 2(2) unfolding triple_def by blast
  qed
qed

lemma triple_dthen: "triple P m (\<lambda>_. Q) E \<Longrightarrow> triple Q k R E \<Longrightarrow> triple P (dthen m k) R E"
  unfolding dthen_def by (rule triple_dbind)

lemma triple_keep: "preserves I m \<Longrightarrow> (\<And>d. I d \<Longrightarrow> E d) \<Longrightarrow> triple I m (\<lambda>_. I) E"
  unfolding triple_def by (auto dest: preservesD split: sum.split)

lemma triple_map_err: "triple P m Q E \<Longrightarrow> triple P (map_err f m) Q E"
  unfolding triple_def map_err_def by (fastforce split: prod.splits sum.splits)

lemma tripleD: "triple P m Q E \<Longrightarrow> P (db s) \<Longrightarrow> m s = (r, t) \<Longrightarrow> (\<And>x d. Q x d \<Longrightarrow> K d) \<Longrightarrow> (\<And>d. E d \<Longrightarrow> K d) \<Longrightarrow> K (db t)"
  unfolding triple_def by (cases r) force+

text \<open>A worker's identity, key and standing, which most programs leave alone.\<close>

definition standing :: "tables \<Rightarrow> (id \<times> string \<times> approval_status) list" where
  "standing d = map (\<lambda>w. (w_id w, w_cert_fingerprint w, w_status w)) (workers d)"

lemma standing_set_workers:
  assumes "\<And>w. p w \<Longrightarrow> w_id (f w) = w_id w \<and> w_cert_fingerprint (f w) = w_cert_fingerprint w \<and> w_status (f w) = w_status w"
  shows "preserves (\<lambda>d. K (standing d)) (modify (set_workers p f))"
proof (rule preserves_modify)
  fix d
  have "standing (set_workers p f d) = standing d" using assms by (auto simp: standing_def)
  then show "K (standing d) \<Longrightarrow> K (standing (set_workers p f d))" by simp
qed

lemma standing_other [simp]:
  "standing (put_setting w k v d) = standing d" "standing (remove_setting w k d) = standing d"
  "standing (d\<lparr>settings := ss\<rparr>) = standing d"
  by (simp_all add: standing_def remove_setting_def)

lemma standing_mark: "preserves (\<lambda>d. K (standing d)) (mark_embedded i)"
  unfolding mark_embedded_def by (rule standing_set_workers) simp

lemma standing_issue: "preserves (\<lambda>d. K (standing d)) (issue_certificate C days input w)"
  unfolding issue_certificate_def store_signed_cert_def update_worker_def find_worker_def
  by (auto intro!: pres standing_set_workers split: sum.split option.split)

lemma standing_adopt: "preserves (\<lambda>d. K (standing d)) (adopt_limits F name i decls)"
proof -
  have one: "preserves (\<lambda>d. K (standing d)) (save_one w before saved c)" for w before saved c
    unfolding save_one_def upsert_worker_setting_def
    by (auto intro!: pres preserves_statement preserves_modify split: prod.split option.split)
  have all: "preserves (\<lambda>d. K (standing d)) (save_all w before saved cs)" for w before saved cs
    by (induction cs arbitrary: saved) (auto intro!: pres one)
  have "preserves (\<lambda>d. K (standing d)) (dbind (worker_setting_values w) (\<lambda>before.
        dbind (save_all w before \<lparr>saved_set = [], saved_reset = []\<rparr> changes) (\<lambda>saved. ret (Commit saved))))" for w changes
    unfolding worker_setting_values_def by (intro pres all)
  then have save: "preserves (\<lambda>d. K (standing d)) (save_worker_settings w changes)" for w changes
    unfolding save_worker_settings_def by (intro preserves_transaction) (auto dest: preservesD)
  have "preserves (\<lambda>d. K (standing d)) (adopt_0_5_limits F i decls)"
    unfolding adopt_0_5_limits_def
    by (intro pres) (auto intro!: pres save preserves_modify split: prod.split)
  then show ?thesis unfolding adopt_limits_def by (auto intro!: pres split: sum.split)
qed

text \<open>
  \<open>vetted old fp\<close>: whoever is approved was approved before, or presented the key \<open>fp\<close> and
  the policy has evidence for it.
\<close>

definition vetted :: "id set \<Rightarrow> bool \<Rightarrow> string \<Rightarrow> (id \<times> string \<times> approval_status) list \<Rightarrow> bool" where
  "vetted old evidence fp ws \<longleftrightarrow> (\<forall>(i, key, st) \<in> set ws. st = Approved \<longrightarrow> i \<in> old \<or> evidence \<and> key = fp)"

lemma vetted_iff:
  "vetted old evidence fp (standing d) \<longleftrightarrow>
     (\<forall>w \<in> set (workers d). w_status w = Approved \<longrightarrow> w_id w \<in> old \<or> evidence \<and> w_cert_fingerprint w = fp)"
  by (auto simp: vetted_def standing_def)

lemma vetted_rekey: "preserves (\<lambda>d. vetted old ev fp (standing d)) (rekey_embedded fp)"
proof -
  have "preserves (\<lambda>d. vetted old ev fp (standing d)) (modify (set_workers (\<lambda>v. w_id v = i)
      (\<lambda>v. v\<lparr>w_cert_fingerprint := fp, w_signed_cert := None, w_not_after := None\<rparr>)))" for i
  proof (rule preserves_modify)
    fix d
    assume v: "vetted old ev fp (standing d)"
    show "vetted old ev fp (standing (set_workers (\<lambda>v. w_id v = i)
        (\<lambda>v. v\<lparr>w_cert_fingerprint := fp, w_signed_cert := None, w_not_after := None\<rparr>) d))"
      unfolding vetted_iff
    proof (intro ballI impI)
      fix w
      assume w: "w \<in> set (workers (set_workers (\<lambda>v. w_id v = i)
        (\<lambda>v. v\<lparr>w_cert_fingerprint := fp, w_signed_cert := None, w_not_after := None\<rparr>) d))" "w_status w = Approved"
      then obtain x where "x \<in> set (workers d)" "w_id w = w_id x" "w_status x = Approved"
        "w_cert_fingerprint w \<in> {fp, w_cert_fingerprint x}" by (auto split: if_splits)
      with v show "w_id w \<in> old \<or> ev \<and> w_cert_fingerprint w = fp" unfolding vetted_iff by force
    qed
  qed
  then show ?thesis unfolding rekey_embedded_def find_worker_by_fingerprint_def
    by (auto intro!: pres split: option.split)
qed

lemma vetted_register_worker:
  "triple (\<lambda>d. vetted old ev (reg_fingerprint reg) (standing d) \<and> registry_ok (registry d)) (register_worker reg)
     (\<lambda>w d. vetted old ev (reg_fingerprint reg) (standing d) \<and>
        (\<forall>(i, key, _) \<in> set (standing d). i = w_id w \<longrightarrow> key = reg_fingerprint reg))
     (\<lambda>d. vetted old ev (reg_fingerprint reg) (standing d))"
  unfolding triple_def
proof (intro allI impI)
  fix s r t
  assume pre: "vetted old ev (reg_fingerprint reg) (standing (db s)) \<and> registry_ok (registry (db s))"
    and run: "register_worker reg s = (r, t)"
  have step: "vetted old ev (reg_fingerprint reg) (standing (upsert_worker reg now d))"
    if "vetted old ev (reg_fingerprint reg) (standing d)" for now d
    using that by (auto simp: vetted_iff upsert_worker_def refresh_worker_def new_worker_def)
  then have "preserves (\<lambda>d. vetted old ev (reg_fingerprint reg) (standing d)) (register_worker reg)"
    unfolding register_worker_def find_worker_by_fingerprint_def
    by (intro pres preserves_modify) (auto intro: pres split: option.split)
  then have v: "vetted old ev (reg_fingerprint reg) (standing (db t))" using pre run by (auto dest: preservesD)
  have reg: "registry_ok (registry (db t))"
    using preservesD [OF admin_register, of "(builds (db s), next_build_id (db s), packages (db s))" s reg r t] pre run
    by (simp add: admin_inv_def)
  show "case r of
      Inr w \<Rightarrow> vetted old ev (reg_fingerprint reg) (standing (db t)) \<and>
        (\<forall>(i, key, _) \<in> set (standing (db t)). i = w_id w \<longrightarrow> key = reg_fingerprint reg)
    | Inl _ \<Rightarrow> vetted old ev (reg_fingerprint reg) (standing (db t))"
  proof (cases r)
    case (Inl e)
    then show ?thesis using v by simp
  next
    case (Inr w)
    then have "worker_with_key (reg_fingerprint reg) (db t) = Some w"
      using run by (auto simp: register_worker_def find_worker_by_fingerprint_def db_simps split: option.splits)
    note w = worker_with_key_Some [OF this]
    have "w_cert_fingerprint x = reg_fingerprint reg" if "x \<in> set (workers (db t))" "w_id x = w_id w" for x
      using distinct_map_eq [of w_id "workers (db t)" x w] that w reg by (simp add: registry_ok_iff)
    then show ?thesis using v Inr by (auto simp: standing_def)
  qed
qed

definition has_evidence :: "(string \<Rightarrow> bool) \<Rightarrow> enrollment_policy \<Rightarrow> string \<Rightarrow> string option \<Rightarrow> bool" where
  "has_evidence is_file policy fp token \<longleftrightarrow>
     (\<exists>dir. ep_dir policy = Some dir \<and> is_file (path_join dir (fp @ ''.csr''))) \<or>
     fp \<in> set (ep_preapproved policy) \<or>
     (\<exists>t. token = Some t \<and> ep_token policy = Some t \<and> t \<noteq> [])"

lemma approves_iff: "approves is_file policy status fp token \<longleftrightarrow> status = Pending \<and> has_evidence is_file policy fp token"
  by (auto simp: approves_def has_evidence_def secret_matches_def list_ex_iff split: option.splits)

lemma vetted_auto_approve:
  assumes "ev = has_evidence is_file policy fp (rr_enrollment_token input)"
  shows "triple (\<lambda>d. vetted old ev fp (standing d) \<and> (\<forall>(i, key, _) \<in> set (standing d). i = w_id w \<longrightarrow> key = fp))
    (auto_approve is_file policy input fp w) (\<lambda>_ d. vetted old ev fp (standing d)) (\<lambda>d. vetted old ev fp (standing d))"
proof (cases "approves is_file policy (w_status w) fp (rr_enrollment_token input)")
  case False
  then show ?thesis by (auto simp: triple_def auto_approve_def ret_def)
next
  case True
  then have ev: "ev" using assms by (simp add: approves_iff)
  have "vetted old ev fp (standing (set_workers (\<lambda>v. w_id v = w_id w) (\<lambda>w. w\<lparr>w_status := Approved\<rparr>) d))"
    if "vetted old ev fp (standing d)" "\<forall>(i, key, _) \<in> set (standing d). i = w_id w \<longrightarrow> key = fp" for d
    unfolding vetted_iff
  proof (intro ballI impI)
    fix x
    assume x: "x \<in> set (workers (set_workers (\<lambda>v. w_id v = w_id w) (\<lambda>w. w\<lparr>w_status := Approved\<rparr>) d))"
      "w_status x = Approved"
    then obtain y where y: "y \<in> set (workers d)" "w_id x = w_id y" "w_cert_fingerprint x = w_cert_fingerprint y"
      "w_id y = w_id w \<or> w_status y = Approved" by (auto split: if_splits)
    show "w_id x \<in> old \<or> ev \<and> w_cert_fingerprint x = fp"
    proof (cases "w_id y = w_id w")
      case True
      then have "w_cert_fingerprint y = fp" using that(2) y(1) by (auto simp: standing_def)
      then show ?thesis using ev y(3) by simp
    next
      case False
      then show ?thesis using that(1) y unfolding vetted_iff by auto
    qed
  qed
  then show ?thesis
    using True unfolding triple_def auto_approve_def approve_worker_def update_worker_def find_worker_def
    by (auto simp: map_err_def dbind_def dthen_def select_def modify_def statement_def ret_def raise_def emit_def
        perform_def split: option.splits sum.splits if_splits prod.splits)
qed

lemma admin_registry:
  assumes "\<And>X. preserves (admin_inv X) m"
  shows "preserves (\<lambda>d. registry_ok (registry d)) m"
  unfolding preserves_def
proof (intro allI impI)
  fix s r t
  assume "registry_ok (registry (db s))" "m s = (r, t)"
  then show "registry_ok (registry (db t))"
    using preservesD [OF assms [of "(builds (db s), next_build_id (db s), packages (db s))"], of s r t]
    by (simp add: admin_inv_def)
qed

lemma vetted_register_agreed:
  assumes "ev = has_evidence is_file policy fp (rr_enrollment_token input)"
  shows "triple (\<lambda>d. vetted old ev fp (standing d) \<and> registry_ok (registry d))
    (register_agreed F J C is_file policy days input fp) (\<lambda>_ d. vetted old ev fp (standing d)) (\<lambda>d. vetted old ev fp (standing d))"
proof -
  let ?P = "\<lambda>d. vetted old ev fp (standing d) \<and> registry_ok (registry d)"
  let ?Q = "\<lambda>w d. vetted old ev fp (standing d) \<and> (\<forall>(i, key, _) \<in> set (standing d). i = w_id w \<longrightarrow> key = fp)"
  let ?E = "\<lambda>d. vetted old ev fp (standing d)"
  have early: "triple ?P m (\<lambda>_. ?P) ?E" if "preserves ?P m" for m :: "(enroll_error, 'x) prog"
    using that by (rule triple_keep) simp
  have late: "triple (?Q w) m (\<lambda>_. ?Q w) ?E" if "preserves (?Q w) m" for w and m :: "(enroll_error, unit) prog"
    using that by (rule triple_keep) simp
  have st: "preserves (?Q w) m" if "\<And>K. preserves (\<lambda>d. K (standing d)) m" for w and m :: "(enroll_error, unit) prog"
    using that [of "\<lambda>st. vetted old ev fp st \<and> (\<forall>(i, key, _) \<in> set st. i = w_id w \<longrightarrow> key = fp)"] by simp
  have rekey: "preserves ?P (rekey_embedded fp)"
    by (rule preserves_conj [OF vetted_rekey admin_registry [OF admin_rekey]])
  have reg: "triple ?P (map_err Enroll_Db (register_worker (registration_of input fp decl))) (\<lambda>w. ?Q w) ?E" for decl
    using triple_map_err [OF vetted_register_worker [of old ev "registration_of input fp decl"]]
    by (simp add: registration_of_def)
  show ?thesis
    unfolding register_agreed_def Let_def
    by (intro triple_dthen [OF early] triple_dbind [OF early] triple_dbind [OF reg] triple_dthen [OF late [OF st]]
        vetted_auto_approve [OF assms])
      (auto intro!: pres rekey admin_find_key standing_mark standing_adopt standing_issue split: option.split)
qed

lemma snapshot_for_Some:
  assumes "snapshot_for J w received u = (Inr (Some snapshot) :: 'e + config_snapshot option, v)"
  shows "cs_settings snapshot = setting_values (w_id w) (db u)"
proof -
  obtain x u' where x: "worker_setting_values (w_id w) u = (x, u')"
    "(case x of Inl _ \<Rightarrow> ret None
      | Inr values \<Rightarrow> ret (if received \<noteq> Some (config_revision J values)
          then Some \<lparr>cs_revision = config_revision J values, cs_settings = values\<rparr> else None)) u' =
       (Inr (Some snapshot) :: 'e + config_snapshot option, v)"
    using assms unfolding snapshot_for_def by (auto simp: db_simps)
  show ?thesis
  proof (cases x)
    case (Inl e)
    then show ?thesis using x(2) by (simp add: ret_def)
  next
    case (Inr vals)
    then show ?thesis using x by (auto simp: worker_setting_values_def db_simps ret_def split: if_splits)
  qed
qed

section \<open>Properties\<close>

text \<open>An authority that names a key by its request, and a policy with a token.\<close>

definition sample_ca :: ca where
  "sample_ca = \<lparr>ca_fingerprint_from_csr_pem = Inr, ca_issued = (\<lambda>_. True),
     ca_sign_worker_csr = (\<lambda>csr days. Inr (csr, days))\<rparr>"

definition sample_json :: "int json" where
  "sample_json = \<lparr>declaration_to_json = (\<lambda>_. Some []), declaration_from_json = (\<lambda>_. Some []),
     effective_to_json = (\<lambda>_. Some []), effective_from_json = (\<lambda>_. None),
     values_to_json = (\<lambda>vs. Some (concat (map fst vs))), sha256_hex = (\<lambda>j. j)\<rparr>"

definition sample_policy :: enrollment_policy where
  "sample_policy = \<lparr>ep_dir = None, ep_preapproved = [], ep_token = Some ''secret'', ep_embedded_secret = None\<rparr>"

definition sample_request :: "int register_request" where
  "sample_request = \<lparr>rr_protocols = PROTOCOLS, rr_name = ''one'', rr_arches = [''x86_64''], rr_version = ''1'',
     rr_kind = ''chroot'', rr_csr_pem = w_cert_fingerprint (sample_worker 1 ''one'' [] 0),
     rr_enrollment_token = Some ''secret'', rr_embedded_secret = None, rr_affinity = [], rr_priority = 0,
     rr_concurrency = 1, rr_settings = []\<rparr>"

text \<open>A worker that declares how many builds it runs at once.\<close>

definition sample_decl :: "int setting_decl" where
  "sample_decl = \<lparr>sd_key = ''concurrency'', sd_kind = Kind_Integer (Some 1) None, sd_category = ''Scheduling'',
     sd_default = Some ''1'', sd_env_var = Some ''WORKER_CONCURRENCY'', sd_applies = Immediately\<rparr>"

definition declaring_json :: "int json" where
  "declaring_json = sample_json\<lparr>declaration_from_json := \<lambda>_. Some [sample_decl]\<rparr>"

lemma sample_declared:
  "declared_by declaring_json w = declared_settings (from_env whole_floats (\<lambda>_. None) [sample_concurrency])"
proof -
  have "show_int 1 = ''1''" by code_simp
  then show ?thesis
    by (simp add: declared_by_def declaring_json_def sample_decl_def declared_settings_def from_env_def extended_def
        resolve_def Let_def env_opt_def sample_concurrency_def protocol_settings_def spec_of_def DEFAULT_CONCURRENCY_def)
qed

definition mixed_save :: "(string \<times> string option) list" where
  "mixed_save = [(''concurrency'', Some ''0''), (''priority'', Some ''5'')]"

text \<open>C29: Nobody is approved by registering unless the policy has evidence for the key that was presented:
  a worker that is approved afterwards was approved before, or was waiting (a revoked worker is
  never taken back) and holds the presented key, and the key's request lies in the enrollment
  volume, or the key is one of the pre-approved ones, or the shared token was presented.\<close>

theorem approval_needs_evidence:
  assumes ok: "db_ok (db s)" and run: "register F J C is_file policy days input s = (r, t)"
    and w: "w \<in> set (workers (db t))" "w_status w = Approved"
  shows "(\<exists>v \<in> set (workers (db s)). w_id v = w_id w \<and> w_status v = Approved) \<or>
    ca_fingerprint_from_csr_pem C (rr_csr_pem input) = Inr (w_cert_fingerprint w) \<and>
    has_evidence is_file policy (w_cert_fingerprint w) (rr_enrollment_token input) \<and>
    (\<forall>v \<in> set (workers (db s)). w_id v = w_id w \<longrightarrow> w_status v = Pending)"
proof (cases "\<exists>v \<in> set (workers (db s)). w_id v = w_id w \<and> w_status v = Approved")
  case False
  note reg = db_okD(6) [OF ok, unfolded registry_ok_iff]
  let ?old = "w_id ` {v \<in> set (workers (db s)). w_status v = Approved}"
  have new: "w_id w \<notin> ?old" using False by auto
  obtain fp where fp: "ca_fingerprint_from_csr_pem C (rr_csr_pem input) = Inr fp"
    "\<exists>q. register_agreed F J C is_file policy days input fp s = (q, t)"
  proof (cases "register F J C is_file policy days input s = (r, s)")
    case True
    then have "t = s" using run by simp
    then show ?thesis using w False by blast
  next
    case changed: False
    then obtain fp where csr: "ca_fingerprint_from_csr_pem C (rr_csr_pem input) = Inr fp"
      using run by (auto simp: register_def ret_def split: sum.splits)
    have "\<exists>q. register_agreed F J C is_file policy days input fp s = (q, t)"
      using run changed
      by (auto simp: register_def csr dthen_def dbind_def ret_def split: option.splits sum.splits prod.splits)
    with csr that show ?thesis by blast
  qed
  let ?ev = "has_evidence is_file policy fp (rr_enrollment_token input)"
  obtain q where q: "register_agreed F J C is_file policy days input fp s = (q, t)" using fp(2) by blast
  have "vetted ?old ?ev fp (standing (db s)) \<and> registry_ok (registry (db s))"
    using db_okD(6) [OF ok] by (auto simp: vetted_iff)
  then have "vetted ?old ?ev fp (standing (db t))"
    by (rule tripleD [OF vetted_register_agreed [OF refl] _ q])
  then have ev: "?ev \<and> w_cert_fingerprint w = fp" using w new unfolding vetted_iff by blast
  have "w_status v = Pending" if v: "v \<in> set (workers (db s))" "w_id v = w_id w" for v
  proof (rule ccontr)
    assume "w_status v \<noteq> Pending"
    then have "w_status v = Revoked" using False v by (cases "w_status v") auto
    then have "w_status x = Revoked" if "x \<in> set (workers (db s))" "w_id x = w_id w" for x
      using distinct_map_eq [of w_id "workers (db s)" x v] that v reg by simp
    then have "revoked_inv {w_id w} (db s)" using reg v by (auto simp: revoked_inv_def)
    then have "revoked_inv {w_id w} (db t)" by (rule preservesD [OF revoked_register _ run])
    then show False using w by (simp add: revoked_inv_def)
  qed
  with ev fp(1) show ?thesis by blast
qed blast

theorem approval_needs_evidence_witness:
  "\<exists>w. worker_with_key ''three''
      (db (snd (register whole_floats sample_json sample_ca (\<lambda>_. False) sample_policy 30
        (sample_request\<lparr>rr_csr_pem := ''three''\<rparr>) sample_server))) = Some w \<and> w_status w = Approved \<and>
     has_evidence (\<lambda>_. False) sample_policy (w_cert_fingerprint w) (Some ''secret'')"
proof -
  let ?run = "register whole_floats sample_json sample_ca (\<lambda>_. False) sample_policy 30
        (sample_request\<lparr>rr_csr_pem := ''three''\<rparr>) sample_server"
  have "map_option w_status (worker_with_key ''three'' (db (snd ?run))) = Some Approved" by code_simp
  then obtain w where w: "worker_with_key ''three'' (db (snd ?run)) = Some w" "w_status w = Approved" by auto
  note mem = worker_with_key_Some [OF w(1)]
  have old: "map w_id (filter (\<lambda>v. w_status v = Approved) (workers sample_tables)) = [1, 2]" "w_id w = 3"
  proof -
    show "map w_id (filter (\<lambda>v. w_status v = Approved) (workers sample_tables)) = [1, 2]" by code_simp
    have "map_option w_id (worker_with_key ''three'' (db (snd ?run))) = Some 3" by code_simp
    then show "w_id w = 3" using w(1) by simp
  qed
  have "\<not> (\<exists>v \<in> set (workers sample_tables). w_id v = w_id w \<and> w_status v = Approved)"
  proof
    assume "\<exists>v \<in> set (workers sample_tables). w_id v = w_id w \<and> w_status v = Approved"
    then obtain v where "v \<in> set (filter (\<lambda>v. w_status v = Approved) (workers sample_tables))" "w_id v = w_id w" by auto
    then have "w_id w \<in> set (map w_id (filter (\<lambda>v. w_status v = Approved) (workers sample_tables)))"
      by (metis imageI list.set_map)
    then show False using old by simp
  qed
  moreover have "?run = (fst ?run, snd ?run)" by simp
  ultimately have "has_evidence (\<lambda>_. False) sample_policy (w_cert_fingerprint w) (Some ''secret'')"
    using approval_needs_evidence [of sample_server whole_floats sample_json sample_ca "\<lambda>_. False" sample_policy 30
        "sample_request\<lparr>rr_csr_pem := ''three''\<rparr>" "fst ?run" "snd ?run" w] sample_db_ok mem w(2)
    by (simp add: sample_request_def) blast
  with w show ?thesis by blast
qed



text \<open>C31: A save in which any value does not fit is refused whole: nothing is stored, and the refusal
  names exactly the keys whose values do not fit.\<close>

theorem bad_save_refused_whole:
  assumes ord: "ordered changes" and bad: "(k, Some value) \<in> set changes" "\<not> acceptable F (declared_by J w) k value"
  shows "\<exists>why. save_settings F J w changes s = (Inr (Refused why), s) \<and>
    fst ` set why = {k. \<exists>v. (k, Some v) \<in> set changes \<and> \<not> acceptable F (declared_by J w) k v}"
proof -
  let ?D = "declared_by J w"
  let ?bad = "concat (map (\<lambda>(k, v). case checked_value F ?D k v of Inl p \<Rightarrow> [p] | Inr _ \<Rightarrow> []) changes)"
  have run: "checked_changes F ?D changes = Inl (remdups_adj ?bad)"
    unfolding checked_changes_cases [OF ord] using bad by fastforce
  have one: "fst ` set (case checked_value F ?D k v of Inl p \<Rightarrow> [p] | Inr _ \<Rightarrow> []) =
      {j. j = k \<and> (\<exists>x. v = Some x \<and> \<not> acceptable F ?D k x)}" for k v
    using checked_value_Inl [of F ?D k v] checked_value_Inr [of F ?D k v]
    by (cases "checked_value F ?D k v") auto
  have "fst ` set ?bad = (\<Union>(k, v) \<in> set changes. fst ` set (case checked_value F ?D k v of Inl p \<Rightarrow> [p] | Inr _ \<Rightarrow> []))"
    by (simp add: image_UN case_prod_beta)
  also have "\<dots> = {k. \<exists>v. (k, Some v) \<in> set changes \<and> \<not> acceptable F ?D k v}" unfolding one by blast
  finally show ?thesis by (simp add: save_settings_def run ret_def)
qed

theorem bad_save_refused_whole_witness:
  "\<exists>why. save_settings whole_floats declaring_json (sample_worker 1 ''one'' [] 0) mixed_save sample_server =
       (Inr (Refused why), sample_server) \<and> ''concurrency'' \<in> fst ` set why"
proof -
  let ?w = "sample_worker 1 ''one'' [] 0"
  have "ordered mixed_save" by code_simp
  moreover have "(''concurrency'', Some ''0'') \<in> set mixed_save" by (simp add: mixed_save_def)
  moreover have "\<not> acceptable whole_floats (declared_by declaring_json ?w) ''concurrency'' ''0''" by code_simp
  ultimately show ?thesis
    using bad_save_refused_whole [of mixed_save "''concurrency''" "''0''" whole_floats declaring_json ?w sample_server]
    by blast
qed

end
