(* ===== verification/Schedules.thy ===== *)
theory Schedules
  imports Units "HOL-Library.Word"
begin

text \<open>
  When scheduled jobs run: the crontab expressions of \<^verbatim>\<open>aurcache-common/src/schedule.rs\<close>, with
  Jenkins's \<^verbatim>\<open>H\<close>, and the jobs of \<^verbatim>\<open>aurcache-utils/src/scheduled.rs\<close> that use them.

  A field is a bit set in an unsigned 64-bit integer, and the hash that \<^verbatim>\<open>H\<close> is picked with is
  computed in such integers, wrapping. The calendar and the time zone belong to \<^verbatim>\<open>jiff\<close> and
  are a parameter.
\<close>

unbundle bit_operations_syntax

section \<open>Text\<close>

definition u32_MAX :: nat where "u32_MAX = 2 ^ 32 - 1"

text \<open>\<^verbatim>\<open>str::parse::<u32>\<close>.\<close>

definition parse_u32 :: "string \<Rightarrow> nat option" where
  "parse_u32 s = (case parse_u64 s of None \<Rightarrow> None | Some n \<Rightarrow> if n \<le> u32_MAX then Some n else None)"

text \<open>\<^verbatim>\<open>str::split_whitespace\<close>.\<close>

fun split_space :: "string \<Rightarrow> string list" where
  "split_space [] = [[]]"
| "split_space (c # cs) =
     (if is_whitespace c then [] # split_space cs
      else (case split_space cs of [] \<Rightarrow> [[c]] | w # ws \<Rightarrow> (c # w) # ws))"

definition split_whitespace :: "string \<Rightarrow> string list" where
  "split_whitespace s = filter (\<lambda>w. w \<noteq> []) (split_space s)"

definition starts_with :: "char \<Rightarrow> string \<Rightarrow> bool" where
  "starts_with c s \<longleftrightarrow> (case s of [] \<Rightarrow> False | d # _ \<Rightarrow> d = c)"

definition NEVER :: string where "NEVER = ''@never''"

definition is_off :: "string \<Rightarrow> bool" where
  "is_off expr \<longleftrightarrow> trim expr = [] \<or> to_ascii_lowercase (trim expr) = to_ascii_lowercase NEVER"

section \<open>Fields\<close>

record field =
  fl_name :: string
  fl_min :: nat
  fl_max :: nat
  fl_hashed :: "nat \<times> nat"
  fl_names :: "string list"

definition MINUTE :: field where
  "MINUTE = \<lparr>fl_name = ''minute'', fl_min = 0, fl_max = 59, fl_hashed = (0, 59), fl_names = []\<rparr>"

definition HOUR :: field where
  "HOUR = \<lparr>fl_name = ''hour'', fl_min = 0, fl_max = 23, fl_hashed = (0, 23), fl_names = []\<rparr>"

definition DAY :: field where
  "DAY = \<lparr>fl_name = ''day of month'', fl_min = 1, fl_max = 31, fl_hashed = (1, 28), fl_names = []\<rparr>"

definition MONTH :: field where
  "MONTH = \<lparr>fl_name = ''month'', fl_min = 1, fl_max = 12, fl_hashed = (1, 12),
     fl_names = [''jan'', ''feb'', ''mar'', ''apr'', ''may'', ''jun'', ''jul'', ''aug'', ''sep'', ''oct'', ''nov'', ''dec'']\<rparr>"

definition WEEKDAY :: field where
  "WEEKDAY = \<lparr>fl_name = ''day of week'', fl_min = 0, fl_max = 7, fl_hashed = (0, 6),
     fl_names = [''sun'', ''mon'', ''tue'', ''wed'', ''thu'', ''fri'', ''sat'']\<rparr>"

text \<open>\<^verbatim>\<open>Iterator::position\<close>.\<close>

fun position_of :: "'a \<Rightarrow> 'a list \<Rightarrow> nat option" where
  "position_of x [] = None"
| "position_of x (y # ys) = (if y = x then Some 0 else map_option Suc (position_of x ys))"

definition field_value :: "string \<Rightarrow> field \<Rightarrow> nat option" where
  "field_value s field =
     (case (case position_of (to_ascii_lowercase s) (fl_names field) of
              Some index \<Rightarrow> Some (index + min (fl_min field) 1 * (if fl_max field = 12 then 1 else 0))
            | None \<Rightarrow> parse_u32 s) of
        None \<Rightarrow> None
      | Some v \<Rightarrow> if fl_min field \<le> v \<and> v \<le> fl_max field then Some v else None)"

text \<open>\<^verbatim>\<open>Iterator::step_by\<close>.\<close>

function step_by :: "nat \<Rightarrow> 'a list \<Rightarrow> 'a list" where
  "step_by n [] = []"
| "step_by n (x # xs) = x # step_by n (drop (n - 1) xs)"
  by pat_completeness auto
termination by (relation "measure (\<lambda>(n, xs). length xs)") auto

text \<open>The range an item covers; \<open>Nothing\<close> when the offset of \<^verbatim>\<open>H/n\<close> is past its end.\<close>

datatype item_range = Nothing | Between nat nat

definition hashed_range :: "string \<Rightarrow> field \<Rightarrow> (nat \<times> nat) option" where
  "hashed_range hashed field =
     (if hashed = [] then Some (fl_hashed field)
      else Option.bind (strip_prefix ''('' hashed) (\<lambda>rest.
           Option.bind (strip_suffix '')'' rest) (\<lambda>range.
           Option.bind (split_once CHR ''-'' range) (\<lambda>(low, high).
           Option.bind (field_value low field) (\<lambda>l.
           map_option (\<lambda>h. (l, h)) (field_value high field))))))"

text \<open>The sum wraps at 32 bits, as release builds do.\<close>

definition hashed_item :: "string \<Rightarrow> nat option \<Rightarrow> field \<Rightarrow> 64 word \<Rightarrow> item_range option" where
  "hashed_item hashed step field hash =
     Option.bind (hashed_range hashed field) (\<lambda>(low, high).
     if low > high then None
     else
       let span = (case step of None \<Rightarrow> high - low + 1 | Some s \<Rightarrow> s);
           offset = unat hash mod span;
           first = (low + offset) mod 2 ^ 32
       in case step of
            None \<Rightarrow> Some (Between first first)
          | Some _ \<Rightarrow> if first > high then Some Nothing else Some (Between first high))"

definition plain_item :: "string \<Rightarrow> nat option \<Rightarrow> field \<Rightarrow> item_range option" where
  "plain_item base step field =
     (if base = ''*'' then Some (Between (fl_min field) (fl_max field))
      else case split_once CHR ''-'' base of
             Some (low, high) \<Rightarrow>
               Option.bind (field_value low field) (\<lambda>l.
               map_option (\<lambda>h. Between l h) (field_value high field))
           | None \<Rightarrow>
               map_option (\<lambda>at. Between at (if step \<noteq> None then fl_max field else at)) (field_value base field))"

definition split_step :: "string \<Rightarrow> (string \<times> nat option) option" where
  "split_step item =
     (case split_once CHR ''/'' item of
        None \<Rightarrow> Some (item, None)
      | Some (base, step) \<Rightarrow>
          (case parse_u32 step of None \<Rightarrow> None | Some s \<Rightarrow> if s > 0 then Some (base, Some s) else None))"

definition with_bits :: "nat list \<Rightarrow> 64 word" where
  "with_bits vs = fold (\<lambda>v acc. acc OR push_bit v 1) vs 0"

definition parse_item :: "string \<Rightarrow> field \<Rightarrow> 64 word \<Rightarrow> 64 word option" where
  "parse_item item field hash =
     Option.bind (split_step item) (\<lambda>(base, step).
     Option.bind
       (if starts_with CHR ''H'' base \<or> starts_with CHR ''h'' base
        then hashed_item (tl base) step field hash else plain_item base step field) (\<lambda>range.
     case range of
       Nothing \<Rightarrow> Some 0
     | Between from to \<Rightarrow>
         if from > to then None
         else Some (with_bits (step_by (case step of None \<Rightarrow> 1 | Some s \<Rightarrow> s) [from..<Suc to]))))"

datatype schedule_error =
    UnknownShortcut string
  | OldSyntax string "string option"
  | WrongFieldCount string nat
  | InvalidItem string string

text \<open>The loop of \<^verbatim>\<open>parse_field\<close>.\<close>

fun parse_items :: "string list \<Rightarrow> field \<Rightarrow> 64 word \<Rightarrow> 64 word \<Rightarrow> schedule_error + 64 word" where
  "parse_items [] field hash acc = Inr acc"
| "parse_items (item # items) field hash acc =
     (case parse_item item field hash of
        None \<Rightarrow> Inl (InvalidItem item (fl_name field))
      | Some s \<Rightarrow> parse_items items field hash (acc OR s))"

definition parse_field :: "string \<Rightarrow> field \<Rightarrow> 64 word \<Rightarrow> schedule_error + 64 word" where
  "parse_field s field hash = parse_items (split_on CHR '','' s) field hash 0"

section \<open>Hashing\<close>

definition job_seed :: "string \<Rightarrow> string \<Rightarrow> 64 word" where
  "job_seed inst job =
     foldl (\<lambda>hash byte. (hash XOR byte) * 0x00000100000001b3) 0xcbf29ce484222325
       (map of_char inst @ [0] @ map of_char job)"

definition mix :: "64 word \<Rightarrow> 64 word \<Rightarrow> 64 word" where
  "mix seed field =
     (let z0 = seed + (field + 1) * 0x9e3779b97f4a7c15;
          z1 = (z0 XOR drop_bit 30 z0) * 0xbf58476d1ce4e5b9;
          z2 = (z1 XOR drop_bit 27 z1) * 0x94d049bb133111eb
      in z2 XOR drop_bit 31 z2)"

section \<open>Schedules\<close>

record schedule =
  sc_minutes :: "64 word"
  sc_hours :: "64 word"
  sc_days :: "64 word"
  sc_months :: "64 word"
  sc_weekdays :: "64 word"
  sc_any_day :: bool
  sc_any_weekday :: bool

definition and_then :: "'e + 'a \<Rightarrow> ('a \<Rightarrow> 'e + 'b) \<Rightarrow> 'e + 'b" where
  "and_then r f = (case r of Inl e \<Rightarrow> Inl e | Inr x \<Rightarrow> f x)"

definition expand :: "string \<Rightarrow> string option" where
  "expand expr =
     (let s = to_ascii_lowercase expr in
      if s = ''@hourly'' then Some ''H * * * *''
      else if s = ''@daily'' then Some ''H H * * *''
      else if s = ''@midnight'' then Some ''H H(0-2) * * *''
      else if s = ''@weekly'' then Some ''H H * * H''
      else if s = ''@monthly'' then Some ''H H H * *''
      else if s = ''@yearly'' \<or> s = ''@annually'' then Some ''H H H H *''
      else if starts_with CHR ''@'' expr then None
      else Some expr)"

text \<open>Sunday is both 0 and 7.\<close>

definition fold_sunday :: "64 word \<Rightarrow> 64 word" where
  "fold_sunday weekdays =
     (if weekdays AND push_bit 7 1 \<noteq> 0 then (weekdays AND NOT (push_bit 7 1)) OR 1 else weekdays)"

definition parse_fields :: "string \<Rightarrow> string \<Rightarrow> string \<Rightarrow> string \<Rightarrow> string \<Rightarrow> 64 word \<Rightarrow> schedule_error + schedule" where
  "parse_fields minute hour day month weekday seed =
     and_then (parse_field weekday WEEKDAY (mix seed 4)) (\<lambda>weekdays.
     and_then (parse_field minute MINUTE (mix seed 0)) (\<lambda>minutes.
     and_then (parse_field hour HOUR (mix seed 1)) (\<lambda>hours.
     and_then (parse_field day DAY (mix seed 2)) (\<lambda>days.
     and_then (parse_field month MONTH (mix seed 3)) (\<lambda>months.
     Inr \<lparr>sc_minutes = minutes, sc_hours = hours, sc_days = days, sc_months = months,
          sc_weekdays = fold_sunday weekdays, sc_any_day = starts_with CHR ''*'' day,
          sc_any_weekday = starts_with CHR ''*'' weekday\<rparr>)))))"

text \<open>
  The source's \<^verbatim>\<open>parse\<close> tells an expression of six or seven fields what it would be in this
  syntax, and that is found by parsing again: here the error is an argument, and the inner
  parse, whose error is not looked at, has five fields.
\<close>

definition parse_with :: "(string \<Rightarrow> nat \<Rightarrow> schedule_error) \<Rightarrow> string \<Rightarrow> 64 word \<Rightarrow> schedule_error + schedule" where
  "parse_with wrong raw seed =
     (let expr = trim raw in
      case expand expr of
        None \<Rightarrow> Inl (UnknownShortcut expr)
      | Some expanded \<Rightarrow>
          (case split_whitespace expanded of
             [minute, hour, day, month, weekday] \<Rightarrow> parse_fields minute hour day month weekday seed
           | parts \<Rightarrow> Inl (wrong expr (length parts))))"

definition shift_part :: "string \<Rightarrow> string option" where
  "shift_part part =
     (case parse_u32 part of
        Some n \<Rightarrow> if 1 \<le> n \<and> n \<le> 7 then Some (show_nat (n - 1)) else None
      | None \<Rightarrow> Some part)"

definition shift_weekday :: "string \<Rightarrow> string option" where
  "shift_weekday item =
     (let (base, step) = (case split_once CHR ''/'' item of
                            Some (base, step) \<Rightarrow> (base, Some step)
                          | None \<Rightarrow> (item, None))
      in map_option (\<lambda>base'. case step of Some s \<Rightarrow> base' @ ''/'' @ s | None \<Rightarrow> base')
           (if base = ''*'' then Some base
            else case split_once CHR ''-'' base of
                   Some (low, high) \<Rightarrow>
                     Option.bind (shift_part low) (\<lambda>l. map_option (\<lambda>h. l @ ''-'' @ h) (shift_part high))
                 | None \<Rightarrow> shift_part base))"

text \<open>\<^verbatim>\<open>collect\<close> into an \<^verbatim>\<open>Option\<close>.\<close>

fun collect_options :: "'a option list \<Rightarrow> 'a list option" where
  "collect_options [] = Some []"
| "collect_options (x # xs) = Option.bind x (\<lambda>y. map_option (Cons y) (collect_options xs))"

definition any_field :: "string \<Rightarrow> string" where
  "any_field field = (if field = ''?'' then ''*'' else field)"

definition old_fields :: "string \<Rightarrow> (string \<times> string \<times> string \<times> string \<times> string) option" where
  "old_fields expr =
     (case split_whitespace expr of
        [second, minute, hour, day, month, weekday] \<Rightarrow>
          if second = ''0'' then Some (minute, hour, day, month, weekday) else None
      | [second, minute, hour, day, month, weekday, year] \<Rightarrow>
          if (year = ''*'' \<or> year = ''?'') \<and> second = ''0'' then Some (minute, hour, day, month, weekday) else None
      | _ \<Rightarrow> None)"

definition from_seconds_syntax :: "string \<Rightarrow> string option" where
  "from_seconds_syntax expr =
     Option.bind (old_fields expr) (\<lambda>(minute, hour, day, month, weekday).
     Option.bind
       (if weekday = ''?'' then Some ''*''
        else map_option (join '','') (collect_options (map shift_weekday (split_on CHR '','' weekday)))) (\<lambda>weekday'.
     let translated = join '' '' [minute, hour, any_field day, any_field month, weekday'] in
     case parse_with WrongFieldCount translated 0 of Inl _ \<Rightarrow> None | Inr _ \<Rightarrow> Some translated))"

definition wrong_field_count :: "string \<Rightarrow> nat \<Rightarrow> schedule_error" where
  "wrong_field_count expr count =
     (if count = 6 \<or> count = 7 then OldSyntax expr (from_seconds_syntax expr) else WrongFieldCount expr count)"

definition parse_schedule :: "string \<Rightarrow> 64 word \<Rightarrow> schedule_error + schedule" where
  "parse_schedule expr seed = parse_with wrong_field_count expr seed"

section \<open>The next run\<close>

text \<open>
  What the source uses of \<^verbatim>\<open>jiff\<close>: the date of a zoned time, the parts of a date, the next day
  (\<open>None\<close> past the last date there is), the time of a day in the zone, and the order of times.
\<close>

record ('d, 't) calendar =
  cal_date :: "'t \<Rightarrow> 'd"
  cal_month :: "'d \<Rightarrow> nat"
  cal_day :: "'d \<Rightarrow> nat"
  cal_weekday :: "'d \<Rightarrow> nat"
  cal_tomorrow :: "'d \<Rightarrow> 'd option"
  cal_at :: "'d \<Rightarrow> nat \<Rightarrow> nat \<Rightarrow> 't option"
  cal_after :: "'t \<Rightarrow> 't \<Rightarrow> bool"

definition bits_of :: "64 word \<Rightarrow> nat list" where
  "bits_of w = filter (\<lambda>n. w AND push_bit n 1 \<noteq> 0) [0..<64]"

definition runs_on :: "('d, 't) calendar \<Rightarrow> schedule \<Rightarrow> 'd \<Rightarrow> bool" where
  "runs_on C s day \<longleftrightarrow>
     (if sc_months s AND push_bit (cal_month C day) 1 = 0 then False
      else
        let by_day = (sc_days s AND push_bit (cal_day C day) 1 \<noteq> 0);
            by_weekday = (sc_weekdays s AND push_bit (cal_weekday C day) 1 \<noteq> 0)
        in if \<not> sc_any_day s \<and> \<not> sc_any_weekday s then by_day \<or> by_weekday else by_day \<and> by_weekday)"

text \<open>The times of one day; \<open>None\<close> is the end of the loops, \<open>Some\<close> an early return.\<close>

fun first_after :: "('d, 't) calendar \<Rightarrow> 't \<Rightarrow> 'd \<Rightarrow> (nat \<times> nat) list \<Rightarrow> 't option option" where
  "first_after C now day [] = None"
| "first_after C now day ((hour, minute) # slots) =
     (case cal_at C day hour minute of
        None \<Rightarrow> Some None
      | Some at \<Rightarrow> if cal_after C at now then Some (Some at) else first_after C now day slots)"

definition day_times :: "schedule \<Rightarrow> (nat \<times> nat) list" where
  "day_times s = List.product (bits_of (sc_hours s)) (bits_of (sc_minutes s))"

fun next_from :: "('d, 't) calendar \<Rightarrow> schedule \<Rightarrow> 't \<Rightarrow> nat \<Rightarrow> 'd \<Rightarrow> 't option" where
  "next_from C s now 0 day = None"
| "next_from C s now (Suc n) day =
     (case (if runs_on C s day then first_after C now day (day_times s) else None) of
        Some result \<Rightarrow> result
      | None \<Rightarrow> (case cal_tomorrow C day of None \<Rightarrow> None | Some day' \<Rightarrow> next_from C s now n day'))"

definition HORIZON_DAYS :: nat where "HORIZON_DAYS = 28 * 366"

definition next_after :: "('d, 't) calendar \<Rightarrow> schedule \<Rightarrow> 't \<Rightarrow> 't option" where
  "next_after C s now = next_from C s now HORIZON_DAYS (cal_date C now)"

section \<open>Scheduled jobs\<close>

datatype job = AutoUpdate | MirrorRanking

fun job_name :: "job \<Rightarrow> string" where
  "job_name AutoUpdate = ''auto_update''"
| "job_name MirrorRanking = ''mirror_ranking''"

record job_schedule =
  js_schedule :: schedule
  js_rewritten :: "string option"

definition schedule_for :: "string \<Rightarrow> job \<Rightarrow> string \<Rightarrow> schedule_error + job_schedule" where
  "schedule_for inst job expr =
     (let seed = job_seed inst (job_name job) in
      case parse_schedule expr seed of
        Inr s \<Rightarrow> Inr \<lparr>js_schedule = s, js_rewritten = None\<rparr>
      | Inl e \<Rightarrow>
          (case from_seconds_syntax expr of
             None \<Rightarrow> Inl e
           | Some rewritten \<Rightarrow>
               (case parse_schedule rewritten seed of
                  Inl _ \<Rightarrow> Inl e
                | Inr s \<Rightarrow> Inr \<lparr>js_schedule = s, js_rewritten = Some rewritten\<rparr>)))"

datatype 't schedule_preview = Preview_Disabled | Preview_Invalid schedule_error | Preview_Never | Preview_Runs "'t list"

fun runs_from :: "('d, 't) calendar \<Rightarrow> schedule \<Rightarrow> nat \<Rightarrow> 't \<Rightarrow> 't list" where
  "runs_from C s 0 now = []"
| "runs_from C s (Suc n) now = (case next_after C s now of None \<Rightarrow> [] | Some t \<Rightarrow> t # runs_from C s n t)"

definition preview :: "('d, 't) calendar \<Rightarrow> string \<Rightarrow> 't \<Rightarrow> job \<Rightarrow> string \<Rightarrow> nat \<Rightarrow> 't schedule_preview" where
  "preview C inst now job expr count =
     (if is_off expr then Preview_Disabled
      else case parse_schedule expr (job_seed inst (job_name job)) of
             Inl e \<Rightarrow> Preview_Invalid e
           | Inr s \<Rightarrow> (let at = runs_from C s count now in if at = [] then Preview_Never else Preview_Runs at))"

section \<open>Bit sets\<close>

lemma and_push_bit: "w AND push_bit n 1 \<noteq> 0 \<longleftrightarrow> bit (w :: 64 word) n"
  by (simp only: bit_iff_and_push_bit_not_eq_0)

lemma bits_of_set [simp]: "set (bits_of w) = {n. bit w n}"
  unfolding bits_of_def and_push_bit by (auto dest: bit_imp_le_length)

lemma sorted_bits_of: "sorted_wrt (<) (bits_of w)"
  by (simp add: bits_of_def sorted_wrt_filter)

lemma bit_or [simp]: "bit (v OR w :: 64 word) n \<longleftrightarrow> bit v n \<or> bit w n"
  by (simp add: bit_or_iff)

lemma bit_push_one: "bit (push_bit v 1 :: 64 word) n \<longleftrightarrow> n = v \<and> n < 64"
  by (auto simp only: bit_push_bit_iff possible_bit_word bit_1_iff) simp_all

lemma bit_with_bits [simp]: "bit (with_bits vs) n \<longleftrightarrow> n < 64 \<and> n \<in> set vs"
proof -
  have "bit (fold (\<lambda>v acc. acc OR push_bit v 1) vs w) n \<longleftrightarrow> bit w n \<or> n < 64 \<and> n \<in> set vs" for w :: "64 word"
  proof (induction vs arbitrary: w)
    case (Cons v vs)
    show ?case unfolding fold_Cons comp_apply Cons.IH bit_or bit_push_one by auto
  qed simp
  then show ?thesis by (simp add: with_bits_def)
qed

lemma step_by_upt: "0 < n \<Longrightarrow> step_by n [a..<b] = (if a < b then a # step_by n [a + n..<b] else [])"
  by (cases "a < b") (simp_all add: upt_conv_Cons)

lemma set_step_by: "0 < n \<Longrightarrow> set (step_by n [a..<b]) = {v. a \<le> v \<and> v < b \<and> n dvd v - a}"
proof (induction "b - a" arbitrary: a rule: less_induct)
  case less
  show ?case
  proof (cases "a < b")
    case True
    then have IH: "set (step_by n [a + n..<b]) = {v. a + n \<le> v \<and> v < b \<and> n dvd v - (a + n)}"
      using less by simp
    have "v = a \<or> a + n \<le> v \<and> n dvd v - (a + n)" if "a \<le> v" "n dvd v - a" for v
    proof (cases "v = a")
      case False
      with that have "n \<le> v - a" by (intro dvd_imp_le) auto
      then have "a + n \<le> v" using that by linarith
      moreover have "n dvd v - a - n" by (rule dvd_diff_nat) (use that in simp_all)
      ultimately show ?thesis by simp
    qed simp
    moreover have "n dvd v - a" if "a + n \<le> v" "n dvd v - (a + n)" for v
    proof -
      have "v - a = (v - (a + n)) + n" using that by simp
      with that show ?thesis by (metis dvd_add dvd_refl)
    qed
    ultimately show ?thesis using True less.prems by (subst step_by_upt) (auto simp: IH)
  qed (use less.prems in \<open>simp add: step_by_upt\<close>)
qed

section \<open>What an item covers\<close>

definition fields :: "field set" where "fields = {MINUTE, HOUR, DAY, MONTH, WEEKDAY}"

lemmas field_defs = MINUTE_def HOUR_def DAY_def MONTH_def WEEKDAY_def

lemma field_bounds:
  assumes "f \<in> fields"
  shows "fl_max f < 64" "snd (fl_hashed f) \<le> fl_max f" "fl_min f \<le> fst (fl_hashed f)" "fst (fl_hashed f) \<le> snd (fl_hashed f)"
  using assms by (auto simp: fields_def field_defs)

lemma field_value_bounds: "field_value s f = Some v \<Longrightarrow> fl_min f \<le> v \<and> v \<le> fl_max f"
  by (auto simp: field_value_def split: option.splits if_splits)

lemma hashed_range_bounds:
  assumes "f \<in> fields" and "hashed_range hashed f = Some (low, high)"
  shows "fl_min f \<le> low \<and> high \<le> fl_max f"
  using assms(2) field_bounds [OF assms(1)]
  by (auto simp: hashed_range_def bind_eq_Some_conv dest!: field_value_bounds split: if_splits)

text \<open>The range of an item is one of the field, except that a step near the end of 32 bits wraps.\<close>

lemma hashed_item_bounds:
  assumes "f \<in> fields" and "hashed_item hashed step f hash = Some (Between from to)" and "step \<noteq> Some 0"
  shows "from \<le> to \<and> to \<le> fl_max f"
proof -
  obtain low high where r: "hashed_range hashed f = Some (low, high)" "low \<le> high"
    using assms(2) by (auto simp: hashed_item_def bind_eq_Some_conv split: if_splits)
  have high: "high \<le> fl_max f" using hashed_range_bounds [OF assms(1) r(1)] by simp
  have "(low + unat hash mod (high - low + 1)) mod 2 ^ 32 \<le> high"
  proof -
    have "unat hash mod (high - low + 1) < high - low + 1" by (rule mod_less_divisor) simp
    then have "low + unat hash mod (high - low + 1) \<le> high" using r(2) by linarith
    then show ?thesis by (meson le_trans mod_less_eq_dividend)
  qed
  then show ?thesis using assms(2) r high
    by (auto simp: hashed_item_def Let_def split: option.splits if_splits)
qed

lemma plain_item_bounds:
  "f \<in> fields \<Longrightarrow> plain_item base step f = Some (Between from to) \<Longrightarrow> to \<le> fl_max f"
  by (auto simp: plain_item_def bind_eq_Some_conv dest!: field_value_bounds split: if_splits option.splits)

lemma split_step_pos: "split_step item = Some (base, step) \<Longrightarrow> step \<noteq> Some 0"
  by (auto simp: split_step_def split: option.splits if_splits)

definition item_range_of :: "string \<Rightarrow> field \<Rightarrow> 64 word \<Rightarrow> (item_range \<times> nat) option" where
  "item_range_of item f hash =
     Option.bind (split_step item) (\<lambda>(base, step).
       map_option (\<lambda>r. (r, case step of None \<Rightarrow> 1 | Some s \<Rightarrow> s))
         (if starts_with CHR ''H'' base \<or> starts_with CHR ''h'' base
          then hashed_item (tl base) step f hash else plain_item base step f))"

fun covered :: "item_range \<Rightarrow> nat \<Rightarrow> nat set" where
  "covered Nothing s = {}"
| "covered (Between from to) s = {v. from \<le> v \<and> v \<le> to \<and> s dvd v - from}"

lemma item_range_of_bounds:
  "f \<in> fields \<Longrightarrow> item_range_of item f hash = Some (r, s) \<Longrightarrow> 0 < s \<and> covered r s \<subseteq> {..fl_max f}"
  by (cases r) (auto simp: item_range_of_def bind_eq_Some_conv dest!: split_step_pos
      dest: hashed_item_bounds plain_item_bounds split: if_splits option.splits)

lemma parse_item_covers:
  assumes f: "f \<in> fields"
  shows "map_option (\<lambda>w. {n. bit w n}) (parse_item item f hash) =
    (case item_range_of item f hash of
       None \<Rightarrow> None
     | Some (Between from to, s) \<Rightarrow> if from > to then None else Some (covered (Between from to) s)
     | Some (Nothing, s) \<Rightarrow> Some {})"
proof (cases "item_range_of item f hash")
  case None
  then show ?thesis
    by (cases "split_step item") (auto simp: item_range_of_def parse_item_def)
next
  case (Some p)
  obtain r s where p: "p = (r, s)" by (cases p)
  note b = item_range_of_bounds [OF f Some [unfolded p]]
  obtain base step where i: "split_step item = Some (base, step)"
    "(if starts_with CHR ''H'' base \<or> starts_with CHR ''h'' base
          then hashed_item (tl base) step f hash else plain_item base step f) = Some r"
    "s = (case step of None \<Rightarrow> 1 | Some s \<Rightarrow> s)"
    using Some p by (auto simp: item_range_of_def bind_eq_Some_conv)
  have "{n. n < 64 \<and> n \<in> covered r s} = covered r s" using b field_bounds(1) [OF f] by auto
  then show ?thesis using Some p b i(1,3) unfolding parse_item_def
    by (auto simp: i(2) set_step_by less_Suc_eq_le simp del: upt_Suc split: item_range.splits)
qed

text \<open>Whether an item, a field or an expression is valid does not depend on the hash.\<close>

lemma hashed_item_None: "hashed_item hashed step f hash = None \<longleftrightarrow> hashed_item hashed step f hash' = None"
  by (cases "hashed_range hashed f") (auto simp: hashed_item_def Let_def split: option.splits if_splits prod.splits)

lemma parse_item_None:
  assumes f: "f \<in> fields"
  shows "parse_item item f hash = None \<longleftrightarrow> parse_item item f hash' = None"
proof (cases "split_step item")
  case (Some p)
  obtain base step where p: "p = (base, step)" by (cases p)
  note pos = split_step_pos [OF Some [unfolded p]]
  show ?thesis
  proof (cases "starts_with CHR ''H'' base \<or> starts_with CHR ''h'' base")
    case True
    have "parse_item item f h = None \<longleftrightarrow> hashed_item (tl base) step f h = None" for h
      using Some p True hashed_item_bounds [OF f _ pos, of "tl base" h]
      by (auto simp: parse_item_def split: item_range.splits bind_splits if_splits) 
    then show ?thesis using hashed_item_None by metis
  qed (simp add: parse_item_def Some p)
qed (simp add: parse_item_def)

lemma parse_items_Inr:
  "(\<exists>w. parse_items items f hash acc = Inr w) \<longleftrightarrow> (\<forall>item \<in> set items. parse_item item f hash \<noteq> None)"
  by (induction items arbitrary: acc) (auto split: option.splits)

lemma parse_field_valid:
  assumes "f \<in> fields"
  shows "(\<exists>w. parse_field s f hash = Inr w) \<longleftrightarrow> (\<exists>w. parse_field s f hash' = Inr w)"
  unfolding parse_field_def parse_items_Inr using parse_item_None [OF assms] by metis

lemma and_then_Inr: "and_then r f = Inr y \<longleftrightarrow> (\<exists>x. r = Inr x \<and> f x = Inr y)"
  by (cases r) (auto simp: and_then_def)

lemma fields_mem [simp]: "MINUTE \<in> fields" "HOUR \<in> fields" "DAY \<in> fields" "MONTH \<in> fields" "WEEKDAY \<in> fields"
  by (simp_all add: fields_def)

lemma parse_fields_valid:
  "(\<exists>s. parse_fields mi h d mo wd seed = Inr s) \<longleftrightarrow>
     (\<exists>w. parse_field wd WEEKDAY 0 = Inr w) \<and> (\<exists>w. parse_field mi MINUTE 0 = Inr w) \<and>
     (\<exists>w. parse_field h HOUR 0 = Inr w) \<and> (\<exists>w. parse_field d DAY 0 = Inr w) \<and> (\<exists>w. parse_field mo MONTH 0 = Inr w)"
proof -
  have "(\<exists>s. parse_fields mi h d mo wd seed = Inr s) \<longleftrightarrow>
     (\<exists>w. parse_field wd WEEKDAY (mix seed 4) = Inr w) \<and> (\<exists>w. parse_field mi MINUTE (mix seed 0) = Inr w) \<and>
     (\<exists>w. parse_field h HOUR (mix seed 1) = Inr w) \<and> (\<exists>w. parse_field d DAY (mix seed 2) = Inr w) \<and>
     (\<exists>w. parse_field mo MONTH (mix seed 3) = Inr w)"
    by (auto simp: parse_fields_def and_then_Inr)
  then show ?thesis
    by (simp only: parse_field_valid [OF fields_mem(1), of mi "mix seed 0" 0] parse_field_valid [OF fields_mem(2), of h "mix seed 1" 0]
        parse_field_valid [OF fields_mem(3), of d "mix seed 2" 0] parse_field_valid [OF fields_mem(4), of mo "mix seed 3" 0]
        parse_field_valid [OF fields_mem(5), of wd "mix seed 4" 0])
qed

lemma parse_with_valid:
  "(\<exists>s. parse_with wrong expr seed = Inr s) \<longleftrightarrow> (\<exists>s. parse_with wrong' expr seed' = Inr s)"
proof -
  have "(\<exists>s. parse_with wrong expr seed = Inr s) \<longleftrightarrow>
    (\<exists>e mi h d mo wd. expand (trim expr) = Some e \<and> split_whitespace e = [mi, h, d, mo, wd] \<and>
       (\<exists>s. parse_fields mi h d mo wd seed = Inr s))" for wrong seed
    by (auto simp: parse_with_def Let_def split: option.splits list.splits)
  then show ?thesis unfolding parse_fields_valid by simp
qed

text \<open>The bits of a parsed field.\<close>

lemma parse_items_bits:
  "parse_items items f hash acc = Inr w \<Longrightarrow>
     bit w n \<longleftrightarrow> bit acc n \<or> (\<exists>item \<in> set items. \<exists>v. parse_item item f hash = Some v \<and> bit v n)"
  by (induction items arbitrary: acc) (auto split: option.splits)

lemma parse_field_bound:
  assumes "f \<in> fields" "parse_field s f hash = Inr w" "bit w n"
  shows "n \<le> fl_max f"
proof -
  obtain item v where v: "parse_item item f hash = Some v" "bit v n"
    using parse_items_bits [OF assms(2) [unfolded parse_field_def], of n] assms(3) by auto
  then have "n \<in> {n. bit v n}" by simp
  also have "\<dots> \<subseteq> {..fl_max f}"
  proof (cases "item_range_of item f hash")
    case None
    then show ?thesis using parse_item_covers [OF assms(1), of item hash] v(1) by simp
  next
    case (Some p)
    then obtain r s where r: "item_range_of item f hash = Some (r, s)" by (cases p) auto
    then have "{n. bit v n} = covered r s"
      using parse_item_covers [OF assms(1), of item hash] v(1) by (cases r) (auto split: if_splits)
    then show ?thesis using item_range_of_bounds [OF assms(1) r] by simp
  qed
  finally show ?thesis by simp
qed

lemma bit_fold_sunday:
  assumes "\<And>n. bit w n \<Longrightarrow> n \<le> 7"
  shows "bit (fold_sunday w) n \<longleftrightarrow> n \<le> 6 \<and> (bit w n \<or> n = 0 \<and> bit w 7)"
proof -
  have "bit (NOT (push_bit 7 1) :: 64 word) n \<longleftrightarrow> n < 64 \<and> n \<noteq> 7"
    unfolding bit_not_iff bit_push_one by auto
  moreover have "bit (1 :: 64 word) n \<longleftrightarrow> n = 0" by (simp add: bit_1_iff)
  ultimately have "bit (fold_sunday w) n \<longleftrightarrow> (if bit w 7 then bit w n \<and> n \<noteq> 7 \<or> n = 0 else bit w n)"
    unfolding fold_sunday_def and_push_bit by (auto simp: bit_and_iff simp del: push_bit_of_1 dest: bit_imp_le_length)
  then show ?thesis using assms [of n] by (cases "n = 7") auto
qed

section \<open>The syntax and its meaning\<close>

text \<open>
  The items of a field in numbers, as crontab(5) and Jenkins describe them, how they are
  written, and the values they stand for.
\<close>

datatype atom = Every | Single nat | Span nat nat | Hashed "(nat \<times> nat) option"

type_synonym item = "atom \<times> nat option"

fun show_atom :: "atom \<Rightarrow> string" where
  "show_atom Every = ''*''"
| "show_atom (Single v) = show_nat v"
| "show_atom (Span l h) = show_nat l @ ''-'' @ show_nat h"
| "show_atom (Hashed None) = ''H''"
| "show_atom (Hashed (Some (l, h))) = ''H('' @ show_nat l @ ''-'' @ show_nat h @ '')''"

fun show_item :: "item \<Rightarrow> string" where
  "show_item (a, None) = show_atom a"
| "show_item (a, Some s) = show_atom a @ ''/'' @ show_nat s"

fun atom_ok :: "field \<Rightarrow> atom \<Rightarrow> bool" where
  "atom_ok f Every \<longleftrightarrow> True"
| "atom_ok f (Single v) \<longleftrightarrow> fl_min f \<le> v \<and> v \<le> fl_max f"
| "atom_ok f (Span l h) \<longleftrightarrow> fl_min f \<le> l \<and> l \<le> h \<and> h \<le> fl_max f"
| "atom_ok f (Hashed None) \<longleftrightarrow> True"
| "atom_ok f (Hashed (Some (l, h))) \<longleftrightarrow> fl_min f \<le> l \<and> l \<le> h \<and> h \<le> fl_max f"

definition item_ok :: "field \<Rightarrow> item \<Rightarrow> bool" where
  "item_ok f i \<longleftrightarrow> atom_ok f (fst i) \<and> (case snd i of None \<Rightarrow> True | Some s \<Rightarrow> 0 < s \<and> s \<le> u32_MAX - 64)"

definition every :: "nat \<Rightarrow> nat \<Rightarrow> nat \<Rightarrow> nat set" where
  "every s l h = {v. l \<le> v \<and> v \<le> h \<and> s dvd v - l}"

fun denotes :: "field \<Rightarrow> nat \<Rightarrow> item \<Rightarrow> nat set" where
  "denotes f hash (Every, step) = every (case step of None \<Rightarrow> 1 | Some s \<Rightarrow> s) (fl_min f) (fl_max f)"
| "denotes f hash (Single v, None) = {v}"
| "denotes f hash (Single v, Some s) = every s v (fl_max f)"
| "denotes f hash (Span l h, step) = every (case step of None \<Rightarrow> 1 | Some s \<Rightarrow> s) l h"
| "denotes f hash (Hashed r, step) =
     (let (l, h) = (case r of None \<Rightarrow> fl_hashed f | Some p \<Rightarrow> p)
      in case step of
           None \<Rightarrow> {l + hash mod (h - l + 1)}
         | Some s \<Rightarrow> every s (l + hash mod s) h)"

lemma show_nat_chars: "c \<in> set (show_nat n) \<Longrightarrow> is_ascii_digit c"
  using show_nat_digits [of n] by (simp add: list_all_iff)

lemma digit_chars [simp]:
  "CHR ''/'' \<notin> set (show_nat n)" "CHR ''-'' \<notin> set (show_nat n)" "CHR '','' \<notin> set (show_nat n)"
  "CHR ''H'' \<notin> set (show_nat n)" "CHR ''h'' \<notin> set (show_nat n)" "CHR ''*'' \<notin> set (show_nat n)"
  by (auto simp: is_ascii_digit_def dest!: show_nat_chars)

lemma show_atom_chars [simp]: "CHR ''/'' \<notin> set (show_atom a)" "CHR '','' \<notin> set (show_atom a)"
  by (cases a rule: show_atom.cases; simp)+

lemma show_item_no_comma: "CHR '','' \<notin> set (show_item i)"
  by (cases i rule: show_item.cases) simp_all

lemma split_once_found: "d \<notin> set p \<Longrightarrow> split_once d (p @ d # q) = Some (p, q)"
  by (simp add: split_once_def takeWhile_append2 dropWhile_append2)
    (metis (mono_tags, lifting) dropWhile.simps(2) dropWhile_append2 list.sel(3) takeWhile.simps(2) takeWhile_append2 append.right_neutral)

lemma split_once_missing: "d \<notin> set s \<Longrightarrow> split_once d s = None"
  by (simp add: split_once_def)

lemma parse_u32_show: "n \<le> u32_MAX \<Longrightarrow> parse_u32 (show_nat n) = Some n"
  by (simp add: parse_u32_def parse_u64_show u32_MAX_def u64_MAX_def)

lemma lowercase_show [simp]: "to_ascii_lowercase (show_nat n) = show_nat n"
proof -
  have "to_ascii_lowercase s = s" if "list_all is_ascii_digit s" for s
    using that by (induction s) (auto simp: to_ascii_lowercase_def is_ascii_digit_def)
  then show ?thesis using show_nat_digits by blast
qed

lemma position_of_None: "position_of x xs = None \<longleftrightarrow> x \<notin> set xs"
  by (induction xs) auto

lemma field_value_show:
  assumes "f \<in> fields" "fl_min f \<le> v" "v \<le> fl_max f"
  shows "field_value (show_nat v) f = Some v"
proof -
  have "list_all (\<lambda>name. \<not> list_all is_ascii_digit name) (fl_names f)"
    using assms(1) unfolding fields_def by (elim insertE) (simp_all add: field_defs is_ascii_digit_def)
  then have "show_nat v \<notin> set (fl_names f)" using show_nat_digits by (auto simp: list_all_iff)
  moreover have "parse_u32 (show_nat v) = Some v"
    by (rule parse_u32_show) (use assms field_bounds(1) [OF assms(1)] in \<open>simp add: u32_MAX_def\<close>)
  ultimately show ?thesis using assms by (simp add: field_value_def position_of_None [symmetric])
qed

lemma split_step_show:
  assumes "item_ok f (a, step)"
  shows "split_step (show_item (a, step)) = Some (show_atom a, step)"
proof (cases step)
  case (Some s)
  then have "0 < s" "parse_u32 (show_nat s) = Some s"
    using assms by (auto simp: item_ok_def intro!: parse_u32_show)
  then show ?thesis using Some by (simp add: split_step_def split_once_found)
qed (simp add: split_step_def split_once_missing)

lemma starts_show_nat [simp]: "\<not> starts_with CHR ''H'' (show_nat v @ r)" "\<not> starts_with CHR ''h'' (show_nat v @ r)"
  by (cases "show_nat v"; use digit_chars [of v] in \<open>auto simp: starts_with_def\<close>)+

lemma plain_show_nat [simp]: "\<not> starts_with CHR ''H'' (show_nat v)" "\<not> starts_with CHR ''h'' (show_nat v)"
  using starts_show_nat [of v "[]"] by simp_all

lemma show_nat_not_star [simp]: "show_nat v \<noteq> ''*''" "show_nat v @ r \<noteq> ''*''"
  by (cases "show_nat v"; use digit_chars [of v] in auto)+

lemma hashed_range_show:
  assumes "f \<in> fields" "fl_min f \<le> l" "l \<le> h" "h \<le> fl_max f"
  shows "hashed_range (''('' @ show_nat l @ ''-'' @ show_nat h @ '')'') f = Some (l, h)"
proof -
  have "strip_suffix '')'' (show_nat l @ CHR ''-'' # show_nat h @ '')'') = Some (show_nat l @ CHR ''-'' # show_nat h)"
    by (simp add: strip_suffix_def suffix_def)
  then show ?thesis
    using assms by (simp add: hashed_range_def strip_prefix_def split_once_found field_value_show)
qed

lemma item_range_of_show:
  assumes f: "f \<in> fields" and ok: "item_ok f (a, step)"
  shows "\<exists>r. item_range_of (show_item (a, step)) f hash = Some (r, case step of None \<Rightarrow> 1 | Some s \<Rightarrow> s) \<and>
    covered r (case step of None \<Rightarrow> 1 | Some s \<Rightarrow> s) = denotes f (unat hash) (a, step) \<and>
    (\<forall>l h. r = Between l h \<longrightarrow> l \<le> h)"
proof (cases a)
  case (Hashed r)
  obtain l h where lh: "hashed_range (tl (show_atom a)) f = Some (l, h)" "l \<le> h" "h \<le> fl_max f"
    "(case r of None \<Rightarrow> fl_hashed f | Some p \<Rightarrow> p) = (l, h)"
  proof (cases r)
    case None
    show thesis
      by (rule that [of "fst (fl_hashed f)" "snd (fl_hashed f)"])
        (use field_bounds [OF f] Hashed None in \<open>simp_all add: hashed_range_def\<close>)
  next
    case (Some p)
    then show thesis
      using that [of "fst p" "snd p"] ok Hashed hashed_range_show [OF f, of "fst p" "snd p"]
      by (cases p) (simp add: item_ok_def)
  qed
  have small: "(l + unat hash mod s) mod 2 ^ 32 = l + unat hash mod s" if "0 < s" "s \<le> u32_MAX - 64" for s
  proof -
    have "unat hash mod s < s" using that by simp
    moreover have "u32_MAX = 2 ^ 32 - 1" by (rule u32_MAX_def)
    ultimately have "l + unat hash mod s < 2 ^ 32" using that lh field_bounds(1) [OF f] by linarith
    then show ?thesis by (rule mod_less)
  qed
  have one: "h - l + 1 \<le> u32_MAX - 64" using lh field_bounds(1) [OF f] by (simp add: u32_MAX_def)
  have "starts_with CHR ''H'' (show_atom a)"
    using Hashed by (cases r) (auto simp: starts_with_def)
  then have run: "item_range_of (show_item (a, step)) f hash =
      map_option (\<lambda>r. (r, case step of None \<Rightarrow> 1 | Some s \<Rightarrow> s)) (hashed_item (tl (show_atom a)) step f hash)"
    unfolding item_range_of_def split_step_show [OF ok] by simp
  have span: "(l + unat hash mod (h - l + 1)) mod 2 ^ 32 = l + unat hash mod (h - l + 1)" by (rule small) (use one in simp_all)
  show ?thesis
  proof (cases step)
    case None
    have "hashed_item (tl (show_atom a)) step f hash =
        Some (Between (l + unat hash mod (h - l + 1)) (l + unat hash mod (h - l + 1)))"
      unfolding hashed_item_def lh(1) Let_def None using lh(2) span by simp
    with None Hashed lh(4) show ?thesis unfolding run by auto
  next
    case (Some s)
    then have s: "0 < s" "s \<le> u32_MAX - 64" using ok by (simp_all add: item_ok_def)
    have "hashed_item (tl (show_atom a)) step f hash =
        (if l + unat hash mod s > h then Some Nothing else Some (Between (l + unat hash mod s) h))"
      unfolding hashed_item_def lh(1) Let_def Some using lh(2) small [OF s] by simp
    with Some Hashed lh(4) show ?thesis unfolding run by (auto simp: every_def)
  qed
next
  case Every
  show ?thesis unfolding item_range_of_def split_step_show [OF ok] using field_bounds [OF f] Every
    by (auto simp: plain_item_def starts_with_def every_def)
next
  case (Single v)
  show ?thesis unfolding item_range_of_def split_step_show [OF ok] using ok f Single
    by (cases step) (auto simp: plain_item_def every_def item_ok_def split_once_missing field_value_show)
next
  case (Span l h)
  show ?thesis unfolding item_range_of_def split_step_show [OF ok] using ok f Span
    by (auto simp: plain_item_def every_def item_ok_def split_once_found field_value_show)
qed

lemma parse_item_show:
  assumes f: "f \<in> fields" and ok: "item_ok f i"
  shows "\<exists>w. parse_item (show_item i) f hash = Some w \<and> {n. bit w n} = denotes f (unat hash) i"
proof -
  obtain a step where i: "i = (a, step)" by (cases i)
  obtain r where "item_range_of (show_item i) f hash = Some (r, case step of None \<Rightarrow> 1 | Some s \<Rightarrow> s)"
    "covered r (case step of None \<Rightarrow> 1 | Some s \<Rightarrow> s) = denotes f (unat hash) i" "\<forall>l h. r = Between l h \<longrightarrow> l \<le> h"
    using item_range_of_show [OF f, of a step hash] ok i by auto
  then have "map_option (\<lambda>w. {n. bit w n}) (parse_item (show_item i) f hash) = Some (denotes f (unat hash) i)"
    unfolding parse_item_covers [OF f] by (cases r) auto
  then show ?thesis by auto
qed

section \<open>The times a schedule runs\<close>

fun day_after :: "('d, 't) calendar \<Rightarrow> 'd \<Rightarrow> nat \<Rightarrow> 'd option" where
  "day_after C day 0 = Some day"
| "day_after C day (Suc k) = Option.bind (cal_tomorrow C day) (\<lambda>day'. day_after C day' k)"

definition runs_within :: "('d, 't) calendar \<Rightarrow> schedule \<Rightarrow> nat \<Rightarrow> 'd \<Rightarrow> 't set" where
  "runs_within C s n day =
     {t. \<exists>k < n. \<exists>d h m. day_after C day k = Some d \<and> runs_on C s d \<and> bit (sc_hours s) h \<and> bit (sc_minutes s) m \<and>
           cal_at C d h m = Some t}"

text \<open>What is relied on of the calendar: every minute of a day is a time, and times are ordered as
  the days and minutes they are.\<close>

definition chronological :: "('d, 't) calendar \<Rightarrow> bool" where
  "chronological C \<longleftrightarrow>
     (\<forall>d h m. h < 24 \<and> m < 60 \<longrightarrow> (\<exists>t. cal_at C d h m = Some t)) \<and>
     (\<forall>d h m h' m' t t'. cal_at C d h m = Some t \<and> cal_at C d h' m' = Some t' \<and> (h < h' \<or> h = h' \<and> m < m') \<longrightarrow>
        cal_after C t' t) \<and>
     (\<forall>d d' h m h' m' t t'. cal_at C d h m = Some t \<and> cal_tomorrow C d = Some d' \<and> cal_at C d' h' m' = Some t' \<longrightarrow>
        cal_after C t' t) \<and>
     (\<forall>t t' t''. cal_after C t'' t' \<and> cal_after C t' t \<longrightarrow> cal_after C t'' t)"

lemma chronologicalD:
  assumes "chronological C"
  shows "h < 24 \<Longrightarrow> m < 60 \<Longrightarrow> \<exists>t. cal_at C d h m = Some t"
    and "cal_at C d h m = Some t \<Longrightarrow> cal_at C d h' m' = Some t' \<Longrightarrow> h < h' \<or> h = h' \<and> m < m' \<Longrightarrow> cal_after C t' t"
    and "cal_at C d h m = Some t \<Longrightarrow> cal_tomorrow C d = Some d' \<Longrightarrow> cal_at C d' h' m' = Some t' \<Longrightarrow> cal_after C t' t"
    and "cal_after C t'' t' \<Longrightarrow> cal_after C t' t \<Longrightarrow> cal_after C t'' t"
proof -
  note c = assms [unfolded chronological_def]
  note c1 = c [THEN conjunct1] and c2 = c [THEN conjunct2, THEN conjunct1]
    and c3 = c [THEN conjunct2, THEN conjunct2, THEN conjunct1] and c4 = c [THEN conjunct2, THEN conjunct2, THEN conjunct2]
  show "h < 24 \<Longrightarrow> m < 60 \<Longrightarrow> \<exists>t. cal_at C d h m = Some t" using c1 by simp
  show "cal_at C d h m = Some t \<Longrightarrow> cal_at C d h' m' = Some t' \<Longrightarrow> h < h' \<or> h = h' \<and> m < m' \<Longrightarrow> cal_after C t' t"
    using c2 by blast
  show "cal_at C d h m = Some t \<Longrightarrow> cal_tomorrow C d = Some d' \<Longrightarrow> cal_at C d' h' m' = Some t' \<Longrightarrow> cal_after C t' t"
    using c3 by blast
  show "cal_after C t'' t' \<Longrightarrow> cal_after C t' t \<Longrightarrow> cal_after C t'' t" using c4 by blast
qed

definition clock_bounds :: "schedule \<Rightarrow> bool" where
  "clock_bounds s \<longleftrightarrow> (\<forall>h. bit (sc_hours s) h \<longrightarrow> h < 24) \<and> (\<forall>m. bit (sc_minutes s) m \<longrightarrow> m < 60)"

definition times_on :: "('d, 't) calendar \<Rightarrow> schedule \<Rightarrow> 'd \<Rightarrow> 't list" where
  "times_on C s day = map (\<lambda>(h, m). the (cal_at C day h m)) (day_times s)"

fun slots :: "('d, 't) calendar \<Rightarrow> schedule \<Rightarrow> nat \<Rightarrow> 'd \<Rightarrow> 't list" where
  "slots C s 0 day = []"
| "slots C s (Suc n) day =
     (if runs_on C s day then times_on C s day else []) @
     (case cal_tomorrow C day of None \<Rightarrow> [] | Some day' \<Rightarrow> slots C s n day')"

lemma day_times_set: "(h, m) \<in> set (day_times s) \<longleftrightarrow> bit (sc_hours s) h \<and> bit (sc_minutes s) m"
  by (simp add: day_times_def)

lemma day_times_at:
  assumes "chronological C" "clock_bounds s" "(h, m) \<in> set (day_times s)"
  shows "\<exists>t. cal_at C d h m = Some t"
  using assms(2,3) chronologicalD(1) [OF assms(1)] by (simp add: day_times_set clock_bounds_def)

lemma times_on_mem:
  assumes "chronological C" "clock_bounds s"
  shows "t \<in> set (times_on C s d) \<longleftrightarrow> (\<exists>h m. bit (sc_hours s) h \<and> bit (sc_minutes s) m \<and> cal_at C d h m = Some t)"
proof -
  have "t \<in> set (times_on C s d) \<longleftrightarrow> (\<exists>h m. (h, m) \<in> set (day_times s) \<and> t = the (cal_at C d h m))"
    by (auto simp: times_on_def)
  also have "\<dots> \<longleftrightarrow> (\<exists>h m. (h, m) \<in> set (day_times s) \<and> cal_at C d h m = Some t)"
    using day_times_at [OF assms, of _ _ d] by (metis option.sel)
  finally show ?thesis by (simp add: day_times_set)
qed

lemma find_append: "find P (xs @ ys) = (case find P xs of None \<Rightarrow> find P ys | Some x \<Rightarrow> Some x)"
  by (induction xs) auto

lemma first_after_find:
  assumes "\<And>h m. (h, m) \<in> set hms \<Longrightarrow> \<exists>t. cal_at C day h m = Some t"
  shows "first_after C now day hms =
    map_option Some (find (\<lambda>t. cal_after C t now) (map (\<lambda>(h, m). the (cal_at C day h m)) hms))"
  using assms
proof (induction hms)
  case (Cons p hms)
  obtain h m where p: "p = (h, m)" by (cases p)
  obtain t where "cal_at C day h m = Some t" using Cons.prems [of h m] p by auto
  moreover have "\<And>h m. (h, m) \<in> set hms \<Longrightarrow> \<exists>t. cal_at C day h m = Some t" using Cons.prems by simp
  ultimately show ?case using Cons.IH p by simp
qed simp

lemma next_from_find:
  assumes C: "chronological C" and s: "clock_bounds s"
  shows "next_from C s now n day = find (\<lambda>t. cal_after C t now) (slots C s n day)"
proof (induction n arbitrary: day)
  case (Suc n)
  have "first_after C now day (day_times s) = map_option Some (find (\<lambda>t. cal_after C t now) (times_on C s day))"
    unfolding times_on_def by (rule first_after_find [OF day_times_at [OF C s]])
  then show ?case using Suc by (auto simp: find_append split: option.splits)
qed simp

lemma set_slots:
  assumes C: "chronological C" and s: "clock_bounds s"
  shows "set (slots C s n day) = runs_within C s n day"
proof (induction n arbitrary: day)
  case (Suc n)
  have "runs_within C s (Suc n) day =
      {t \<in> set (times_on C s day). runs_on C s day} \<union>
      (case cal_tomorrow C day of None \<Rightarrow> {} | Some d' \<Rightarrow> runs_within C s n d')"
    unfolding runs_within_def Ex_less_Suc2 by (auto simp: times_on_mem [OF C s] split: option.splits)
  then show ?case using Suc by (auto split: option.splits)
qed (simp add: runs_within_def)

lemma day_after_later:
  assumes C: "chronological C" and total: "\<And>d. \<exists>t. cal_at C d 0 0 = Some t"
  shows "day_after C day k = Some d \<Longrightarrow> cal_at C d h m = Some t \<Longrightarrow> cal_tomorrow C day0 = Some day \<Longrightarrow>
    cal_at C day0 h0 m0 = Some t0 \<Longrightarrow> cal_after C t t0"
proof (induction k arbitrary: day day0 h0 m0 t0)
  case 0
  then show ?case using chronologicalD(3) [OF C] by auto
next
  case (Suc k)
  obtain d' where d': "cal_tomorrow C day = Some d'" "day_after C d' k = Some d"
    using Suc.prems(1) by (auto simp: bind_eq_Some_conv)
  obtain u where u: "cal_at C day 0 0 = Some u" using total by blast
  have "cal_after C t u" by (rule Suc.IH [OF d'(2) Suc.prems(2) d'(1) u])
  moreover have "cal_after C u t0" by (rule chronologicalD(3) [OF C Suc.prems(4,3) u])
  ultimately show ?case by (rule chronologicalD(4) [OF C])
qed

lemma sorted_times_on:
  assumes C: "chronological C" and s: "clock_bounds s"
  shows "sorted_wrt (\<lambda>t t'. cal_after C t' t) (times_on C s day)"
proof -
  have lex: "sorted_wrt (\<lambda>(h, m) (h', m'). h < h' \<or> h = h' \<and> m < m') (List.product xs ys)"
    if "sorted_wrt (<) xs" "sorted_wrt (<) ys" for xs ys :: "nat list"
    using that by (induction xs) (auto simp: sorted_wrt_append sorted_wrt_map)
  have "sorted_wrt (\<lambda>(h, m) (h', m'). h < h' \<or> h = h' \<and> m < m') (day_times s)"
    unfolding day_times_def by (intro lex sorted_bits_of)
  moreover have "(\<lambda>(h, m) (h', m'). h < h' \<or> h = h' \<and> m < m') x y \<Longrightarrow>
      cal_after C (case y of (h, m) \<Rightarrow> the (cal_at C day h m)) (case x of (h, m) \<Rightarrow> the (cal_at C day h m))"
    if xy: "x \<in> set (day_times s)" "y \<in> set (day_times s)" for x y
  proof -
    obtain h m h' m' where [simp]: "x = (h, m)" "y = (h', m')" by (cases x, cases y)
    obtain t t' where "cal_at C day h m = Some t" "cal_at C day h' m' = Some t'"
      using day_times_at [OF C s] xy by (metis \<open>x = (h, m)\<close> \<open>y = (h', m')\<close>)
    then show "(\<lambda>(h, m) (h', m'). h < h' \<or> h = h' \<and> m < m') x y \<Longrightarrow>
      cal_after C (case y of (h, m) \<Rightarrow> the (cal_at C day h m)) (case x of (h, m) \<Rightarrow> the (cal_at C day h m))"
      using chronologicalD(2) [OF C] by simp
  qed
  ultimately show ?thesis unfolding times_on_def sorted_wrt_map by (rule sorted_wrt_mono_rel [rotated])
qed

lemma sorted_slots:
  assumes C: "chronological C" and s: "clock_bounds s"
  shows "sorted_wrt (\<lambda>t t'. cal_after C t' t) (slots C s n day)"
proof (induction n arbitrary: day)
  case (Suc n)
  have "cal_after C t' t"
    if t: "t \<in> set (times_on C s day)" and d': "cal_tomorrow C day = Some d'" and t': "t' \<in> set (slots C s n d')" for t t' d'
  proof -
    obtain h m where at: "cal_at C day h m = Some t" using t unfolding times_on_mem [OF C s] by blast
    obtain k d h' m' where "day_after C d' k = Some d" "cal_at C d h' m' = Some t'"
      using t' unfolding set_slots [OF C s] by (auto simp: runs_within_def)
    then show ?thesis
      using day_after_later [OF C _ _ _ d' at] chronologicalD(1) [OF C, of 0 0] by auto
  qed
  then show ?case using Suc sorted_times_on [OF C s] by (auto simp: sorted_wrt_append split: option.splits)
qed simp

lemma find_sorted: "find P xs = Some x \<Longrightarrow> sorted_wrt R xs \<Longrightarrow> y \<in> set xs \<Longrightarrow> P y \<Longrightarrow> y = x \<or> R x y"
  by (induction xs) (auto split: if_splits)

lemma next_after_spec:
  assumes "chronological C" "clock_bounds s"
  shows "case next_after C s now of
      None \<Rightarrow> \<forall>t \<in> runs_within C s HORIZON_DAYS (cal_date C now). \<not> cal_after C t now
    | Some t \<Rightarrow> t \<in> runs_within C s HORIZON_DAYS (cal_date C now) \<and> cal_after C t now \<and>
        (\<forall>t' \<in> runs_within C s HORIZON_DAYS (cal_date C now). cal_after C t' now \<longrightarrow> t' = t \<or> cal_after C t' t)"
  unfolding next_after_def next_from_find [OF assms] set_slots [OF assms, symmetric]
  using find_sorted [OF _ sorted_slots [OF assms]]
  by (auto simp: find_None_iff dest: find_Some_mem split: option.splits)

section \<open>Expressions\<close>

lemma split_space_clean: "list_all (\<lambda>c. \<not> is_whitespace c) w \<Longrightarrow> split_space w = [w]"
  by (induction w) auto

lemma split_space_neq_Nil [simp]: "split_space s \<noteq> []"
  by (induction s) (auto split: list.splits)

lemma split_space_append:
  "list_all (\<lambda>c. \<not> is_whitespace c) w \<Longrightarrow> split_space (w @ CHR '' '' # s) = w # split_space s"
  by (induction w) auto

definition token :: "string \<Rightarrow> bool" where
  "token w \<longleftrightarrow> w \<noteq> [] \<and> list_all (\<lambda>c. \<not> is_whitespace c) w"

lemma split_whitespace_join: "list_all token ws \<Longrightarrow> split_whitespace (join '' '' ws) = ws"
proof (induction "'' ''" ws rule: join.induct)
  case (2 w)
  then show ?case by (simp add: split_whitespace_def token_def split_space_clean)
next
  case (3 w v va)
  then show ?case by (simp add: split_whitespace_def token_def split_space_append)
qed (simp add: split_whitespace_def)

lemma join_words_trimmed:
  assumes "list_all token ws" "ws \<noteq> []"
  shows "trim (join '' '' ws) = join '' '' ws" "hd (join '' '' ws) = hd (hd ws)" "join '' '' ws \<noteq> []"
proof -
  have "join '' '' ws \<noteq> [] \<and> hd (join '' '' ws) = hd (hd ws) \<and> last (join '' '' ws) = last (last ws)"
    using assms
  proof (induction "'' ''" ws rule: join.induct)
    case (3 w v va)
    then show ?case by (auto simp: token_def)
  qed (auto simp: token_def)
  moreover have "\<not> is_whitespace (hd (hd ws))" "\<not> is_whitespace (last (last ws))"
    using assms unfolding token_def list_all_iff by (metis hd_in_set last_in_set)+
  ultimately show "trim (join '' '' ws) = join '' '' ws" "hd (join '' '' ws) = hd (hd ws)" "join '' '' ws \<noteq> []"
    by (auto intro!: trim_trimmed simp: trimmed_def)
qed

lemma to_ascii_lowercase_Cons:
  "to_ascii_lowercase (c # cs) =
     (if 65 \<le> (of_char c :: nat) \<and> (of_char c :: nat) \<le> 90 then char_of (of_char c + (32 :: nat)) else c) #
     to_ascii_lowercase cs"
  by (simp add: to_ascii_lowercase_def)

lemma expand_plain:
  assumes "s \<noteq> []" "hd s \<noteq> CHR ''@''"
  shows "expand s = Some s"
proof -
  obtain c cs where s: "s = c # cs" using assms(1) by (cases s) auto
  have "to_ascii_lowercase s \<noteq> CHR ''@'' # r" for r
  proof -
    have "char_of (of_char c + (32 :: nat)) \<noteq> CHR ''@''" if "65 \<le> (of_char c :: nat)" "(of_char c :: nat) \<le> 90"
    proof
      assume "char_of (of_char c + (32 :: nat)) = CHR ''@''"
      then have "of_char (char_of (of_char c + (32 :: nat))) = (64 :: nat)" by simp
      then show False using that by simp
    qed
    then show ?thesis using assms(2) s by (auto simp: to_ascii_lowercase_Cons)
  qed
  then show ?thesis using assms(2) s by (simp add: expand_def starts_with_def Let_def)
qed

text \<open>A field as it is written from its items.\<close>

definition show_field :: "item list \<Rightarrow> string" where
  "show_field items = join '','' (map show_item items)"

lemma show_item_chars:
  "c \<in> set (show_item i) \<Longrightarrow> is_ascii_digit c \<or> c \<in> {CHR ''*'', CHR ''-'', CHR ''/'', CHR ''H'', CHR ''('', CHR '')''}"
proof -
  have "c \<in> set (show_atom a) \<Longrightarrow> is_ascii_digit c \<or> c \<in> {CHR ''*'', CHR ''-'', CHR ''H'', CHR ''('', CHR '')''}" for a
    by (cases a rule: show_atom.cases) (auto dest: show_nat_chars)
  then show "c \<in> set (show_item i) \<Longrightarrow>
      is_ascii_digit c \<or> c \<in> {CHR ''*'', CHR ''-'', CHR ''/'', CHR ''H'', CHR ''('', CHR '')''}"
    by (cases i rule: show_item.cases) (auto dest: show_nat_chars)
qed

lemma show_item_neq_Nil [simp]: "show_item i \<noteq> []"
proof -
  have "show_atom a \<noteq> []" for a by (cases a rule: show_atom.cases) auto
  then show ?thesis by (cases i rule: show_item.cases) auto
qed

lemma set_join: "set (join sep ws) \<subseteq> set sep \<union> \<Union> (set ` set ws)"
  by (induction sep ws rule: join.induct) auto

lemma show_field_chars:
  "c \<in> set (show_field items) \<Longrightarrow>
     is_ascii_digit c \<or> c \<in> {CHR '','', CHR ''*'', CHR ''-'', CHR ''/'', CHR ''H'', CHR ''('', CHR '')''}"
  using set_join [of "'',''" "map show_item items"] show_item_chars by (fastforce simp: show_field_def)

lemma show_field_word: "items \<noteq> [] \<Longrightarrow> token (show_field items)"
proof -
  assume "items \<noteq> []"
  then have "show_field items \<noteq> []"
    unfolding show_field_def by (cases items; cases "tl items") auto
  moreover have "\<not> is_whitespace c" if "c \<in> set (show_field items)" for c
    using show_field_chars [OF that] by (auto dest: digit_not_space simp: is_whitespace_def)
  ultimately show ?thesis by (simp add: token_def list_all_iff)
qed

lemma parse_field_show:
  assumes f: "f \<in> fields" and "items \<noteq> []" and ok: "\<forall>i \<in> set items. item_ok f i"
  shows "\<exists>w. parse_field (show_field items) f hash = Inr w \<and> {n. bit w n} = (\<Union>i \<in> set items. denotes f (unat hash) i)"
proof -
  have split: "split_on CHR '','' (show_field items) = map show_item items"
    unfolding show_field_def using assms(2) show_item_no_comma by (intro split_on_join) auto
  have each: "\<exists>w. parse_item (show_item i) f hash = Some w \<and> {n. bit w n} = denotes f (unat hash) i"
    if "i \<in> set items" for i
    using that ok parse_item_show [OF f] by blast
  then have "\<exists>w. parse_items (map show_item items) f hash 0 = Inr w"
    unfolding parse_items_Inr by fastforce
  then obtain w where w: "parse_items (map show_item items) f hash 0 = Inr w" by blast
  have "bit w n \<longleftrightarrow> (\<exists>i \<in> set items. n \<in> denotes f (unat hash) i)" for n
  proof -
    have "(\<exists>v. parse_item (show_item i) f hash = Some v \<and> bit v n) \<longleftrightarrow> n \<in> denotes f (unat hash) i"
      if "i \<in> set items" for i
      using each [OF that] by auto
    then show ?thesis using parse_items_bits [OF w, of n] by auto
  qed
  then show ?thesis using w by (auto simp: parse_field_def split)
qed

definition write_schedule :: "item list \<Rightarrow> item list \<Rightarrow> item list \<Rightarrow> item list \<Rightarrow> item list \<Rightarrow> string" where
  "write_schedule mi h d mo wd = join '' '' (map show_field [mi, h, d, mo, wd])"

definition writable :: "field \<Rightarrow> item list \<Rightarrow> bool" where
  "writable f items \<longleftrightarrow> items \<noteq> [] \<and> (\<forall>i \<in> set items. item_ok f i)"

definition field_values :: "field \<Rightarrow> 64 word \<Rightarrow> item list \<Rightarrow> nat set" where
  "field_values f hash items = (\<Union>i \<in> set items. denotes f (unat hash) i)"

lemma fold_sunday_mod:
  assumes le: "\<And>n. bit w n \<Longrightarrow> n \<le> 7"
  shows "{n. bit (fold_sunday w) n} = (\<lambda>w. w mod 7) ` {n. bit w n}"
proof -
  have "n \<le> 6 \<and> (bit w n \<or> n = 0 \<and> bit w 7) \<longleftrightarrow> (\<exists>m. bit w m \<and> n = m mod 7)" for n
  proof
    assume "n \<le> 6 \<and> (bit w n \<or> n = 0 \<and> bit w 7)"
    then show "\<exists>m. bit w m \<and> n = m mod 7" by (cases "bit w n") (auto intro: exI [of _ n] exI [of _ 7])
  next
    assume "\<exists>m. bit w m \<and> n = m mod 7"
    then obtain m where m: "bit w m" "n = m mod 7" by blast
    then show "n \<le> 6 \<and> (bit w n \<or> n = 0 \<and> bit w 7)" using le [of m] by (cases "m = 7") auto
  qed
  then show ?thesis using bit_fold_sunday [OF le] by (auto simp: image_iff)
qed

lemma parse_written:
  assumes ok: "writable MINUTE mi" "writable HOUR h" "writable DAY d" "writable MONTH mo" "writable WEEKDAY wd"
  shows "\<exists>s. parse_schedule (write_schedule mi h d mo wd) seed = Inr s \<and>
    {n. bit (sc_minutes s) n} = field_values MINUTE (mix seed 0) mi \<and>
    {n. bit (sc_hours s) n} = field_values HOUR (mix seed 1) h \<and>
    {n. bit (sc_days s) n} = field_values DAY (mix seed 2) d \<and>
    {n. bit (sc_months s) n} = field_values MONTH (mix seed 3) mo \<and>
    {n. bit (sc_weekdays s) n} = (\<lambda>w. w mod 7) ` field_values WEEKDAY (mix seed 4) wd \<and>
    (sc_any_day s \<longleftrightarrow> starts_with CHR ''*'' (show_field d)) \<and>
    (sc_any_weekday s \<longleftrightarrow> starts_with CHR ''*'' (show_field wd))"
proof -
  let ?ws = "map show_field [mi, h, d, mo, wd]"
  have words: "list_all token ?ws" using ok by (simp add: writable_def show_field_word)
  have split: "split_whitespace (write_schedule mi h d mo wd) = ?ws"
    unfolding write_schedule_def by (rule split_whitespace_join [OF words])
  have t: "trim (write_schedule mi h d mo wd) = write_schedule mi h d mo wd"
    and ne: "write_schedule mi h d mo wd \<noteq> []" and hd: "hd (write_schedule mi h d mo wd) = hd (show_field mi)"
    using join_words_trimmed [OF words] by (simp_all add: write_schedule_def)
  have "show_field mi \<noteq> []" using words by (simp add: token_def)
  then have "hd (show_field mi) \<noteq> CHR ''@''"
    using show_field_chars [of "hd (show_field mi)" mi] by (auto simp: is_ascii_digit_def)
  then have e: "expand (write_schedule mi h d mo wd) = Some (write_schedule mi h d mo wd)"
    using ne hd by (intro expand_plain) auto
  have field: "\<exists>w. parse_field (show_field items) f hash = Inr w \<and> {n. bit w n} = field_values f hash items"
    if "f \<in> fields" "writable f items" for f items hash
    using parse_field_show [OF that(1)] that(2) by (simp add: writable_def field_values_def)
  obtain wmi where mi: "parse_field (show_field mi) MINUTE (mix seed 0) = Inr wmi" "{n. bit wmi n} = field_values MINUTE (mix seed 0) mi"
    using field [of MINUTE mi] ok by auto
  obtain wh where h: "parse_field (show_field h) HOUR (mix seed 1) = Inr wh" "{n. bit wh n} = field_values HOUR (mix seed 1) h"
    using field [of HOUR h] ok by auto
  obtain wdy where d: "parse_field (show_field d) DAY (mix seed 2) = Inr wdy" "{n. bit wdy n} = field_values DAY (mix seed 2) d"
    using field [of DAY d] ok by auto
  obtain wmo where mo: "parse_field (show_field mo) MONTH (mix seed 3) = Inr wmo" "{n. bit wmo n} = field_values MONTH (mix seed 3) mo"
    using field [of MONTH mo] ok by auto
  obtain ww where wd: "parse_field (show_field wd) WEEKDAY (mix seed 4) = Inr ww" "{n. bit ww n} = field_values WEEKDAY (mix seed 4) wd"
    using field [of WEEKDAY wd] ok by auto
  have "n \<le> 7" if "bit ww n" for n
    using parse_field_bound [OF fields_mem(5) wd(1) that] by (simp add: WEEKDAY_def)
  then have "{n. bit (fold_sunday ww) n} = (\<lambda>w. w mod 7) ` {n. bit ww n}" by (rule fold_sunday_mod)
  then show ?thesis
    using mi h d mo wd
    by (simp add: parse_schedule_def parse_with_def t e split parse_fields_def and_then_def)
qed

lemma parse_schedule_bounds:
  assumes "parse_schedule expr seed = Inr s"
  shows "bit (sc_minutes s) n \<Longrightarrow> n \<le> 59" "bit (sc_hours s) n \<Longrightarrow> n \<le> 23" "bit (sc_days s) n \<Longrightarrow> n \<le> 31"
    "bit (sc_months s) n \<Longrightarrow> n \<le> 12" "bit (sc_weekdays s) n \<Longrightarrow> n \<le> 6"
proof -
  obtain mi h d mo wd where "parse_fields mi h d mo wd seed = Inr s"
    using assms by (auto simp: parse_schedule_def parse_with_def Let_def split: option.splits list.splits)
  then obtain ww where f: "parse_field wd WEEKDAY (mix seed 4) = Inr ww" "sc_weekdays s = fold_sunday ww"
    "parse_field mi MINUTE (mix seed 0) = Inr (sc_minutes s)" "parse_field h HOUR (mix seed 1) = Inr (sc_hours s)"
    "parse_field d DAY (mix seed 2) = Inr (sc_days s)" "parse_field mo MONTH (mix seed 3) = Inr (sc_months s)"
    by (auto simp: parse_fields_def and_then_Inr)
  note bound = parse_field_bound [OF fields_mem(5) f(1)] parse_field_bound [OF fields_mem(1) f(3)]
    parse_field_bound [OF fields_mem(2) f(4)] parse_field_bound [OF fields_mem(3) f(5)] parse_field_bound [OF fields_mem(4) f(6)]
  show "bit (sc_minutes s) n \<Longrightarrow> n \<le> 59" "bit (sc_hours s) n \<Longrightarrow> n \<le> 23" "bit (sc_days s) n \<Longrightarrow> n \<le> 31"
    "bit (sc_months s) n \<Longrightarrow> n \<le> 12"
    using bound(2-5) [of n] by (simp_all add: field_defs)
  have "n \<le> 7" if "bit ww n" for n using bound(1) [OF that] by (simp add: WEEKDAY_def)
  then show "bit (sc_weekdays s) n \<Longrightarrow> n \<le> 6" unfolding f(2) using bit_fold_sunday [of ww n] by simp
qed

lemma parse_schedule_clock:
  assumes "parse_schedule expr seed = Inr s"
  shows "clock_bounds s"
proof -
  have "h < 24" if "bit (sc_hours s) h" for h using parse_schedule_bounds(2) [OF assms that] by simp
  moreover have "m < 60" if "bit (sc_minutes s) m" for m using parse_schedule_bounds(1) [OF assms that] by simp
  ultimately show ?thesis by (simp add: clock_bounds_def)
qed

lemma from_seconds_valid:
  assumes "from_seconds_syntax expr = Some e"
  shows "\<exists>s. parse_schedule e seed = Inr s"
proof -
  obtain t where "(case parse_with WrongFieldCount t 0 of Inl _ \<Rightarrow> None | Inr _ \<Rightarrow> Some t) = Some e"
    using assms unfolding from_seconds_syntax_def Let_def by (auto simp: bind_eq_Some_conv simp del: join.simps)
  then have "\<exists>s. parse_with WrongFieldCount e 0 = Inr s" by (cases "parse_with WrongFieldCount t 0") auto
  then show ?thesis unfolding parse_schedule_def by (subst parse_with_valid [of _ _ _ WrongFieldCount 0])
qed

lemma runs_from_later:
  assumes C: "chronological C" and s: "clock_bounds s"
  shows "sorted_wrt (\<lambda>t t'. cal_after C t' t) (now # runs_from C s n now)"
proof (induction n arbitrary: now)
  case (Suc n)
  show ?case
  proof (cases "next_after C s now")
    case (Some t)
    then have "cal_after C t now" using next_after_spec [OF C s, of now] by simp
    then show ?thesis using Suc [of t] Some chronologicalD(4) [OF C] by auto
  qed simp
qed simp

lemma runs_on_iff:
  "runs_on C s day \<longleftrightarrow> bit (sc_months s) (cal_month C day) \<and>
     (if \<not> sc_any_day s \<and> \<not> sc_any_weekday s
      then bit (sc_days s) (cal_day C day) \<or> bit (sc_weekdays s) (cal_weekday C day)
      else bit (sc_days s) (cal_day C day) \<and> bit (sc_weekdays s) (cal_weekday C day))"
proof -
  have "w AND push_bit n 1 = 0 \<longleftrightarrow> \<not> bit w n" for w :: "64 word" and n using and_push_bit by blast
  then show ?thesis unfolding runs_on_def Let_def by presburger
qed

text \<open>A step of \<^verbatim>\<open>H\<close> close to the end of 32 bits wraps: the picked start lies below the range.\<close>

lemma hashed_step_wraps: "\<exists>w. parse_item ''H(5-59)/4294967295'' MINUTE 4294967294 = Some w \<and> {n. bit w n} = {3}"
proof -
  have written: "''H(5-59)/4294967295'' = show_atom (Hashed (Some (5, 59))) @ CHR ''/'' # show_nat 4294967295"
    by (simp add: show_nat.simps digit_char_def char_of_def bit_0)
  have atom: "show_atom (Hashed (Some (5, 59))) = ''H(5-59)''"
    by (simp add: show_nat.simps digit_char_def char_of_def bit_0)
  have "parse_u32 (show_nat 4294967295) = Some 4294967295" by (rule parse_u32_show) (simp add: u32_MAX_def)
  then have "split_step ''H(5-59)/4294967295'' = Some (''H(5-59)'', Some 4294967295)"
    unfolding split_step_def written split_once_found [OF show_atom_chars(1)] by (simp add: atom del: show_atom.simps)
  moreover have "hashed_range (tl (show_atom (Hashed (Some (5, 59))))) MINUTE = Some (5, 59)"
    using hashed_range_show [of MINUTE 5 59] by (simp add: MINUTE_def fields_def)
  then have "hashed_range ''(5-59)'' MINUTE = Some (5, 59)" by (simp only: atom list.sel)
  ultimately have "item_range_of ''H(5-59)/4294967295'' MINUTE 4294967294 = Some (Between 3 59, 4294967295)"
    by (simp add: item_range_of_def starts_with_def hashed_item_def)
  then have "map_option (\<lambda>w. {n. bit w n}) (parse_item ''H(5-59)/4294967295'' MINUTE 4294967294) =
      Some (covered (Between 3 59) 4294967295)"
    unfolding parse_item_covers [OF fields_mem(1)] by simp
  moreover have "covered (Between 3 59) 4294967295 = {3}"
  proof -
    have "v - 3 = 0" if "v \<le> 59" "4294967295 dvd v - 3" for v :: nat
      using that dvd_imp_le [of 4294967295 "v - 3"] by linarith
    then show ?thesis by fastforce
  qed
  ultimately show ?thesis by auto
qed

section \<open>Properties\<close>

text \<open>A clock in minutes, whose months have 31 days.\<close>

definition minute_clock :: "(nat, nat) calendar" where
  "minute_clock = \<lparr>cal_date = (\<lambda>t. t div 1440), cal_month = (\<lambda>d. d div 31 mod 12 + 1), cal_day = (\<lambda>d. d mod 31 + 1),
     cal_weekday = (\<lambda>d. d mod 7), cal_tomorrow = (\<lambda>d. Some (d + 1)),
     cal_at = (\<lambda>d h m. if h < 24 \<and> m < 60 then Some (d * 1440 + h * 60 + m) else None), cal_after = (\<lambda>t t'. t' < t)\<rparr>"

lemma minute_clock_chronological: "chronological minute_clock"
  by (auto simp: chronological_def minute_clock_def split: if_splits)



text \<open>A schedule names only times there are: whatever was parsed, its minutes are below 60, its hours
  below 24, its days at most 31, its months at most 12 and its weekdays at most Saturday, so every
  bit fits its set and every time it is asked for is a time of day.\<close>

theorem schedule_in_range:
  assumes "parse_schedule expr seed = Inr s"
  shows "set (bits_of (sc_minutes s)) \<subseteq> {..59} \<and> set (bits_of (sc_hours s)) \<subseteq> {..23} \<and>
    set (bits_of (sc_days s)) \<subseteq> {..31} \<and> set (bits_of (sc_months s)) \<subseteq> {..12} \<and> set (bits_of (sc_weekdays s)) \<subseteq> {..6}"
  using parse_schedule_bounds [OF assms] by auto

theorem schedule_in_range_witness:
  "\<exists>s. parse_schedule ''H H * * 5-7'' 1 = Inr s \<and> set (bits_of (sc_weekdays s)) \<subseteq> {..6}"
proof -
  let ?H = "[(Hashed None, None)]" and ?any = "[(Every, None)]" and ?wd = "[(Span 5 7, None)]"
  have "writable MINUTE ?H" "writable HOUR ?H" "writable DAY ?any" "writable MONTH ?any" "writable WEEKDAY ?wd"
    by (simp_all add: writable_def item_ok_def field_defs u32_MAX_def)
  note parse_written [OF this, of 1]
  moreover have "write_schedule ?H ?H ?any ?any ?wd = ''H H * * 5-7''" by code_simp
  ultimately obtain s where s: "parse_schedule ''H H * * 5-7'' 1 = Inr s" by auto
  then show ?thesis using schedule_in_range [OF s] by blast
qed

text \<open>C36: The seed only moves a schedule: an expression is a schedule for every seed or for none, so what
  the check of a setting accepts, with any seed, is what the server can run; and the scheduler runs
  exactly the expressions of this syntax and those of the old one that have an equivalent.\<close>

theorem schedule_valid_for_every_seed:
  "((\<exists>s. parse_schedule expr seed = Inr s) \<longleftrightarrow> (\<exists>s. parse_schedule expr seed' = Inr s)) \<and>
   ((\<exists>js. schedule_for inst job expr = Inr js) \<longleftrightarrow>
      (\<exists>s. parse_schedule expr seed = Inr s) \<or> (\<exists>e. from_seconds_syntax expr = Some e))"
proof -
  have valid: "(\<exists>s. parse_schedule e a = Inr s) \<longleftrightarrow> (\<exists>s. parse_schedule e b = Inr s)" for e a b
    unfolding parse_schedule_def by (rule parse_with_valid)
  let ?seed = "job_seed inst (job_name job)"
  have "(\<exists>js. schedule_for inst job expr = Inr js) \<longleftrightarrow>
      (\<exists>s. parse_schedule expr ?seed = Inr s) \<or> (\<exists>e. from_seconds_syntax expr = Some e)"
    using from_seconds_valid [of expr _ ?seed]
    by (cases "parse_schedule expr ?seed"; cases "from_seconds_syntax expr") (auto simp: schedule_for_def Let_def)
  then show ?thesis using valid by metis
qed



end
