(* ===== verification/Server_Settings.thy ===== *)
theory Server_Settings
  imports Worker_Store Setting_Resolution Schedules
begin

text \<open>
  The settings of the server: what there is to set and what is accepted
  (\<^verbatim>\<open>aurcache-common/src/settings.rs\<close>), how a value is read and where it comes from
  (\<^verbatim>\<open>aurcache-utils/src/settings\<close>), how values are stored, and the two endpoints that set and reset
  one (\<^verbatim>\<open>aurcache-api/src/settings.rs\<close>).
\<close>

section \<open>The settings there are\<close>

datatype setting_source = Source_Env_Var | Source_Package | Source_Global | Source_Builtin

record 'a settings_entry =
  en_value :: 'a
  en_source :: setting_source

datatype scope = Scope_Global | Scope_Package

record settings_meta =
  sm_key :: string
  sm_env_name :: "string option"
  sm_default :: string
  sm_scope :: scope

datatype setting =
    VersionCheckInterval
  | AutoUpdateSchedule
  | BuildOnNewVersion
  | PersistentBuilddir
  | DateFormat
  | JobTimeout
  | MaxArtifactSize
  | MakepkgConf
  | PacmanConf
  | ParseNetwork

definition ALL_SETTINGS :: "setting list" where
  "ALL_SETTINGS =
     [VersionCheckInterval, AutoUpdateSchedule, BuildOnNewVersion, PersistentBuilddir, DateFormat, JobTimeout,
      MaxArtifactSize, MakepkgConf, PacmanConf, ParseNetwork]"

definition meta_of :: "string \<Rightarrow> string option \<Rightarrow> string \<Rightarrow> scope \<Rightarrow> settings_meta" where
  "meta_of k env dflt sc = \<lparr>sm_key = k, sm_env_name = env, sm_default = dflt, sm_scope = sc\<rparr>"

fun meta :: "setting \<Rightarrow> settings_meta" where
  "meta VersionCheckInterval = meta_of ''version_check_interval'' (Some ''VERSION_CHECK_INTERVAL'') ''1h'' Scope_Global"
| "meta AutoUpdateSchedule = meta_of ''auto_update_schedule'' (Some ''AUTO_UPDATE_SCHEDULE'') ''@daily'' Scope_Global"
| "meta DateFormat = meta_of ''date_format'' (Some ''DATE_FORMAT'') ''ymd-pad-24'' Scope_Global"
| "meta BuildOnNewVersion = meta_of ''build_on_new_version'' (Some ''BUILD_ON_NEW_VERSION'') ''true'' Scope_Global"
| "meta PersistentBuilddir = meta_of ''persistent_builddir'' (Some ''PERSISTENT_BUILDDIR'') ''true'' Scope_Package"
| "meta JobTimeout = meta_of ''job_timeout'' (Some ''JOB_TIMEOUT'') ''1h'' Scope_Package"
| "meta MaxArtifactSize = meta_of ''max_artifact_size'' (Some ''MAX_ARTIFACT_SIZE'') ''20G'' Scope_Package"
| "meta MakepkgConf = meta_of ''makepkg_conf'' None [] Scope_Package"
| "meta PacmanConf = meta_of ''pacman_conf'' None [] Scope_Package"
| "meta ParseNetwork = meta_of ''parse_network'' (Some ''PARSE_NETWORK'') ''false'' Scope_Global"

definition setting_from_key :: "string \<Rightarrow> setting option" where
  "setting_from_key k = find (\<lambda>s. sm_key (meta s) = k) ALL_SETTINGS"

datatype setting_error =
    NotBoolean string
  | NotSize string
  | NotDuration string
  | NotSchedule schedule_error

definition parse_boolean :: "string \<Rightarrow> setting_error + bool" where
  "parse_boolean value =
     (let s = to_ascii_lowercase (trim value) in
      if s \<in> {''true'', ''1'', ''yes'', ''on''} then Inr True
      else if s \<in> {''false'', ''0'', ''no'', ''off'', []} then Inr False
      else Inl (NotBoolean s))"

definition check_boolean :: "string \<Rightarrow> setting_error + unit" where
  "check_boolean value = map_sum id (\<lambda>_. ()) (parse_boolean value)"

definition check_duration :: "string \<Rightarrow> setting_error + unit" where
  "check_duration value =
     (case parse_duration value of
        Some seconds \<Rightarrow> if seconds > 0 then Inr () else Inl (NotDuration value)
      | None \<Rightarrow> Inl (NotDuration value))"

fun validate_setting :: "setting \<Rightarrow> string \<Rightarrow> setting_error + unit" where
  "validate_setting BuildOnNewVersion value = check_boolean value"
| "validate_setting PersistentBuilddir value = check_boolean value"
| "validate_setting ParseNetwork value = check_boolean value"
| "validate_setting MaxArtifactSize value =
     (case parse_size value of
        Some bytes \<Rightarrow> if bytes > 0 then Inr () else Inl (NotSize value)
      | None \<Rightarrow> Inl (NotSize value))"
| "validate_setting VersionCheckInterval value = check_duration value"
| "validate_setting JobTimeout value = check_duration value"
| "validate_setting AutoUpdateSchedule value =
     (if is_off value then Inr () else map_sum NotSchedule (\<lambda>_. ()) (parse_schedule value 0))"
| "validate_setting DateFormat value = Inr ()"
| "validate_setting MakepkgConf value = Inr ()"
| "validate_setting PacmanConf value = Inr ()"

section \<open>Reading\<close>

text \<open>The types a setting is read as; a text that does not parse is \<open>None\<close>.\<close>

definition parse_seconds :: "string \<Rightarrow> nat option" where
  "parse_seconds s = parse_duration s"

definition parse_byte_size :: "string \<Rightarrow> nat option" where
  "parse_byte_size s = parse_size s"

definition parse_text :: "string \<Rightarrow> string option" where
  "parse_text s = Some s"

definition parse_bool :: "string \<Rightarrow> bool option" where
  "parse_bool s = (case parse_boolean s of Inl _ \<Rightarrow> None | Inr b \<Rightarrow> Some b)"

definition parse_optional :: "string \<Rightarrow> string option option" where
  "parse_optional s = (if trim s = [] then Some None else Some (Some s))"

text \<open>A built-in default that does not parse is a panic.\<close>

datatype get_error = Get_Db db_err | Panicked string

definition parse_default :: "(string \<Rightarrow> 'a option) \<Rightarrow> settings_meta \<Rightarrow> get_error + 'a" where
  "parse_default parse m = (case parse (sm_default m) of None \<Rightarrow> Inl (Panicked (sm_key m)) | Some x \<Rightarrow> Inr x)"

definition parse_or_default :: "(string \<Rightarrow> 'a option) \<Rightarrow> settings_meta \<Rightarrow> string \<Rightarrow> get_error + 'a" where
  "parse_or_default parse m s = (case parse s of Some x \<Rightarrow> Inr x | None \<Rightarrow> parse_default parse m)"

definition returned :: "'e + 'a \<Rightarrow> ('e, 'a) prog" where
  "returned r = (case r of Inl e \<Rightarrow> raise e | Inr x \<Rightarrow> ret x)"

definition stored_value :: "string \<Rightarrow> id option \<Rightarrow> tables \<Rightarrow> string option" where
  "stored_value k pkg_id d =
     Option.bind (find (\<lambda>row. se_key row = k \<and> se_pkg_id row = settings_scope pkg_id) (settings d)) se_value"

definition stored :: "string \<Rightarrow> id option \<Rightarrow> string option dbm" where
  "stored k pkg_id = select (stored_value k pkg_id)"

definition entry_of :: "(get_error + 'a) \<Rightarrow> setting_source \<Rightarrow> (get_error, 'a settings_entry) prog" where
  "entry_of r source = dbind (returned r) (\<lambda>v. ret \<lparr>en_value = v, en_source = source\<rparr>)"

definition get_setting ::
    "environment \<Rightarrow> (string \<Rightarrow> 'a option) \<Rightarrow> setting \<Rightarrow> id option \<Rightarrow> (get_error, 'a settings_entry) prog" where
  "get_setting env parse setting pkg_id =
     (let m = meta setting in
      dbind (if pkg_id \<noteq> None \<and> sm_scope m = Scope_Package then map_err Get_Db (stored (sm_key m) pkg_id) else ret None)
        (\<lambda>own.
      case own of
        Some v \<Rightarrow> entry_of (parse_or_default parse m v) Source_Package
      | None \<Rightarrow>
          (case Option.bind (sm_env_name m) env of
             Some v \<Rightarrow> entry_of (parse_or_default parse m v) Source_Env_Var
           | None \<Rightarrow>
               dbind (map_err Get_Db (stored (sm_key m) None)) (\<lambda>shared.
               case shared of
                 Some v \<Rightarrow> entry_of (parse_or_default parse m v) Source_Global
               | None \<Rightarrow> entry_of (parse_default parse m) Source_Builtin))))"

definition raw_setting :: "environment \<Rightarrow> setting \<Rightarrow> id option \<Rightarrow> (get_error, string settings_entry) prog" where
  "raw_setting env setting pkg_id = get_setting env parse_text setting pkg_id"

record application_settings =
  as_version_check_interval :: "nat settings_entry"
  as_auto_update_schedule :: "string option settings_entry"
  as_job_timeout :: "nat settings_entry"
  as_max_artifact_size :: "nat settings_entry"
  as_date_format :: "string settings_entry"
  as_build_on_new_version :: "bool settings_entry"
  as_persistent_builddir :: "bool settings_entry"
  as_parse_network :: "bool settings_entry"

definition wire_seconds :: "nat settings_entry \<Rightarrow> nat settings_entry" where
  "wire_seconds e = \<lparr>en_value = (if en_value e \<le> u32_MAX then en_value e else u32_MAX), en_source = en_source e\<rparr>"

text \<open>The reads are independent of each other; they are made here in the order they are listed in.\<close>

definition all_settings :: "environment \<Rightarrow> id option \<Rightarrow> (get_error, application_settings) prog" where
  "all_settings env pkg_id =
     dbind (get_setting env parse_seconds VersionCheckInterval pkg_id) (\<lambda>interval.
     dbind (get_setting env parse_optional AutoUpdateSchedule pkg_id) (\<lambda>sched.
     dbind (get_setting env parse_seconds JobTimeout pkg_id) (\<lambda>timeout.
     dbind (get_setting env parse_byte_size MaxArtifactSize pkg_id) (\<lambda>artifact.
     dbind (get_setting env parse_text DateFormat pkg_id) (\<lambda>date.
     dbind (get_setting env parse_bool BuildOnNewVersion pkg_id) (\<lambda>rebuild.
     dbind (get_setting env parse_bool PersistentBuilddir pkg_id) (\<lambda>builddir.
     dbind (get_setting env parse_bool ParseNetwork pkg_id) (\<lambda>network.
     ret \<lparr>as_version_check_interval = wire_seconds interval, as_auto_update_schedule = sched,
          as_job_timeout = wire_seconds timeout, as_max_artifact_size = artifact, as_date_format = date,
          as_build_on_new_version = rebuild, as_persistent_builddir = builddir, as_parse_network = network\<rparr>))))))))"

section \<open>Writing\<close>

record change =
  ch_setting :: setting
  ch_pkg_id :: "id option"
  ch_value :: "string option"

datatype write_result = Written | GlobalOnly setting

definition row_key :: "setting_row \<Rightarrow> string \<times> id" where
  "row_key row = (se_key row, se_pkg_id row)"

definition change_key :: "change \<Rightarrow> string \<times> id" where
  "change_key c = (sm_key (meta (ch_setting c)), settings_scope (ch_pkg_id c))"

definition global_only :: "change \<Rightarrow> bool" where
  "global_only c \<longleftrightarrow> ch_pkg_id c \<noteq> None \<and> ch_value c \<noteq> None \<and> sm_scope (meta (ch_setting c)) = Scope_Global"

definition fresh_setting_id :: "tables \<Rightarrow> id" where
  "fresh_setting_id d = 1 + fold max (map se_id (settings d)) 0"

text \<open>The upsert takes the rows in order; a row whose key is taken replaces the value there.\<close>

definition upsert_setting :: "(string \<times> id) \<times> string \<Rightarrow> tables \<Rightarrow> tables" where
  "upsert_setting kv d =
     (case kv of ((k, scope), v) \<Rightarrow>
        if (k, scope) \<in> row_key ` set (settings d)
        then d\<lparr>settings := map (\<lambda>row. if row_key row = (k, scope) then row\<lparr>se_value := Some v\<rparr> else row) (settings d)\<rparr>
        else d\<lparr>settings := settings d @
               [\<lparr>se_id = fresh_setting_id d, se_key = k, se_value = Some v, se_pkg_id = scope\<rparr>]\<rparr>)"

definition inserts_of :: "change list \<Rightarrow> ((string \<times> id) \<times> string) list" where
  "inserts_of changes = List.map_filter (\<lambda>c. map_option (\<lambda>v. (change_key c, v)) (ch_value c)) changes"

definition removals_of :: "change list \<Rightarrow> (string \<times> id) list" where
  "removals_of changes = map change_key (filter (\<lambda>c. ch_value c = None) changes)"

definition write_settings :: "change list \<Rightarrow> write_result dbm" where
  "write_settings changes =
     (case find global_only changes of
        Some c \<Rightarrow> ret (GlobalOnly (ch_setting c))
      | None \<Rightarrow>
          dthen (if removals_of changes \<noteq> []
                 then modify (\<lambda>d. d\<lparr>settings := filter (\<lambda>row. row_key row \<notin> set (removals_of changes)) (settings d)\<rparr>)
                 else ret ())
         (dthen (if inserts_of changes \<noteq> [] then modify (fold upsert_setting (inserts_of changes)) else ret ())
         (ret Written)))"

datatype api_error = Api_Db db_err | Unknown_Setting string | Bad_Value setting_error | Not_Per_Package string

definition api_write :: "setting \<Rightarrow> id option \<Rightarrow> string option \<Rightarrow> (api_error, unit) prog" where
  "api_write setting pkg_id value =
     dbind (map_err Api_Db (write_settings [\<lparr>ch_setting = setting, ch_pkg_id = pkg_id, ch_value = value\<rparr>])) (\<lambda>w.
     case w of Written \<Rightarrow> ret () | GlobalOnly s \<Rightarrow> raise (Not_Per_Package (sm_key (meta s))))"

definition setting_patch :: "string \<Rightarrow> id option \<Rightarrow> string \<Rightarrow> (api_error, unit) prog" where
  "setting_patch k pkg_id value =
     (case setting_from_key k of
        None \<Rightarrow> raise (Unknown_Setting k)
      | Some setting \<Rightarrow>
          (case validate_setting setting value of
             Inl e \<Rightarrow> raise (Bad_Value e)
           | Inr _ \<Rightarrow> api_write setting pkg_id (Some value)))"

definition setting_reset :: "string \<Rightarrow> id option \<Rightarrow> (api_error, unit) prog" where
  "setting_reset k pkg_id =
     (case setting_from_key k of None \<Rightarrow> raise (Unknown_Setting k) | Some setting \<Rightarrow> api_write setting pkg_id None)"

section \<open>What is read\<close>

text \<open>Where the text of a setting comes from: the package, the environment, the server, the default.\<close>

definition raw_source :: "environment \<Rightarrow> tables \<Rightarrow> setting \<Rightarrow> id option \<Rightarrow> string \<times> setting_source" where
  "raw_source env d st pkg =
     (case (if pkg \<noteq> None \<and> sm_scope (meta st) = Scope_Package then stored_value (sm_key (meta st)) pkg d else None) of
        Some v \<Rightarrow> (v, Source_Package)
      | None \<Rightarrow>
          (case Option.bind (sm_env_name (meta st)) env of
             Some v \<Rightarrow> (v, Source_Env_Var)
           | None \<Rightarrow>
               (case stored_value (sm_key (meta st)) None d of
                  Some v \<Rightarrow> (v, Source_Global)
                | None \<Rightarrow> (sm_default (meta st), Source_Builtin))))"

definition reads :: "(string \<Rightarrow> 'a option) \<Rightarrow> environment \<Rightarrow> tables \<Rightarrow> setting \<Rightarrow> id option \<Rightarrow> 'a settings_entry" where
  "reads parse env d st pkg =
     \<lparr>en_value = (case parse (fst (raw_source env d st pkg)) of
                    Some x \<Rightarrow> x | None \<Rightarrow> the (parse (sm_default (meta st)))),
      en_source = snd (raw_source env d st pkg)\<rparr>"

lemma select_reachable: "outage s = None \<Longrightarrow> select q s = (Inr (q (db s)), s)"
  by (simp add: select_def statement_def up_None tick_None)

lemma modify_reachable: "outage s = None \<Longrightarrow> modify f s = (Inr (), s\<lparr>db := f (db s)\<rparr>)"
  by (simp add: modify_def statement_def up_None tick_None)

lemma get_setting_reads:
  assumes "outage s = None" and "parse (sm_default (meta st)) = Some dflt"
  shows "get_setting env parse st pkg s = (Inr (reads parse env (db s) st pkg), s)"
proof -
  have e: "entry_of (parse_or_default parse (meta st) v) src s =
      (Inr \<lparr>en_value = (case parse v of Some x \<Rightarrow> x | None \<Rightarrow> dflt), en_source = src\<rparr>, s)" for v src
    by (simp add: entry_of_def parse_or_default_def parse_default_def assms(2) returned_def dbind_def ret_def split: option.split)
  have d: "entry_of (parse_default parse (meta st)) src s = (Inr \<lparr>en_value = dflt, en_source = src\<rparr>, s)" for src
    by (simp add: entry_of_def parse_default_def assms(2) returned_def dbind_def ret_def)
  have sel: "map_err Get_Db (stored k p) s = (Inr (stored_value k p (db s)), s)" for k p
    by (simp add: map_err_def stored_def select_reachable [OF assms(1)])
  have own: "(if pkg \<noteq> None \<and> sm_scope (meta st) = Scope_Package then map_err Get_Db (stored (sm_key (meta st)) pkg) else ret None) s =
      (Inr (if pkg \<noteq> None \<and> sm_scope (meta st) = Scope_Package then stored_value (sm_key (meta st)) pkg (db s) else None), s)"
    by (simp add: sel ret_def)
  show ?thesis
    unfolding get_setting_def Let_def dbind_def own
    by (auto simp: raw_source_def reads_def e d assms(2) sel split: option.split)
qed

lemma defaults_parse:
  "parse_seconds (sm_default (meta VersionCheckInterval)) = Some 3600"
  "parse_optional (sm_default (meta AutoUpdateSchedule)) = Some (Some ''@daily'')"
  "parse_seconds (sm_default (meta JobTimeout)) = Some 3600"
  "parse_byte_size (sm_default (meta MaxArtifactSize)) = Some (20 * 2 ^ 30)"
  "parse_text (sm_default (meta DateFormat)) = Some ''ymd-pad-24''"
  "parse_bool (sm_default (meta BuildOnNewVersion)) = Some True"
  "parse_bool (sm_default (meta PersistentBuilddir)) = Some True"
  "parse_bool (sm_default (meta ParseNetwork)) = Some False"
proof -
  show "parse_seconds (sm_default (meta VersionCheckInterval)) = Some 3600" "parse_seconds (sm_default (meta JobTimeout)) = Some 3600"
    using parse_format_duration [of 3600]
    by (simp_all add: parse_seconds_def meta_of_def u64_MAX_def format_duration_def format_with_def DURATION_UNITS_def
        show_nat.simps digit_char_def char_of_def bit_0)
  show "parse_byte_size (sm_default (meta MaxArtifactSize)) = Some (20 * 2 ^ 30)"
    using parse_format_size [of "20 * 2 ^ 30"]
    by (simp add: parse_byte_size_def meta_of_def u64_MAX_def format_size_def format_with_def SIZE_UNITS_def
        show_nat.simps digit_char_def char_of_def bit_0)
qed (code_simp+)

section \<open>What is stored\<close>

definition stored_at :: "string \<times> id \<Rightarrow> tables \<Rightarrow> string option" where
  "stored_at x d = Option.bind (find (\<lambda>row. row_key row = x) (settings d)) se_value"

lemma stored_value_at: "stored_value k pkg d = stored_at (k, settings_scope pkg) d"
  by (simp add: stored_value_def stored_at_def row_key_def)

lemma find_map_same:
  assumes "\<And>r. P (f r) = P r"
  shows "find P (map f rows) = map_option f (find P rows)"
  using assms by (induction rows) auto

lemma stored_upsert: "stored_at x (upsert_setting (y, v) d) = (if x = y then Some v else stored_at x d)"
proof (cases "y \<in> row_key ` set (settings d)")
  case True
  let ?f = "\<lambda>row. if row_key row = y then row\<lparr>se_value := Some v\<rparr> else row"
  have k: "row_key (?f row) = row_key row" for row by (simp add: row_key_def)
  have "settings (upsert_setting (y, v) d) = map ?f (settings d)"
    using True by (cases y) (auto simp: upsert_setting_def)
  then have "stored_at x (upsert_setting (y, v) d) = Option.bind (map_option ?f (find (\<lambda>row. row_key row = x) (settings d))) se_value"
    by (simp add: stored_at_def find_map_same k)
  also have "\<dots> = (if x = y then Some v else stored_at x d)"
  proof (cases "find (\<lambda>row. row_key row = x) (settings d)")
    case None
    then have "x \<notin> row_key ` set (settings d)" by (auto simp: find_None_iff)
    then show ?thesis using None True by (auto simp: stored_at_def)
  next
    case (Some row)
    then show ?thesis using find_Some_mem [OF Some] by (auto simp: stored_at_def)
  qed
  finally show ?thesis .
next
  case False
  then have "find (\<lambda>row. row_key row = y) (settings d) = None" by (auto simp: find_None_iff)
  then show ?thesis using False
    by (cases y) (auto simp: upsert_setting_def stored_at_def find_append row_key_def split: option.splits)
qed

lemma stored_upserts:
  "stored_at x (fold upsert_setting kvs d) = (case map_of (rev kvs) x of Some v \<Rightarrow> Some v | None \<Rightarrow> stored_at x d)"
  by (induction kvs arbitrary: d) (auto simp: stored_upsert map_add_def split: option.splits)

lemma stored_removed:
  "stored_at x (d\<lparr>settings := filter (\<lambda>row. row_key row \<notin> R) (settings d)\<rparr>) = (if x \<in> R then None else stored_at x d)"
proof -
  have "find (\<lambda>row. row_key row = x) (filter (\<lambda>row. row_key row \<notin> R) rows) =
      (if x \<in> R then None else find (\<lambda>row. row_key row = x) rows)" for rows
    by (induction rows) auto
  then show ?thesis by (simp add: stored_at_def)
qed

lemma other_tables_upserts: "fold upsert_setting kvs d = d\<lparr>settings := settings (fold upsert_setting kvs d)\<rparr>"
proof (induction kvs arbitrary: d)
  case (Cons kv kvs)
  obtain k sc v where kv: "kv = ((k, sc), v)" by (metis prod.collapse)
  obtain rows where r: "upsert_setting kv d = d\<lparr>settings := rows\<rparr>"
    unfolding kv upsert_setting_def prod.case by (cases "(k, sc) \<in> row_key ` set (settings d)") (simp_all only: if_True if_False)
  let ?F = "fold upsert_setting kvs (d\<lparr>settings := rows\<rparr>)"
  have "(d\<lparr>settings := rows\<rparr>)\<lparr>settings := settings ?F\<rparr> = d\<lparr>settings := settings ?F\<rparr>" by simp
  with Cons [of "d\<lparr>settings := rows\<rparr>"] have "?F = d\<lparr>settings := settings ?F\<rparr>" by (rule trans)
  moreover have "fold upsert_setting (kv # kvs) d = ?F" by (simp add: r)
  ultimately show ?case by (simp only:)
qed simp

text \<open>The last value given for a key, and whether it is removed.\<close>

definition given :: "change list \<Rightarrow> string \<times> id \<Rightarrow> string option" where
  "given changes x = map_of (rev (inserts_of changes)) x"

lemma write_settings_run:
  assumes up: "outage s = None" and "find global_only changes = None"
  shows "\<exists>rows. write_settings changes s = (Inr Written, s\<lparr>db := (db s)\<lparr>settings := rows\<rparr>\<rparr>) \<and>
    (\<forall>x. stored_at x ((db s)\<lparr>settings := rows\<rparr>) =
       (case given changes x of
          Some v \<Rightarrow> Some v
        | None \<Rightarrow> if x \<in> set (removals_of changes) then None else stored_at x (db s)))"
proof -
  define d1 where "d1 = (db s)\<lparr>settings := filter (\<lambda>row. row_key row \<notin> set (removals_of changes)) (settings (db s))\<rparr>"
  have d1: "(if removals_of changes \<noteq> []
      then modify (\<lambda>d. d\<lparr>settings := filter (\<lambda>row. row_key row \<notin> set (removals_of changes)) (settings d)\<rparr>) else ret ()) s =
      (Inr (), s\<lparr>db := d1\<rparr>)"
    by (simp add: d1_def modify_reachable [OF up] ret_def)
  define d2 where "d2 = fold upsert_setting (inserts_of changes) d1"
  have d2: "(if inserts_of changes \<noteq> [] then modify (fold upsert_setting (inserts_of changes)) else ret ()) (s\<lparr>db := d1\<rparr>) =
      (Inr (), s\<lparr>db := d2\<rparr>)"
    by (simp add: d2_def modify_reachable up ret_def)
  have "write_settings changes s = (Inr Written, s\<lparr>db := d2\<rparr>)"
    unfolding write_settings_def assms(2) option.case dthen_def dbind_def d1 prod.case sum.case d2 by (simp add: ret_def)
  moreover have "d2 = (db s)\<lparr>settings := settings d2\<rparr>"
    unfolding d2_def by (subst other_tables_upserts) (simp add: d1_def)
  moreover have "stored_at x d2 = (case given changes x of Some v \<Rightarrow> Some v
      | None \<Rightarrow> if x \<in> set (removals_of changes) then None else stored_at x (db s))" for x
    unfolding d2_def stored_upserts given_def d1_def stored_removed by simp
  ultimately show ?thesis by metis
qed

lemma change_key_mem: "x \<in> set (removals_of changes) \<longleftrightarrow> (\<exists>c \<in> set changes. ch_value c = None \<and> change_key c = x)"
  by (auto simp: removals_of_def)

lemma settings_scope_inj:
  assumes "pkg \<noteq> Some GLOBAL_SCOPE" "pkg' \<noteq> Some GLOBAL_SCOPE" "settings_scope pkg = settings_scope pkg'"
  shows "pkg = pkg'"
  using assms by (cases pkg; cases pkg') (auto simp: settings_scope_def)

lemma preserves_write_settings:
  assumes "\<And>d rows. I d \<Longrightarrow> I (d\<lparr>settings := rows\<rparr>)"
  shows "preserves I (write_settings changes)"
proof -
  have "preserves I (modify (fold upsert_setting kvs))" for kvs
    by (rule preserves_modify) (subst other_tables_upserts, rule assms)
  moreover have "preserves I (modify (\<lambda>d. d\<lparr>settings := f d\<rparr>))" for f
    by (rule preserves_modify) (rule assms)
  ultimately show ?thesis unfolding write_settings_def by (auto intro!: pres split: option.split)
qed

interpretation server_settings: registry_program write_settings
  by unfold_locales (rule preserves_write_settings, simp add: admin_inv_def registry_def)

text \<open>A value that passed the check is one the readers understand.\<close>

fun usable_value :: "string \<Rightarrow> setting \<Rightarrow> string \<Rightarrow> bool" where
  "usable_value inst BuildOnNewVersion v \<longleftrightarrow> parse_bool v \<noteq> None"
| "usable_value inst PersistentBuilddir v \<longleftrightarrow> parse_bool v \<noteq> None"
| "usable_value inst ParseNetwork v \<longleftrightarrow> parse_bool v \<noteq> None"
| "usable_value inst MaxArtifactSize v \<longleftrightarrow> (\<exists>n. parse_byte_size v = Some n \<and> 0 < n)"
| "usable_value inst VersionCheckInterval v \<longleftrightarrow> (\<exists>n. parse_seconds v = Some n \<and> 0 < n)"
| "usable_value inst JobTimeout v \<longleftrightarrow> (\<exists>n. parse_seconds v = Some n \<and> 0 < n)"
| "usable_value inst AutoUpdateSchedule v \<longleftrightarrow>
     is_off v \<or> (\<exists>js. schedule_for inst AutoUpdate v = Inr js \<and> js_rewritten js = None)"
| "usable_value inst DateFormat v \<longleftrightarrow> True"
| "usable_value inst MakepkgConf v \<longleftrightarrow> True"
| "usable_value inst PacmanConf v \<longleftrightarrow> True"

lemma validate_usable:
  assumes "validate_setting st v = Inr ()"
  shows "usable_value inst st v"
proof (cases st)
  case AutoUpdateSchedule
  show ?thesis
  proof (cases "is_off v")
    case False
    then obtain s where s: "parse_schedule v 0 = Inr s"
      using assms AutoUpdateSchedule by (cases "parse_schedule v 0") auto
    have "\<exists>s'. parse_schedule v (job_seed inst (job_name AutoUpdate)) = Inr s'"
      using s parse_with_valid [of wrong_field_count v "job_seed inst (job_name AutoUpdate)" wrong_field_count 0]
      unfolding parse_schedule_def by blast
    then show ?thesis using AutoUpdateSchedule by (auto simp: schedule_for_def)
  qed (simp add: AutoUpdateSchedule)
qed (use assms in \<open>auto simp: check_boolean_def check_duration_def parse_bool_def parse_seconds_def parse_byte_size_def
  split: sum.splits option.splits if_splits\<close>)

lemma setting_from_key_Some: "setting_from_key k = Some st \<Longrightarrow> sm_key (meta st) = k"
  by (auto simp: setting_from_key_def dest: find_Some_mem)

lemma setting_from_key_meta [simp]: "setting_from_key (sm_key (meta st)) = Some st"
  by (cases st) (simp_all add: setting_from_key_def ALL_SETTINGS_def meta_of_def)

section \<open>Properties\<close>

text \<open>With the database reachable the settings can always be read, whatever texts are stored or set in
  the environment: each field is the value of its package where a package may have one, else of the
  environment, else of the server, else the default; a text that does not parse counts as the
  default, and no default fails to parse.\<close>

theorem settings_always_read:
  assumes "outage s = None"
  shows "all_settings env pkg s =
    (Inr \<lparr>as_version_check_interval = wire_seconds (reads parse_seconds env (db s) VersionCheckInterval pkg),
          as_auto_update_schedule = reads parse_optional env (db s) AutoUpdateSchedule pkg,
          as_job_timeout = wire_seconds (reads parse_seconds env (db s) JobTimeout pkg),
          as_max_artifact_size = reads parse_byte_size env (db s) MaxArtifactSize pkg,
          as_date_format = reads parse_text env (db s) DateFormat pkg,
          as_build_on_new_version = reads parse_bool env (db s) BuildOnNewVersion pkg,
          as_persistent_builddir = reads parse_bool env (db s) PersistentBuilddir pkg,
          as_parse_network = reads parse_bool env (db s) ParseNetwork pkg\<rparr>, s)"
  unfolding all_settings_def dbind_def
  by (simp only: get_setting_reads [where parse = parse_seconds, OF assms defaults_parse(1)] get_setting_reads [where parse = parse_optional, OF assms defaults_parse(2)]
      get_setting_reads [where parse = parse_seconds, OF assms defaults_parse(3)] get_setting_reads [where parse = parse_byte_size, OF assms defaults_parse(4)]
      get_setting_reads [where parse = parse_text, OF assms defaults_parse(5)] get_setting_reads [where parse = parse_bool, OF assms defaults_parse(6)]
      get_setting_reads [where parse = parse_bool, OF assms defaults_parse(7)] get_setting_reads [where parse = parse_bool, OF assms defaults_parse(8)]
      prod.case sum.case ret_def)

theorem settings_always_read_witness:
  "\<exists>app. all_settings (\<lambda>v. if v = ''DATE_FORMAT'' then Some ''dmy'' else None) None sample_server = (Inr app, sample_server) \<and>
     en_source (as_date_format app) = Source_Env_Var \<and> en_value (as_build_on_new_version app)"
proof -
  let ?env = "\<lambda>v. if v = ''DATE_FORMAT'' then Some ''dmy'' else None"
  have "outage sample_server = None" by code_simp
  note run = settings_always_read [OF this, of ?env None]
  have "raw_source ?env sample_tables DateFormat None = (''dmy'', Source_Env_Var)"
    "raw_source ?env sample_tables BuildOnNewVersion None = (''true'', Source_Builtin)" "parse_bool ''true'' = Some True"
    by code_simp+
  then show ?thesis unfolding run by (simp add: reads_def)
qed

text \<open>Writing settings is what it says: a set with a package's value for a server-wide setting is refused
  and changes nothing; any other set leaves under each key the last value the set has for it,
  nothing where it only has a removal, and what was there where it has neither; no other table is
  touched.\<close>

theorem settings_written:
  assumes "outage s = None"
  shows "case find global_only changes of
      Some c \<Rightarrow> write_settings changes s = (Inr (GlobalOnly (ch_setting c)), s)
    | None \<Rightarrow> \<exists>rows. write_settings changes s = (Inr Written, s\<lparr>db := (db s)\<lparr>settings := rows\<rparr>\<rparr>) \<and>
        (\<forall>st pkg. stored_value (sm_key (meta st)) pkg ((db s)\<lparr>settings := rows\<rparr>) =
          (case given changes (sm_key (meta st), settings_scope pkg) of
             Some v \<Rightarrow> Some v
           | None \<Rightarrow>
               if \<exists>c \<in> set changes. ch_value c = None \<and> change_key c = (sm_key (meta st), settings_scope pkg) then None
               else stored_value (sm_key (meta st)) pkg (db s)))"
proof (cases "find global_only changes")
  case None
  then show ?thesis
    using write_settings_run [OF assms None] unfolding stored_value_at change_key_mem [symmetric] by auto
qed (simp add: write_settings_def ret_def)

theorem settings_written_witness:
  "\<exists>t. write_settings [\<lparr>ch_setting = JobTimeout, ch_pkg_id = Some 1, ch_value = Some ''2h''\<rparr>] sample_server = (Inr Written, t) \<and>
     stored_value ''job_timeout'' (Some 1) (db t) = Some ''2h''"
proof -
  let ?cs = "[\<lparr>ch_setting = JobTimeout, ch_pkg_id = Some 1, ch_value = Some ''2h''\<rparr>]"
  have "outage sample_server = None" by code_simp
  from settings_written [OF this, of ?cs]
  obtain rows where r: "write_settings ?cs sample_server = (Inr Written, sample_server\<lparr>db := (db sample_server)\<lparr>settings := rows\<rparr>\<rparr>)"
    "\<And>st pkg. stored_value (sm_key (meta st)) pkg ((db sample_server)\<lparr>settings := rows\<rparr>) =
          (case given ?cs (sm_key (meta st), settings_scope pkg) of
             Some v \<Rightarrow> Some v
           | None \<Rightarrow>
               if \<exists>c \<in> set ?cs. ch_value c = None \<and> change_key c = (sm_key (meta st), settings_scope pkg) then None
               else stored_value (sm_key (meta st)) pkg (db sample_server))"
    by (auto simp: global_only_def meta_of_def)
  have "given ?cs (sm_key (meta JobTimeout), settings_scope (Some 1)) = Some ''2h''" by code_simp
  then show ?thesis using r(1) r(2) [of JobTimeout "Some 1"] by (simp add: meta_of_def)
qed

text \<open>C37: A setting changed through the interface takes effect: its value is one the readers understand (a
  schedule, with the server's own seed, in the current syntax), and reading it for the same package,
  or for the server, yields this value, except that the environment overrides the server's.\<close>

theorem patched_setting_takes_effect:
  assumes up: "outage s = None" and run: "setting_patch k pkg value s = (Inr (), t)"
  shows "\<exists>st. sm_key (meta st) = k \<and> usable_value inst st value \<and>
    raw_setting env st pkg t =
      (Inr (case (pkg, Option.bind (sm_env_name (meta st)) env) of
              (None, Some v) \<Rightarrow> \<lparr>en_value = v, en_source = Source_Env_Var\<rparr>
            | (None, None) \<Rightarrow> \<lparr>en_value = value, en_source = Source_Global\<rparr>
            | (Some _, _) \<Rightarrow> \<lparr>en_value = value, en_source = Source_Package\<rparr>), t)"
proof -
  obtain st where st: "setting_from_key k = Some st" "validate_setting st value = Inr ()"
    "api_write st pkg (Some value) s = (Inr (), t)"
    using run by (auto simp: setting_patch_def raise_def split: option.splits sum.splits)
  let ?c = "\<lparr>ch_setting = st, ch_pkg_id = pkg, ch_value = Some value\<rparr>"
  have scope: "\<not> global_only ?c"
  proof
    assume "global_only ?c"
    then have "write_settings [?c] s = (Inr (GlobalOnly st), s)" by (simp add: write_settings_def ret_def)
    then show False using st(3) by (simp add: api_write_def dbind_def map_err_def raise_def)
  qed
  then have "find global_only [?c] = None" by simp
  from write_settings_run [OF up this] obtain rows where
    w: "write_settings [?c] s = (Inr Written, s\<lparr>db := (db s)\<lparr>settings := rows\<rparr>\<rparr>)"
    "\<And>x. stored_at x ((db s)\<lparr>settings := rows\<rparr>) = (case given [?c] x of
       Some v \<Rightarrow> Some v | None \<Rightarrow> if x \<in> set (removals_of [?c]) then None else stored_at x (db s))"
    by blast
  have "given [?c] (change_key ?c) = Some value" by (simp add: given_def inserts_of_def map_filter_simps)
  note w(2) [of "change_key ?c", unfolded this option.case]
  note w = w(1) this
  then have t: "t = s\<lparr>db := (db s)\<lparr>settings := rows\<rparr>\<rparr>"
    using st(3) by (simp add: api_write_def dbind_def map_err_def ret_def)
  then have "outage t = None" using up by simp
  then have read: "raw_setting env st pkg t = (Inr (reads parse_text env (db t) st pkg), t)"
    unfolding raw_setting_def by (rule get_setting_reads) (simp add: parse_text_def)
  have stored: "stored_value (sm_key (meta st)) pkg (db t) = Some value"
    using w(2) t by (simp add: stored_value_at change_key_def)
  have "pkg \<noteq> None \<Longrightarrow> sm_scope (meta st) = Scope_Package"
    using scope by (cases "sm_scope (meta st)") (auto simp: global_only_def)
  then have "reads parse_text env (db t) st pkg =
      (case (pkg, Option.bind (sm_env_name (meta st)) env) of
              (None, Some v) \<Rightarrow> \<lparr>en_value = v, en_source = Source_Env_Var\<rparr>
            | (None, None) \<Rightarrow> \<lparr>en_value = value, en_source = Source_Global\<rparr>
            | (Some _, _) \<Rightarrow> \<lparr>en_value = value, en_source = Source_Package\<rparr>)"
    using stored by (cases pkg) (auto simp: reads_def raw_source_def parse_text_def split: option.splits)
  then show ?thesis using read setting_from_key_Some [OF st(1)] validate_usable [OF st(2)] by auto
qed

theorem patched_setting_takes_effect_witness:
  "\<exists>st t. setting_patch ''date_format'' None ''dmy-nopad-12'' sample_server = (Inr (), t) \<and>
     sm_key (meta st) = ''date_format'' \<and>
     raw_setting (\<lambda>_. None) st None t = (Inr \<lparr>en_value = ''dmy-nopad-12'', en_source = Source_Global\<rparr>, t)"
proof -
  let ?run = "setting_patch ''date_format'' None ''dmy-nopad-12'' sample_server"
  have "fst ?run = Inr ()" by code_simp
  then obtain t where t: "?run = (Inr (), t)" by (metis prod.collapse)
  have up: "outage sample_server = None" by code_simp
  have "Option.bind (sm_env_name (meta st)) (\<lambda>_. None) = (None :: string option)" for st
    by (cases "sm_env_name (meta st)") auto
  then show ?thesis using patched_setting_takes_effect [OF up t, of "''x''" "\<lambda>_. None"] t by auto
qed

end
