(* ===== verification/Lifecycle.thy ===== *)
theory Lifecycle
  imports Publishing Enrollment Server_Settings
begin

text \<open>
  The server as a whole: any of the programs, with any arguments, at any time of day,
  with the connection lost at any statement, one after the other in any order. A program
  that is handed a build row is handed one that was read at some earlier time, so it may
  be out of date: \<open>H\<close> collects the rows that have been read so far.
\<close>

section \<open>Steps of the server\<close>

definition runs :: "('e, 'a) prog \<Rightarrow> tables \<Rightarrow> tables \<Rightarrow> bool" where
  "runs m d d' \<longleftrightarrow> (\<exists>s r t. db s = d \<and> m s = (r, t) \<and> db t = d')"

type_synonym system = "tables \<times> build set"

text \<open>Everything but an operator's approval of a worker.\<close>

inductive routine_step :: "'v alpm \<Rightarrow> 'f floats \<Rightarrow> system \<Rightarrow> system \<Rightarrow> bool" for A F where
  reading: "R \<subseteq> set (builds d) \<Longrightarrow> routine_step A F (d, H) (d, H \<union> R)"
| enqueueing: "runs (enqueue_build_if_missing pkg_id pf ver start pending trig) d d' \<Longrightarrow>
     routine_step A F (d, H) (d', H)"
| promoting: "runs (promote_waiting_build pkg_id pf) d d' \<Longrightarrow> routine_step A F (d, H) (d', H)"
| demoting: "runs (demote_enqueued_build pkg_id pf) d d' \<Longrightarrow> routine_step A F (d, H) (d', H)"
| claiming: "runs (claim_job w ttl spill live) d d' \<Longrightarrow> routine_step A F (d, H) (d', H)"
| abandoning: "observed \<in> H \<Longrightarrow> runs (abandon_build observed reason m) d d' \<Longrightarrow> routine_step A F (d, H) (d', H)"
| revoking: "runs (revoke_worker w m) d d' \<Longrightarrow> routine_step A F (d, H) (d', H)"
| beating: "runs (worker_heartbeat (J :: 'f json) ttl m w hb) d d' \<Longrightarrow> routine_step A F (d, H) (d', H)"
| enrolling: "runs (register F J C is_file policy days input) d d' \<Longrightarrow> routine_step A F (d, H) (d', H)"
| touching: "runs (touch_last_seen w ver) d d' \<Longrightarrow> routine_step A F (d, H) (d', H)"
| pausing: "runs (set_paused w paused) d d' \<Longrightarrow> routine_step A F (d, H) (d', H)"
| configuring: "runs (write_settings server_changes) d d' \<Longrightarrow> routine_step A F (d, H) (d', H)"
| saving: "runs (save_settings F J w changes) d d' \<Longrightarrow> routine_step A F (d, H) (d', H)"
| reaping: "runs (reap_expired_builds now m ages) d d' \<Longrightarrow> routine_step A F (d, H) (d', H)"
| completing: "runs (complete wm m i report) d d' \<Longrightarrow> routine_step A F (d, H) (d', H)"
| canceling: "build \<in> H \<Longrightarrow> runs (cancel_build base build) d d' \<Longrightarrow> routine_step A F (d, H) (d', H)"
| removing: "build \<in> H \<Longrightarrow> runs (delete_build base build) d d' \<Longrightarrow> routine_step A F (d, H) (d', H)"
| triggering: "runs (trigger_dependents A iter pkg_id pf) d d' \<Longrightarrow> routine_step A F (d, H) (d', H)"
| resyncing: "runs (resync_pending_builds A pkg_id) d d' \<Longrightarrow> routine_step A F (d, H) (d', H)"
| publishing: "runs (record_publication i pkg pf plan) d d' \<Longrightarrow> routine_step A F (d, H) (d', H)"
| settling: "build \<in> H \<Longrightarrow> runs (settle build) d d' \<Longrightarrow> routine_step A F (d, H) (d', H)"
| failing: "build \<in> H \<Longrightarrow> runs (fail_publication build) d d' \<Longrightarrow> routine_step A F (d, H) (d', H)"

inductive system_step :: "'v alpm \<Rightarrow> 'f floats \<Rightarrow> system \<Rightarrow> system \<Rightarrow> bool" for A F where
  routine: "routine_step A F S S' \<Longrightarrow> system_step A F S S'"
| approving: "runs (approve_worker i) d d' \<Longrightarrow> system_step A F (d, H) (d', H)"

text \<open>A database with its packages and workers, before anything was built.\<close>

definition initial :: "tables \<Rightarrow> bool" where
  "initial d \<longleftrightarrow> builds d = [] \<and> distinct (map p_id (packages d)) \<and> registry_ok (registry d)"

definition system_ok :: "system \<Rightarrow> bool" where
  "system_ok S \<longleftrightarrow> db_ok (fst S) \<and> (\<forall>b \<in> snd S. follows b (ledger (fst S)))"

lemma system_okD: "system_ok (d, H) \<Longrightarrow> db_ok d" "system_ok (d, H) \<Longrightarrow> b \<in> H \<Longrightarrow> follows b (ledger d)"
  by (auto simp: system_ok_def)

text \<open>The contract of a program, as a step of the server.\<close>

context server_program
begin

lemma step_ok:
  assumes ok: "system_ok (d, H)" and pre: "pre x d" and run: "runs (prog x) d d'"
  shows "system_ok (d', H)"
proof -
  from run obtain s r t where s: "db s = d" "prog x s = (r, t)" "db t = d'" by (auto simp: runs_def)
  have "db_ok d'" using stays_ok [OF _ _ s(2)] system_okD(1) [OF ok] pre s by simp
  moreover have "follows b (ledger d')" if "b \<in> H" for b
    using follows_steps [OF moves_on [OF _ _ s(2)]] system_okD [OF ok] that pre s by (simp add: db_okD)
  ultimately show ?thesis by (simp add: system_ok_def)
qed

end

lemma serves_step_ok:
  assumes "serves m" and ok: "system_ok (d, H)" and "runs m d d'"
  shows "system_ok (d', H)"
proof -
  have "server_program (\<lambda>_ _. True) (\<lambda>_ :: unit. m)" by unfold_locales (use servesD [OF assms(1)] in auto)
  then show ?thesis using server_program.step_ok [of "\<lambda>_ _. True" "\<lambda>_. m" d H "()" d'] assms(2,3) by simp
qed

lemma routine_step_ok: "routine_step A F S S' \<Longrightarrow> system_ok S \<Longrightarrow> system_ok S'"
proof (induction rule: routine_step.induct)
  case (reading R d H)
  then have "follows b (ledger d)" if "b \<in> R" for b
    using that by (intro follows_own) (auto simp: system_ok_def ledger_def dest: db_okD(1))
  with reading show ?case by (auto simp: system_ok_def)
next
  case (enqueueing pkg_id pf ver start pending trig d d' H)
  then show ?case using enqueue.step_ok [of d H "(pkg_id, pf, ver, start, pending, trig)"] by simp
next
  case (promoting pkg_id pf d d' H)
  then show ?case using promote.step_ok [of d H "(pkg_id, pf)"] by simp
next
  case (demoting pkg_id pf d d' H)
  then show ?case using demote.step_ok [of d H "(pkg_id, pf)"] by simp
next
  case (claiming w ttl spill live d d' H)
  then show ?case using claim.step_ok [of d H "(w, ttl, spill, live)"] by simp
next
  case (abandoning observed H reason m d d')
  then show ?case using abandon.step_ok [of d H "(observed, reason, m)"] system_okD(2) by simp
next
  case (revoking w m d d' H)
  then show ?case using revoke.step_ok [of d H "(w, m)"] by simp
next
  case (beating J ttl m w hb d d' H)
  then show ?case by (rule serves_step_ok [OF serves_worker_heartbeat, rotated])
next
  case (enrolling J C is_file policy days input d d' H)
  show ?case by (rule enrollment.step_ok [OF enrolling.prems TrueI enrolling.hyps])
next
  case (touching w ver d d' H)
  then show ?case using touching.step_ok [of d H "(w, ver)"] by simp
next
  case (pausing w paused d d' H)
  then show ?case using pausing.step_ok [of d H "(w, paused)"] by simp
next
  case (configuring changes d d' H)
  then show ?case using server_settings.step_ok [of d H changes] by simp
next
  case (saving J w changes d d' H)
  then show ?case by (rule serves_step_ok [OF serves_save_settings, rotated])
next
  case (reaping now m ages d d' H)
  then show ?case using reaper.step_ok [of d H "(now, m, ages)"] by simp
next
  case (completing wm m i report d d' H)
  then show ?case using completion.step_ok [of d H "(wm, m, i, report)"] by simp
next
  case (canceling build H base d d')
  then show ?case using cancelling.step_ok [of d H "(base, build)"] system_okD(2) by simp
next
  case (removing build H base d d')
  then show ?case using deleting.step_ok [of d H "(base, build)"] system_okD(2) by simp
next
  case (triggering iter pkg_id pf d d' H)
  then show ?case using dependents.step_ok [where x = "(pkg_id, pf)" and iter = iter and A = A] by simp
next
  case (resyncing pkg_id d d' H)
  then show ?case using resync.step_ok [where x = pkg_id and A = A] by simp
next
  case (publishing i pkg pf plan d d' H)
  then show ?case using recording.step_ok [of d H "(i, pkg, pf, plan)"] by simp
next
  case (settling build H d d')
  then show ?case using settling.step_ok [of d H build] system_okD(2) by simp
next
  case (failing build H d d')
  then show ?case using publish_failure.step_ok [of d H build] system_okD(2) by simp
qed

lemma system_step_ok: "system_step A F S S' \<Longrightarrow> system_ok S \<Longrightarrow> system_ok S'"
proof (induction rule: system_step.induct)
  case (routine S S')
  then show ?case by (rule routine_step_ok)
next
  case (approving i d d' H)
  then show ?case using approving.step_ok [of d H i] by simp
qed

lemma system_steps_ok: "(system_step A F)\<^sup>*\<^sup>* S S' \<Longrightarrow> system_ok S \<Longrightarrow> system_ok S'"
  by (induction rule: rtranclp_induct) (auto intro: system_step_ok)

lemma initial_ok: "initial d \<Longrightarrow> system_ok (d, {})"
  by (simp add: initial_def system_ok_def db_ok_def ledger_ok_def ledger_def rows_ok_def numbers_ok_def
      pending_newest_def status_in_line_def shown_status_def own_builds_def combined_status_def)

lemma reachable_ok: "initial d0 \<Longrightarrow> (system_step A F)\<^sup>*\<^sup>* (d0, {}) S \<Longrightarrow> system_ok S"
  by (rule system_steps_ok [OF _ initial_ok])

text \<open>More rows may have been read than a run needs.\<close>

lemma routine_history:
  assumes "routine_step A F S T" and "snd S \<subseteq> K"
  shows "\<exists>K'. routine_step A F (fst S, K) (fst T, K') \<and> snd T \<union> K \<subseteq> K'"
  using assms by (cases rule: routine_step.cases) (fastforce intro: routine_step.intros)+

lemma system_history:
  assumes "system_step A F S T" and "snd S \<subseteq> K"
  shows "\<exists>K'. system_step A F (fst S, K) (fst T, K') \<and> snd T \<union> K \<subseteq> K'"
  using assms(1)
proof (cases rule: system_step.cases)
  case routine
  then show ?thesis using routine_history [OF _ assms(2)] by (blast intro: system_step.routine)
next
  case (approving i d d' H)
  then show ?thesis using assms(2) by (auto intro!: exI [of _ K] system_step.approving)
qed

text \<open>Any single row read on the way is followed by what becomes of it.\<close>

lemma row_followed:
  assumes "system_ok (d, H)" "b \<in> set (builds d)" "(system_step A F)\<^sup>*\<^sup>* (d, H) (d', H')"
    "b' \<in> set (builds d')" "b_id b' = b_id b"
  shows "later b b'"
proof -
  have seen: "system_step A F (d, H) (d, H \<union> {b})" by (rule system_step.routine [OF routine_step.reading]) (use assms in simp)
  have "\<exists>H'. (system_step A F)\<^sup>*\<^sup>* (d, H \<union> {b}) (fst S, H') \<and> snd S \<union> {b} \<subseteq> H'"
    if "(system_step A F)\<^sup>*\<^sup>* (d, H) S" for S
    using that
  proof (induction rule: rtranclp_induct)
    case base
    then show ?case by (intro exI [of _ "H \<union> {b}"]) auto
  next
    case (step S T)
    then obtain K where K: "(system_step A F)\<^sup>*\<^sup>* (d, H \<union> {b}) (fst S, K)" "snd S \<union> {b} \<subseteq> K" by blast
    have "\<exists>K'. system_step A F (fst S, K) (fst T, K') \<and> snd T \<union> {b} \<subseteq> K'"
      using system_history [OF step.hyps(2), of K] K(2) by blast
    then show ?case using K(1) by (meson rtranclp.rtrancl_into_rtrancl)
  qed
  from this [OF assms(3)] obtain K where K: "(system_step A F)\<^sup>*\<^sup>* (d, H \<union> {b}) (d', K)" "b \<in> K" by auto
  have "system_ok (d', K)"
    using system_steps_ok [OF K(1)] system_step_ok [OF seen] assms(1) by blast
  then show ?thesis using K(2) assms(4,5) by (auto simp: ledger_def dest!: system_okD(2) followsD)
qed

lemma runs_snd: "runs m (db s) (db (snd (m s)))"
  unfolding runs_def by (metis prod.collapse)

section \<open>Without an approval a revoked worker stays revoked\<close>

lemma runs_preserves: "preserves I m \<Longrightarrow> runs m d d' \<Longrightarrow> I d \<Longrightarrow> I d'"
  by (auto simp: runs_def dest: preservesD)

lemma runs_build: "refines m \<Longrightarrow> runs m d d' \<Longrightarrow> revoked_inv R d \<Longrightarrow> revoked_inv R d'"
  by (rule runs_preserves [OF revoked_build])

lemma revoked_write_settings: "preserves (revoked_inv R) (write_settings changes)"
  by (rule preserves_write_settings) (simp add: revoked_inv_def)

lemma routine_revoked: "routine_step A F S S' \<Longrightarrow> revoked_inv R (fst S) \<Longrightarrow> revoked_inv R (fst S')"
proof (induction rule: routine_step.induct)
  case (enqueueing pkg_id pf ver start pending trig d d' H)
  then show ?case using runs_build [OF enqueue.steps [of "(pkg_id, pf, ver, start, pending, trig)"]] by simp
next
  case (promoting pkg_id pf d d' H)
  then show ?case using runs_build [OF promote.steps [of "(pkg_id, pf)"]] by simp
next
  case (demoting pkg_id pf d d' H)
  then show ?case using runs_build [OF demote.steps [of "(pkg_id, pf)"]] by simp
next
  case (claiming w ttl spill live d d' H)
  then show ?case using runs_build [OF claim.steps [of "(w, ttl, spill, live)"]] by simp
next
  case (abandoning observed H reason m d d')
  then show ?case using runs_build [OF abandon.steps [of "(observed, reason, m)"]] by simp
next
  case (reaping now m ages d d' H)
  then show ?case using runs_build [OF reaper.steps [of "(now, m, ages)"]] by simp
next
  case (completing wm m i report d d' H)
  then show ?case using runs_build [OF completion.steps [of "(wm, m, i, report)"]] by simp
next
  case (canceling build H base d d')
  then show ?case using runs_build [OF cancelling.steps [of "(base, build)"]] by simp
next
  case (removing build H base d d')
  then show ?case using runs_build [OF deleting.steps [of "(base, build)"]] by simp
next
  case (triggering iter pkg_id pf d d' H)
  then show ?case using runs_build [OF dependents.steps [of A iter "(pkg_id, pf)"]] by simp
next
  case (resyncing pkg_id d d' H)
  then show ?case using runs_build [OF resync.steps [of A pkg_id]] by simp
next
  case (publishing i pkg pf plan d d' H)
  then show ?case using runs_build [OF recording.steps [of "(i, pkg, pf, plan)"]] by simp
next
  case (settling build H d d')
  then show ?case using runs_build [OF settling.steps [of build]] by simp
next
  case (failing build H d d')
  then show ?case using runs_build [OF publish_failure.steps [of build]] by simp
qed (auto
  intro: runs_preserves [OF revoked_revoke] runs_preserves [OF revoked_heartbeat] runs_preserves [OF revoked_register]
    runs_preserves [OF revoked_touch] runs_preserves [OF revoked_set_paused] runs_preserves [OF revoked_save_settings]
    runs_preserves [OF revoked_write_settings])

lemma routine_steps_revoked:
  "(routine_step A F)\<^sup>*\<^sup>* S S' \<Longrightarrow> revoked_inv R (fst S) \<Longrightarrow> revoked_inv R (fst S')"
  by (induction rule: rtranclp_induct) (auto intro: routine_revoked)

lemma claim_approved:
  assumes "db_ok (db s)" and "claim_job w ttl spill live s = (Inr (Some b), t)"
  shows "\<exists>me \<in> set (workers (db s)). w_id me = w \<and> w_status me = Approved"
proof -
  obtain c where "claim_choice (db s) (clock s) spill live w = Some c"
    using claim_job_Inr [OF assms(2) keys_ok_db_ok [OF assms(1)]] by (auto split: option.splits)
  then obtain me where "me \<in> set (approved_rows (db s))" "w_id me = w" using claim_choice_Some(1) by blast
  then show ?thesis by (auto simp: approved_rows_def)
qed

end
