(* ===== verification/Repo_Database.thy ===== *)
theory Repo_Database
  imports Publishing Units
begin

text \<open>
  \<^verbatim>\<open>pacman-repo-utils\<close>: reading a package file into the entry it gets in the databases
  (\<^verbatim>\<open>pkginfo/parser.rs\<close>, \<^verbatim>\<open>repo_database/desc.rs\<close>, \<^verbatim>\<open>describe.rs\<close>), rewriting
  \<^verbatim>\<open>repo.db\<close> and \<^verbatim>\<open>repo.files\<close>, and the package files a database lists
  (\<^verbatim>\<open>repo_database/db.rs\<close>).

  File contents are strings of bytes and a path is the list of its components. The
  compressors, the tar format, the digests and base64 are crates the program only calls:
  they are the fields of a \<open>codec\<close>, and what is relied on is \<open>codec_laws\<close>.
\<close>

section \<open>Paths, lines and encodings\<close>

type_synonym path = "string list"

text \<open>\<^verbatim>\<open>Path::components\<close>: a leading dot counts, repeated slashes and later dots do not.\<close>

definition path_components :: "string \<Rightarrow> path" where
  "path_components s =
     (case split_on CHR ''/'' s of
        [] \<Rightarrow> []
      | p # ps \<Rightarrow>
          (if p \<noteq> [] then [p] else if ps \<noteq> [] then [''/''] else []) @
          filter (\<lambda>c. c \<noteq> [] \<and> c \<noteq> ''.'') ps)"

text \<open>\<^verbatim>\<open>Path::file_name\<close> and \<^verbatim>\<open>Path::extension\<close>.\<close>

definition file_name :: "path \<Rightarrow> string option" where
  "file_name p = (if p = [] \<or> last p \<in> {''..'', ''/'', ''.''} then None else Some (last p))"

definition extension :: "path \<Rightarrow> string option" where
  "extension p =
     (case file_name p of
        None \<Rightarrow> None
      | Some n \<Rightarrow> (case rsplit_once ''.'' n of None \<Rightarrow> None | Some (stem, ext) \<Rightarrow> if stem = [] then None else Some ext))"

text \<open>\<^verbatim>\<open>PathBuf::push\<close> on the last component, as \<^verbatim>\<open>OsString::push\<close> does.\<close>

definition with_suffix :: "path \<Rightarrow> string \<Rightarrow> path" where
  "with_suffix p sfx = butlast p @ [last p @ sfx]"

text \<open>
  \<^verbatim>\<open>str::lines\<close> and \<^verbatim>\<open>BufRead::lines\<close>: a line ends at a newline, with the carriage
  return before it, and what follows the last newline is a line unless it is empty.
\<close>

definition strip_cr :: "string \<Rightarrow> string" where
  "strip_cr l = (if l \<noteq> [] \<and> last l = CHR 0x0D then butlast l else l)"

definition str_lines :: "string \<Rightarrow> string list" where
  "str_lines s =
     (let parts = split_on CHR 0x0A s in
      map strip_cr (butlast parts) @ (if last parts = [] then [] else [last parts]))"

text \<open>What \<^verbatim>\<open>read_to_string\<close> and \<^verbatim>\<open>lines\<close> accept: well-formed UTF-8.\<close>

definition in_range :: "nat \<Rightarrow> nat \<Rightarrow> char \<Rightarrow> bool" where
  "in_range lo hi c \<longleftrightarrow> lo \<le> of_char c \<and> of_char c \<le> hi"

fun utf8_tail :: "(nat \<times> nat) list \<Rightarrow> string \<Rightarrow> string option" where
  "utf8_tail [] s = Some s"
| "utf8_tail (_ # _) [] = None"
| "utf8_tail ((lo, hi) # rs) (c # s) = (if in_range lo hi c then utf8_tail rs s else None)"

definition utf8_follow :: "char \<Rightarrow> (nat \<times> nat) list option" where
  "utf8_follow c =
     (let cont = (0x80, 0xBF) in
      if in_range 0 0x7F c then Some []
      else if in_range 0xC2 0xDF c then Some [cont]
      else if in_range 0xE0 0xE0 c then Some [(0xA0, 0xBF), cont]
      else if in_range 0xED 0xED c then Some [(0x80, 0x9F), cont]
      else if in_range 0xE1 0xEF c then Some [cont, cont]
      else if in_range 0xF0 0xF0 c then Some [(0x90, 0xBF), cont, cont]
      else if in_range 0xF1 0xF3 c then Some [cont, cont, cont]
      else if in_range 0xF4 0xF4 c then Some [(0x80, 0x8F), cont, cont]
      else None)"

lemma utf8_tail_length: "utf8_tail rs s = Some t \<Longrightarrow> length t \<le> length s"
  by (induction rs s rule: utf8_tail.induct) (auto split: if_splits)

function utf8 :: "string \<Rightarrow> bool" where
  "utf8 [] = True"
| "utf8 (c # s) =
     (case utf8_follow c of
        None \<Rightarrow> False
      | Some rs \<Rightarrow> (case utf8_tail rs s of None \<Rightarrow> False | Some t \<Rightarrow> utf8 t))"
  by pat_completeness auto
termination by (relation "measure length") (auto dest: utf8_tail_length)

section \<open>Archives\<close>

record member =
  m_path :: string
  m_dir :: bool
  m_data :: string

record codec =
  tar_gz :: "member list \<Rightarrow> string"
  untar_gz :: "string \<Rightarrow> member list option"
  untar_zst :: "string \<Rightarrow> member list option"
  untar_xz :: "string \<Rightarrow> member list option"
  header_path :: "string \<Rightarrow> string option"
  md5_hex :: "string \<Rightarrow> string"
  sha256_hex :: "string \<Rightarrow> string"
  base64 :: "string \<Rightarrow> string"

definition plain :: "string \<Rightarrow> bool" where
  "plain s \<longleftrightarrow> (\<forall>c \<in> set s. in_range 33 126 c \<and> c \<noteq> CHR ''%'')"

text \<open>
  What the crates document: an archive reads back as it was written, a header that takes a
  path gives back its components, and digests and base64 are letters, digits and signs.
\<close>

definition codec_laws :: "codec \<Rightarrow> bool" where
  "codec_laws C \<longleftrightarrow>
     (\<forall>ms. untar_gz C (tar_gz C ms) = Some ms) \<and>
     (\<forall>p q. header_path C p = Some q \<longrightarrow> ''.'' \<notin> set (path_components p) \<longrightarrow>
        path_components q = path_components p) \<and>
     (\<forall>s. plain (md5_hex C s) \<and> plain (sha256_hex C s) \<and> plain (base64 C s))"

section \<open>Package metadata\<close>

record pkginfo =
  pi_groups :: "string list"
  pi_licenses :: "string list"
  pi_replaces :: "string list"
  pi_depends :: "string list"
  pi_conflicts :: "string list"
  pi_provides :: "string list"
  pi_optdepends :: "string list"
  pi_makedepends :: "string list"
  pi_checkdepends :: "string list"
  pi_pkgname :: string
  pi_pkgbase :: string
  pi_pkgver :: string
  pi_pkgdesc :: string
  pi_size :: nat
  pi_url :: string
  pi_arch :: string
  pi_builddate :: string
  pi_packager :: string
  pi_pgpsig :: string

definition pkginfo_new :: pkginfo where
  "pkginfo_new =
     \<lparr>pi_groups = [], pi_licenses = [], pi_replaces = [], pi_depends = [], pi_conflicts = [], pi_provides = [],
      pi_optdepends = [], pi_makedepends = [], pi_checkdepends = [], pi_pkgname = [], pi_pkgbase = [],
      pi_pkgver = [], pi_pkgdesc = [], pi_size = 0, pi_url = [], pi_arch = [], pi_builddate = [],
      pi_packager = [], pi_pgpsig = []\<rparr>"

datatype describe_error =
    CannotOpen path
  | UnsupportedType
  | BadArchive
  | BadPkginfo string
  | InvalidPackage
  | ArmoredSignature path
  | SignatureTooLarge path
  | InvalidPackagePath path

definition set_field :: "string \<Rightarrow> string \<Rightarrow> pkginfo \<Rightarrow> describe_error + pkginfo" where
  "set_field name v i =
     (if name = ''group'' then Inr (i\<lparr>pi_groups := pi_groups i @ [v]\<rparr>)
      else if name = ''license'' then Inr (i\<lparr>pi_licenses := pi_licenses i @ [v]\<rparr>)
      else if name = ''replaces'' then Inr (i\<lparr>pi_replaces := pi_replaces i @ [v]\<rparr>)
      else if name = ''depend'' then Inr (i\<lparr>pi_depends := pi_depends i @ [v]\<rparr>)
      else if name = ''conflict'' then Inr (i\<lparr>pi_conflicts := pi_conflicts i @ [v]\<rparr>)
      else if name = ''provides'' then Inr (i\<lparr>pi_provides := pi_provides i @ [v]\<rparr>)
      else if name = ''optdepend'' then Inr (i\<lparr>pi_optdepends := pi_optdepends i @ [v]\<rparr>)
      else if name = ''makedepend'' then Inr (i\<lparr>pi_makedepends := pi_makedepends i @ [v]\<rparr>)
      else if name = ''checkdepend'' then Inr (i\<lparr>pi_checkdepends := pi_checkdepends i @ [v]\<rparr>)
      else if name = ''pkgname'' then Inr (i\<lparr>pi_pkgname := v\<rparr>)
      else if name = ''pkgbase'' then Inr (i\<lparr>pi_pkgbase := v\<rparr>)
      else if name = ''pkgver'' then Inr (i\<lparr>pi_pkgver := v\<rparr>)
      else if name = ''pkgdesc'' then Inr (i\<lparr>pi_pkgdesc := v\<rparr>)
      else if name = ''size'' then
        (case parse_u64 v of None \<Rightarrow> Inl (BadPkginfo v) | Some n \<Rightarrow> Inr (i\<lparr>pi_size := n\<rparr>))
      else if name = ''url'' then Inr (i\<lparr>pi_url := v\<rparr>)
      else if name = ''arch'' then Inr (i\<lparr>pi_arch := v\<rparr>)
      else if name = ''builddate'' then Inr (i\<lparr>pi_builddate := v\<rparr>)
      else if name = ''packager'' then Inr (i\<lparr>pi_packager := v\<rparr>)
      else Inr i)"

definition parse_line :: "string \<Rightarrow> pkginfo \<Rightarrow> describe_error + pkginfo" where
  "parse_line line i =
     (if prefix ''#'' line then Inr i
      else (case split_once CHR ''='' line of
              None \<Rightarrow> Inr i
            | Some (name, v) \<Rightarrow> set_field (trim name) (trim v) i))"

primrec parse_lines :: "string list \<Rightarrow> pkginfo \<Rightarrow> describe_error + pkginfo" where
  "parse_lines [] i = Inr i"
| "parse_lines (l # ls) i =
     (if \<not> utf8 l then Inl (BadPkginfo l)
      else (case parse_line l i of Inl e \<Rightarrow> Inl e | Inr j \<Rightarrow> parse_lines ls j))"

definition parse :: "string \<Rightarrow> pkginfo \<Rightarrow> describe_error + pkginfo" where
  "parse txt i = parse_lines (str_lines txt) i"

definition valid :: "pkginfo \<Rightarrow> bool" where
  "valid i \<longleftrightarrow> pi_pkgname i \<noteq> [] \<and> pi_pkgver i \<noteq> []"

definition MAX_SIGNATURE_BYTES :: nat where "MAX_SIGNATURE_BYTES = 16384"

text \<open>\<open>at\<close> is the file system: the contents of the file at a path, if there is one.\<close>

definition set_signature :: "codec \<Rightarrow> (path \<Rightarrow> string option) \<Rightarrow> path \<Rightarrow> pkginfo \<Rightarrow> describe_error + pkginfo" where
  "set_signature C at pkgfile i =
     (let sigfile = with_suffix pkgfile ''.sig'' in
      case at sigfile of
        None \<Rightarrow> Inr i
      | Some sigdata \<Rightarrow>
          if prefix ''-----BEGIN PGP SIGNATURE-----'' sigdata then Inl (ArmoredSignature sigfile)
          else if length sigdata > MAX_SIGNATURE_BYTES then Inl (SignatureTooLarge sigfile)
          else Inr (i\<lparr>pi_pgpsig := base64 C sigdata\<rparr>))"

section \<open>Database entries\<close>

record desc =
  ds_filename :: string
  ds_name :: string
  ds_base :: string
  ds_version :: string
  ds_desc :: string
  ds_groups :: "string list"
  ds_csize :: string
  ds_isize :: string
  ds_md5sum :: string
  ds_sha256sum :: string
  ds_pgpsig :: string
  ds_url :: string
  ds_licenses :: "string list"
  ds_arch :: string
  ds_builddate :: string
  ds_packager :: string
  ds_replace :: "string list"
  ds_conflicts :: "string list"
  ds_provides :: "string list"
  ds_depends :: "string list"
  ds_optdepends :: "string list"
  ds_makedepends :: "string list"
  ds_checkdepends :: "string list"

definition to_uppercase :: "string \<Rightarrow> string" where
  "to_uppercase = map (\<lambda>c. if in_range 97 122 c then char_of (of_char c - 32 :: nat) else c)"

definition write_entry :: "string \<Rightarrow> string \<Rightarrow> string" where
  "write_entry header v =
     (if v = [] then [] else ''%'' @ to_uppercase header @ ''%'' @ [CHR 0x0A] @ v @ [CHR 0x0A, CHR 0x0A])"

definition write_entries :: "string \<Rightarrow> string list \<Rightarrow> string" where
  "write_entries header vs =
     (case vs of [] \<Rightarrow> [] | [v] \<Rightarrow> (if v = [] then [] else write_entry header v)
      | _ \<Rightarrow> write_entry header (join [CHR 0x0A] vs))"

definition desc_display :: "desc \<Rightarrow> string" where
  "desc_display d =
     write_entry ''filename'' (ds_filename d) @
     write_entry ''name'' (ds_name d) @
     write_entry ''base'' (ds_base d) @
     write_entry ''version'' (ds_version d) @
     write_entry ''desc'' (ds_desc d) @
     write_entries ''groups'' (ds_groups d) @
     write_entry ''csize'' (ds_csize d) @
     write_entry ''isize'' (ds_isize d) @
     write_entry ''md5sum'' (ds_md5sum d) @
     write_entry ''sha256sum'' (ds_sha256sum d) @
     write_entry ''pgpsig'' (ds_pgpsig d) @
     write_entry ''url'' (ds_url d) @
     write_entries ''license'' (ds_licenses d) @
     write_entry ''arch'' (ds_arch d) @
     write_entry ''builddate'' (ds_builddate d) @
     write_entry ''packager'' (ds_packager d) @
     write_entries ''replaces'' (ds_replace d) @
     write_entries ''conflicts'' (ds_conflicts d) @
     write_entries ''provides'' (ds_provides d) @
     write_entries ''depends'' (ds_depends d) @
     write_entries ''optdepends'' (ds_optdepends d) @
     write_entries ''makedepends'' (ds_makedepends d) @
     write_entries ''checkdepends'' (ds_checkdepends d)"

definition desc_from :: "pkginfo \<Rightarrow> desc" where
  "desc_from i =
     \<lparr>ds_filename = [], ds_name = pi_pkgname i, ds_base = pi_pkgbase i, ds_version = pi_pkgver i,
      ds_desc = pi_pkgdesc i, ds_groups = pi_groups i, ds_csize = [], ds_isize = show_nat (pi_size i),
      ds_md5sum = [], ds_sha256sum = [], ds_pgpsig = pi_pgpsig i, ds_url = pi_url i,
      ds_licenses = pi_licenses i, ds_arch = pi_arch i, ds_builddate = pi_builddate i,
      ds_packager = pi_packager i, ds_replace = pi_replaces i, ds_conflicts = pi_conflicts i,
      ds_provides = pi_provides i, ds_depends = pi_depends i, ds_optdepends = pi_optdepends i,
      ds_makedepends = pi_makedepends i, ds_checkdepends = pi_checkdepends i\<rparr>"

section \<open>Describing a package file\<close>

record package_entry =
  pe_filename :: string
  pe_dir_name :: string
  pe_desc :: string
  pe_files :: string

text \<open>The loop over the archive: the installed files, and the metadata where it finds it.\<close>

primrec read_members :: "member list \<Rightarrow> string list \<Rightarrow> pkginfo \<Rightarrow> describe_error + string list \<times> pkginfo" where
  "read_members [] found i = Inr (found, i)"
| "read_members (m # ms) found i =
     (let found' = (if prefix ''.'' (m_path m) then found else found @ [m_path m]) in
      if path_components (m_path m) = [''.PKGINFO''] then
        (case parse (m_data m) i of Inl e \<Rightarrow> Inl e | Inr j \<Rightarrow> read_members ms found' j)
      else read_members ms found' i)"

definition decompressor :: "codec \<Rightarrow> path \<Rightarrow> (string \<Rightarrow> member list option) option" where
  "decompressor C pkgfile =
     (if extension pkgfile = Some ''zst'' then Some (untar_zst C)
      else if extension pkgfile = Some ''xz'' then Some (untar_xz C)
      else None)"

definition read_package ::
    "codec \<Rightarrow> (path \<Rightarrow> string option) \<Rightarrow> path \<Rightarrow> describe_error + string list \<times> pkginfo" where
  "read_package C at pkgfile =
     (case at pkgfile of
        None \<Rightarrow> Inl (CannotOpen pkgfile)
      | Some bytes \<Rightarrow>
          (case decompressor C pkgfile of
             None \<Rightarrow> Inl UnsupportedType
           | Some untar \<Rightarrow>
               (case untar bytes of
                  None \<Rightarrow> Inl BadArchive
                | Some ms \<Rightarrow>
                    (case read_members ms [] pkginfo_new of
                       Inl e \<Rightarrow> Inl e
                     | Inr (found, i) \<Rightarrow>
                         if \<not> valid i then Inl InvalidPackage
                         else (case set_signature C at pkgfile i of Inl e \<Rightarrow> Inl e | Inr j \<Rightarrow> Inr (found, j))))))"

definition describe_package ::
    "codec \<Rightarrow> (path \<Rightarrow> string option) \<Rightarrow> path \<Rightarrow> describe_error + package_entry" where
  "describe_package C at pkgfile =
     (case read_package C at pkgfile of
        Inl e \<Rightarrow> Inl e
      | Inr (found, i) \<Rightarrow>
          (case (at pkgfile, file_name pkgfile) of
             (None, _) \<Rightarrow> Inl (CannotOpen pkgfile)
           | (_, None) \<Rightarrow> Inl (InvalidPackagePath pkgfile)
           | (Some bytes, Some filename) \<Rightarrow>
               if \<not> utf8 filename then Inl (InvalidPackagePath pkgfile)
               else Inr \<lparr>pe_filename = filename,
                    pe_dir_name = pi_pkgname i @ ''-'' @ pi_pkgver i,
                    pe_desc = desc_display ((desc_from i)\<lparr>ds_filename := filename, ds_md5sum := md5_hex C bytes,
                                ds_csize := show_nat (length bytes), ds_sha256sum := sha256_hex C bytes\<rparr>),
                    pe_files = ''%FILES%'' @ [CHR 0x0A] @ join [CHR 0x0A] (sort found)\<rparr>))"

section \<open>The databases\<close>

definition entry_dir_for_filename :: "string \<Rightarrow> string" where
  "entry_dir_for_filename filename = (case rsplit_once ''-'' filename of None \<Rightarrow> filename | Some (dir, _) \<Rightarrow> dir)"

definition path_starts_with :: "string \<Rightarrow> string \<Rightarrow> bool" where
  "path_starts_with p base \<longleftrightarrow> prefix (path_components base) (path_components p)"

definition superseded :: "string list \<Rightarrow> package_entry list \<Rightarrow> string \<Rightarrow> bool" where
  "superseded remove add p \<longleftrightarrow>
     (\<exists>dir \<in> set (map entry_dir_for_filename remove @ map pe_dir_name add). path_starts_with p dir)"

definition append_dir :: "codec \<Rightarrow> string \<Rightarrow> member list option" where
  "append_dir C dir_name =
     map_option (\<lambda>p. [\<lparr>m_path = p, m_dir = True, m_data = []\<rparr>]) (header_path C dir_name)"

definition append_file :: "codec \<Rightarrow> string \<Rightarrow> string \<Rightarrow> string \<Rightarrow> member list option" where
  "append_file C dir_name name content =
     map_option (\<lambda>p. [\<lparr>m_path = p, m_dir = False, m_data = content\<rparr>])
       (header_path C (dir_name @ ''/'' @ name))"

text \<open>What one entry appends to \<^verbatim>\<open>repo.db\<close> and to \<^verbatim>\<open>repo.files\<close>.\<close>

fun append_all :: "member list option list \<Rightarrow> member list option" where
  "append_all [] = Some []"
| "append_all (None # _) = None"
| "append_all (Some ms # rest) = map_option (\<lambda>ns. ms @ ns) (append_all rest)"

definition db_members :: "codec \<Rightarrow> package_entry \<Rightarrow> member list option list" where
  "db_members C e = [append_dir C (pe_dir_name e), append_file C (pe_dir_name e) ''desc'' (pe_desc e)]"

definition files_members :: "codec \<Rightarrow> package_entry \<Rightarrow> member list option list" where
  "files_members C e =
     [append_dir C (pe_dir_name e), append_file C (pe_dir_name e) ''desc'' (pe_desc e),
      append_file C (pe_dir_name e) ''files'' (pe_files e)]"

text \<open>
  \<^verbatim>\<open>rewrite_archive\<close>: what it writes to its output, given what its input holds (\<open>None\<close>
  when there is no such file); \<open>None\<close> for an error, which leaves an unfinished output.
\<close>

definition rewrite_archive ::
    "codec \<Rightarrow> string option \<Rightarrow> (string \<Rightarrow> bool) \<Rightarrow> member list option list \<Rightarrow> string option" where
  "rewrite_archive C input drops fill =
     (case (case input of None \<Rightarrow> Some [] | Some bytes \<Rightarrow> untar_gz C bytes) of
        None \<Rightarrow> None
      | Some ms \<Rightarrow>
          (case append_all fill of
             None \<Rightarrow> None
           | Some added \<Rightarrow> Some (tar_gz C (filter (\<lambda>m. \<not> drops (m_path m)) ms @ added))))"

definition updated_db :: "codec \<Rightarrow> string option \<Rightarrow> string list \<Rightarrow> package_entry list \<Rightarrow> string option" where
  "updated_db C old remove add = rewrite_archive C old (superseded remove add) (concat (map (db_members C) add))"

definition updated_files :: "codec \<Rightarrow> string option \<Rightarrow> string list \<Rightarrow> package_entry list \<Rightarrow> string option" where
  "updated_files C old remove add = rewrite_archive C old (superseded remove add) (concat (map (files_members C) add))"

fun scan_filenames :: "string list \<Rightarrow> string list" where
  "scan_filenames [] = []"
| "scan_filenames (l # ls) =
     (if l = ''%FILENAME%'' then (case ls of [] \<Rightarrow> [] | f # rest \<Rightarrow> trim f # scan_filenames rest)
      else scan_filenames ls)"

definition desc_filenames :: "string \<Rightarrow> string list" where
  "desc_filenames txt = scan_filenames (str_lines txt)"

text \<open>\<^verbatim>\<open>None\<close> where reading the database fails.\<close>

fun listed_members :: "member list \<Rightarrow> string list option" where
  "listed_members [] = Some []"
| "listed_members (m # ms) =
     (if file_name (path_components (m_path m)) \<noteq> Some ''desc'' then listed_members ms
      else if \<not> utf8 (m_data m) then None
      else map_option (\<lambda>fs. desc_filenames (m_data m) @ fs) (listed_members ms))"

definition listed_filenames :: "codec \<Rightarrow> string \<Rightarrow> string set option" where
  "listed_filenames C bytes =
     (case untar_gz C bytes of None \<Rightarrow> None | Some ms \<Rightarrow> map_option set (listed_members ms))"

section \<open>Byte strings that are text\<close>

lemma utf8_tail_ascii:
  assumes "in_range 0 0x7F c" "\<forall>(lo, hi) \<in> set rs. 0x80 \<le> lo"
  shows "utf8_tail rs (a @ c # b) = Some t \<longleftrightarrow> (\<exists>u. utf8_tail rs a = Some u \<and> t = u @ c # b)"
  using assms
proof (induction rs a rule: utf8_tail.induct)
  case (2 r rs)
  then show ?case by (cases r) (auto simp: in_range_def)
qed auto

lemma utf8_follow_high: "utf8_follow c = Some rs \<Longrightarrow> \<forall>(lo, hi) \<in> set rs. 0x80 \<le> lo"
  by (auto simp: utf8_follow_def Let_def split: if_splits)

lemma utf8_tail_append: "utf8_tail rs a = Some u \<Longrightarrow> utf8_tail rs (a @ b) = Some (u @ b)"
  by (induction rs a rule: utf8_tail.induct) (auto split: if_splits)

lemma utf8_append: "utf8 a \<Longrightarrow> utf8 b \<Longrightarrow> utf8 (a @ b)"
  by (induction a rule: utf8.induct) (auto simp: utf8_tail_append split: option.splits)

lemma utf8_ascii_Cons: "in_range 0 0x7F c \<Longrightarrow> utf8 (c # s) = utf8 s"
  by (simp add: utf8_follow_def Let_def)

lemma utf8_ascii: "\<forall>c \<in> set s. in_range 0 0x7F c \<Longrightarrow> utf8 s"
  by (induction s) (simp_all add: utf8_ascii_Cons del: utf8.simps(2))

lemma utf8_split:
  assumes "in_range 0 0x7F c"
  shows "utf8 (a @ c # b) \<longleftrightarrow> utf8 a \<and> utf8 b"
proof (induction a rule: utf8.induct)
  case 1
  then show ?case by (simp add: utf8_ascii_Cons [OF assms] del: utf8.simps(2))
next
  case (2 d s)
  show ?case
  proof (cases "utf8_follow d")
    case (Some rs)
    have t: "utf8_tail rs (s @ c # b) = Some t \<longleftrightarrow> (\<exists>u. utf8_tail rs s = Some u \<and> t = u @ c # b)" for t
      by (rule utf8_tail_ascii [OF assms utf8_follow_high [OF Some]])
    show ?thesis
    proof (cases "utf8_tail rs s")
      case None
      then have "utf8_tail rs (s @ c # b) = None" using t by (metis not_None_eq option.distinct(1))
      with None Some show ?thesis by simp
    next
      case u: (Some u)
      then have "utf8_tail rs (s @ c # b) = Some (u @ c # b)" using t by blast
      with u Some 2 [OF Some u] show ?thesis by simp
    qed
  qed simp
qed

lemma whitespace_ascii: "is_whitespace c \<Longrightarrow> in_range 0 0x7F c"
  by (auto simp: is_whitespace_def in_range_def)

lemma utf8_dropWhile: "utf8 s \<Longrightarrow> utf8 (dropWhile is_whitespace s)"
  by (induction s) (auto simp: utf8_ascii_Cons [OF whitespace_ascii] simp del: utf8.simps(2))

lemma utf8_trim_end: "utf8 s \<Longrightarrow> utf8 (trim_end s)"
proof (induction s rule: rev_induct)
  case (snoc c s)
  show ?case
  proof (cases "is_whitespace c")
    case True
    with snoc show ?thesis using utf8_split [OF whitespace_ascii [OF True], of s "[]"] by (simp add: trim_end_def)
  next
    case False
    with snoc.prems show ?thesis by (simp add: trim_end_def)
  qed
qed (simp add: trim_end_def)

lemma utf8_trim: "utf8 s \<Longrightarrow> utf8 (trim s)"
  by (simp add: trim_def trim_start_def utf8_dropWhile utf8_trim_end)

lemma utf8_split_once:
  assumes "split_once c s = Some (a, b)" "in_range 0 0x7F c" "utf8 s"
  shows "utf8 a \<and> utf8 b"
proof -
  from assms(1) have c: "c \<in> set s" and ab: "a = takeWhile (\<lambda>x. x \<noteq> c) s" "b = tl (dropWhile (\<lambda>x. x \<noteq> c) s)"
    by (auto simp: split_once_def split: if_splits)
  then have "dropWhile (\<lambda>x. x \<noteq> c) s \<noteq> []" by (auto simp: dropWhile_eq_Nil_conv)
  then have "dropWhile (\<lambda>x. x \<noteq> c) s = c # b"
    using hd_dropWhile [of "\<lambda>x. x \<noteq> c" s] ab(2) by (metis list.collapse)
  then have "s = a @ c # b" using ab(1) takeWhile_dropWhile_id [of "\<lambda>x. x \<noteq> c" s] by simp
  with assms show ?thesis using utf8_split by blast
qed

section \<open>Lines\<close>

definition text_line :: "string \<Rightarrow> bool" where
  "text_line l \<longleftrightarrow> CHR 0x0A \<notin> set l \<and> trimmed l \<and> utf8 l"

definition unlines :: "string list \<Rightarrow> string" where
  "unlines ls = concat (map (\<lambda>l. l @ [CHR 0x0A]) ls)"

lemma unlines_simps [simp]: "unlines [] = []" "unlines (l # ls) = l @ CHR 0x0A # unlines ls"
  "unlines (ls @ ms) = unlines ls @ unlines ms"
  by (simp_all add: unlines_def)

lemma strip_cr_trimmed: "trimmed l \<Longrightarrow> strip_cr l = l"
  by (auto simp: strip_cr_def trimmed_def is_whitespace_def)

lemma str_lines_unlines: "\<forall>l \<in> set ls. text_line l \<Longrightarrow> str_lines (unlines ls) = ls"
proof (induction ls)
  case Nil
  then show ?case by (simp add: str_lines_def)
next
  case (Cons l ls)
  then have "split_on CHR 0x0A (unlines (l # ls)) = l # split_on CHR 0x0A (unlines ls)"
    by (simp add: text_line_def split_on_append)
  then have "str_lines (unlines (l # ls)) = strip_cr l # str_lines (unlines ls)"
    by (simp add: str_lines_def Let_def)
  with Cons show ?case by (simp add: text_line_def strip_cr_trimmed)
qed

lemma utf8_unlines: "\<forall>l \<in> set ls. text_line l \<Longrightarrow> utf8 (unlines ls)"
  by (induction ls) (simp_all add: utf8_split in_range_def text_line_def del: utf8.simps(2))

lemma join_unlines: "vs \<noteq> [] \<Longrightarrow> join [CHR 0x0A] vs @ [CHR 0x0A] = unlines vs"
  by (induction "[CHR 0x0A]" vs rule: join.induct) auto

lemma join_eq_Nil: "join [c] vs = [] \<longleftrightarrow> vs = [] \<or> vs = [[]]"
  by (cases "([c], vs)" rule: join.cases) auto

section \<open>Metadata fields are lines of text\<close>

definition desc_sections :: "desc \<Rightarrow> (string \<times> string list) list" where
  "desc_sections d =
     [(''filename'', [ds_filename d]), (''name'', [ds_name d]), (''base'', [ds_base d]),
      (''version'', [ds_version d]), (''desc'', [ds_desc d]), (''groups'', ds_groups d),
      (''csize'', [ds_csize d]), (''isize'', [ds_isize d]), (''md5sum'', [ds_md5sum d]),
      (''sha256sum'', [ds_sha256sum d]), (''pgpsig'', [ds_pgpsig d]), (''url'', [ds_url d]),
      (''license'', ds_licenses d), (''arch'', [ds_arch d]), (''builddate'', [ds_builddate d]),
      (''packager'', [ds_packager d]), (''replaces'', ds_replace d), (''conflicts'', ds_conflicts d),
      (''provides'', ds_provides d), (''depends'', ds_depends d), (''optdepends'', ds_optdepends d),
      (''makedepends'', ds_makedepends d), (''checkdepends'', ds_checkdepends d)]"

definition section_lines :: "string \<times> string list \<Rightarrow> string list" where
  "section_lines = (\<lambda>(header, vs).
     if vs = [] \<or> vs = [[]] then [] else (''%'' @ to_uppercase header @ ''%'') # vs @ [[]])"

lemma write_entry_lines: "write_entry h v = unlines (section_lines (h, [v]))"
  by (simp add: write_entry_def section_lines_def)

lemma write_entries_lines: "write_entries h vs = unlines (section_lines (h, vs))"
proof (cases "vs = [] \<or> vs = [[]]")
  case True
  then show ?thesis by (auto simp: write_entries_def section_lines_def)
next
  case False
  then have "write_entries h vs = write_entry h (join [CHR 0x0A] vs)"
    by (auto simp: write_entries_def split: list.splits)
  moreover have "join [CHR 0x0A] vs \<noteq> []" using False by (simp add: join_eq_Nil)
  ultimately show ?thesis
    using False join_unlines [of vs] by (auto simp: write_entry_def section_lines_def)
qed

lemma desc_display_lines: "desc_display d = unlines (concat (map section_lines (desc_sections d)))"
  by (simp add: desc_display_def desc_sections_def write_entry_lines write_entries_lines)

lemma to_uppercase_FILENAME: "to_uppercase ''filename'' = ''FILENAME''"
  by code_simp

lemma section_headers:
  "map (\<lambda>(h, _). ''%'' @ to_uppercase h @ ''%'') (desc_sections d) =
   [''%FILENAME%'', ''%NAME%'', ''%BASE%'', ''%VERSION%'', ''%DESC%'', ''%GROUPS%'', ''%CSIZE%'', ''%ISIZE%'',
    ''%MD5SUM%'', ''%SHA256SUM%'', ''%PGPSIG%'', ''%URL%'', ''%LICENSE%'', ''%ARCH%'', ''%BUILDDATE%'',
    ''%PACKAGER%'', ''%REPLACES%'', ''%CONFLICTS%'', ''%PROVIDES%'', ''%DEPENDS%'', ''%OPTDEPENDS%'',
    ''%MAKEDEPENDS%'', ''%CHECKDEPENDS%'']"
  by (simp add: desc_sections_def to_uppercase_def in_range_def char_of_def bit_0)

lemma scan_skip: "''%FILENAME%'' \<notin> set ls \<Longrightarrow> scan_filenames (ls @ rest) = scan_filenames rest"
  by (induction ls) auto

lemma scan_none: "''%FILENAME%'' \<notin> set ls \<Longrightarrow> scan_filenames ls = []"
  using scan_skip [of ls "[]"] by simp

lemma text_line_Nil [simp]: "text_line []"
  by (simp add: text_line_def)

lemma text_line_plain: "plain s \<Longrightarrow> text_line s"
proof -
  assume p: "plain s"
  then have ws: "c \<in> set s \<Longrightarrow> \<not> is_whitespace c" for c
    by (fastforce simp: plain_def in_range_def is_whitespace_def)
  have "CHR 0x0A \<notin> set s" using ws [of "CHR 0x0A"] by (auto simp: is_whitespace_def)
  moreover have "trimmed s" using ws by (cases s) (auto simp: trimmed_def)
  moreover have "utf8 s" using p unfolding plain_def by (intro utf8_ascii ballI) (force simp: in_range_def)
  ultimately show ?thesis by (simp add: text_line_def)
qed

lemma header_plain: "h \<in> set (map (\<lambda>(h, _). ''%'' @ to_uppercase h @ ''%'') (desc_sections d)) \<Longrightarrow> text_line h"
  unfolding section_headers
  by (auto simp: text_line_def trimmed_def is_whitespace_def utf8_follow_def in_range_def Let_def)

definition desc_values :: "desc \<Rightarrow> string set" where
  "desc_values d = (\<Union>(h, vs) \<in> set (desc_sections d). set vs)"

lemma section_text:
  assumes "\<forall>v \<in> desc_values d. text_line v" "l \<in> set (concat (map section_lines (desc_sections d)))"
  shows "text_line l"
proof -
  from assms(2) obtain h vs where hv: "(h, vs) \<in> set (desc_sections d)" "l \<in> set (section_lines (h, vs))"
    by auto
  then have "l = ''%'' @ to_uppercase h @ ''%'' \<or> l \<in> set vs \<or> l = []"
    by (auto simp: section_lines_def split: if_splits)
  moreover have "text_line (''%'' @ to_uppercase h @ ''%'')"
    using hv(1) by (intro header_plain [of _ d]) force
  moreover have "l \<in> set vs \<Longrightarrow> text_line l" using assms(1) hv(1) by (auto simp: desc_values_def)
  ultimately show ?thesis by auto
qed

lemma desc_display_text: "\<forall>v \<in> desc_values d. text_line v \<Longrightarrow> utf8 (desc_display d)"
  unfolding desc_display_lines by (rule utf8_unlines) (blast intro: section_text)

lemma desc_display_filename:
  assumes good: "\<forall>v \<in> desc_values d. text_line v" and name: "ds_filename d \<noteq> []"
    and clean: "''%FILENAME%'' \<notin> desc_values (d\<lparr>ds_filename := []\<rparr>)"
  shows "desc_filenames (desc_display d) = [ds_filename d]"
proof -
  let ?ss = "desc_sections d"
  have lines: "str_lines (desc_display d) = concat (map section_lines ?ss)"
    unfolding desc_display_lines by (rule str_lines_unlines) (use good section_text in blast)
  have sec: "section_lines (hd ?ss) = [''%FILENAME%'', ds_filename d, []]"
    using name by (simp add: desc_sections_def section_lines_def to_uppercase_FILENAME)
  have tl: "tl ?ss = tl (desc_sections (d\<lparr>ds_filename := []\<rparr>))" by (simp add: desc_sections_def)
  have "''%FILENAME%'' \<notin> set (concat (map section_lines (tl ?ss)))"
  proof
    assume "''%FILENAME%'' \<in> set (concat (map section_lines (tl ?ss)))"
    then obtain h vs where hv: "(h, vs) \<in> set (tl ?ss)" "''%FILENAME%'' \<in> set (section_lines (h, vs))" by auto
    have "''%FILENAME%'' \<notin> set vs"
      using clean hv(1) list.set_sel(2) [of "desc_sections (d\<lparr>ds_filename := []\<rparr>)" "(h, vs)"]
      unfolding tl desc_values_def by (fastforce simp: desc_sections_def)
    with hv(2) have "''%FILENAME%'' = ''%'' @ to_uppercase h @ ''%''"
      by (auto simp: section_lines_def split: if_splits)
    then have "''%FILENAME%'' \<in> set (map (\<lambda>(h, _). ''%'' @ to_uppercase h @ ''%'') (tl ?ss))"
      using hv(1) by force
    then show False unfolding map_tl section_headers by simp
  qed
  then have "scan_filenames (section_lines (hd ?ss) @ concat (map section_lines (tl ?ss))) = [trim (ds_filename d)]"
    unfolding sec by (simp add: scan_none)
  moreover have "section_lines (hd ?ss) @ concat (map section_lines (tl ?ss)) = concat (map section_lines ?ss)"
    by (simp add: desc_sections_def)
  moreover have "ds_filename d \<in> desc_values d" by (simp add: desc_values_def desc_sections_def)
  ultimately show ?thesis using good by (simp add: desc_filenames_def lines text_line_def trim_trimmed)
qed

lemma digits_plain: "plain (show_nat n)"
  using show_nat_digits [of n]
  by (fastforce simp: plain_def list_all_iff is_ascii_digit_def in_range_def)

lemma lines_no_newline:
  assumes "l \<in> set (str_lines s)"
  shows "CHR 0x0A \<notin> set l"
proof -
  let ?parts = "split_on CHR 0x0A s"
  have cr: "set (strip_cr m) \<subseteq> set m" for m by (auto simp: strip_cr_def dest: in_set_butlastD)
  from assms have "l \<in> strip_cr ` set (butlast ?parts) \<or> l = last ?parts"
    by (auto simp: str_lines_def Let_def split: if_splits)
  then obtain m where "m \<in> set ?parts" "set l \<subseteq> set m"
    using cr last_in_set [of ?parts] in_set_butlastD [of _ ?parts] split_on_neq_Nil by blast
  then show ?thesis using set_split_on [of m "CHR 0x0A" s] by blast
qed

lemma text_line_trim: "CHR 0x0A \<notin> set s \<Longrightarrow> utf8 s \<Longrightarrow> text_line (trim s)"
  using set_trim [of s] by (auto simp: text_line_def utf8_trim)

definition info_text :: "pkginfo \<Rightarrow> bool" where
  "info_text i \<longleftrightarrow> (\<forall>v \<in> desc_values (desc_from i). text_line v)"

lemma info_text_new: "info_text pkginfo_new"
  by (simp add: info_text_def desc_values_def desc_sections_def desc_from_def pkginfo_new_def
      text_line_plain [OF digits_plain])

lemma set_field_results:
  "set_field name v i = Inr j \<Longrightarrow>
   j \<in> {i, i\<lparr>pi_groups := pi_groups i @ [v]\<rparr>, i\<lparr>pi_licenses := pi_licenses i @ [v]\<rparr>,
      i\<lparr>pi_replaces := pi_replaces i @ [v]\<rparr>, i\<lparr>pi_depends := pi_depends i @ [v]\<rparr>,
      i\<lparr>pi_conflicts := pi_conflicts i @ [v]\<rparr>, i\<lparr>pi_provides := pi_provides i @ [v]\<rparr>,
      i\<lparr>pi_optdepends := pi_optdepends i @ [v]\<rparr>, i\<lparr>pi_makedepends := pi_makedepends i @ [v]\<rparr>,
      i\<lparr>pi_checkdepends := pi_checkdepends i @ [v]\<rparr>, i\<lparr>pi_pkgname := v\<rparr>, i\<lparr>pi_pkgbase := v\<rparr>,
      i\<lparr>pi_pkgver := v\<rparr>, i\<lparr>pi_pkgdesc := v\<rparr>, i\<lparr>pi_url := v\<rparr>, i\<lparr>pi_arch := v\<rparr>,
      i\<lparr>pi_builddate := v\<rparr>, i\<lparr>pi_packager := v\<rparr>} \<union> range (\<lambda>n. i\<lparr>pi_size := n\<rparr>)"
  unfolding set_field_def
  by (split if_split_asm, simp only: sum.inject insert_iff Un_iff simp_thms)+
     (auto split: option.splits if_splits)

definition info_values :: "pkginfo \<Rightarrow> string set" where
  "info_values i =
     {pi_pkgname i, pi_pkgbase i, pi_pkgver i, pi_pkgdesc i, pi_url i, pi_arch i, pi_builddate i, pi_packager i,
      pi_pgpsig i} \<union> set (pi_groups i) \<union> set (pi_licenses i) \<union> set (pi_replaces i) \<union> set (pi_depends i) \<union>
     set (pi_conflicts i) \<union> set (pi_provides i) \<union> set (pi_optdepends i) \<union> set (pi_makedepends i) \<union>
     set (pi_checkdepends i)"

lemma info_values_set_field: "set_field name v i = Inr j \<Longrightarrow> info_values j \<subseteq> insert v (info_values i)"
  by (drule set_field_results) (elim UnE insertE emptyE rangeE; simp add: info_values_def; blast)

lemma desc_values_from: "desc_values (desc_from i) = info_values i \<union> {[], show_nat (pi_size i)}"
  by (auto simp: desc_values_def desc_sections_def desc_from_def info_values_def)

lemma info_text_iff: "info_text i \<longleftrightarrow> (\<forall>v \<in> info_values i. text_line v)"
  by (auto simp: info_text_def desc_values_from text_line_plain [OF digits_plain])

lemma info_text_set_field:
  "set_field name v i = Inr j \<Longrightarrow> info_text i \<Longrightarrow> text_line v \<Longrightarrow> info_text j"
  using info_values_set_field [of name v i j] by (auto simp: info_text_iff)

lemma info_text_parse_line:
  assumes "parse_line l i = Inr j" "info_text i" "CHR 0x0A \<notin> set l" "utf8 l"
  shows "info_text j"
proof (cases "prefix ''#'' l \<or> split_once CHR ''='' l = None")
  case True
  with assms show ?thesis by (auto simp: parse_line_def split: if_splits option.splits)
next
  case False
  then obtain n v where s: "split_once CHR ''='' l = Some (n, v)" and f: "set_field (trim n) (trim v) i = Inr j"
    using assms(1) by (auto simp: parse_line_def)
  have "set v \<subseteq> set l" using s by (auto simp: split_once_def split: if_splits dest: list.set_sel(2) set_dropWhileD)
       (metis list.sel(2) list.set_sel(2) set_dropWhileD)
  moreover have "utf8 v" using utf8_split_once [OF s _ assms(4)] by (simp add: in_range_def)
  ultimately show ?thesis using info_text_set_field [OF f assms(2) text_line_trim] assms(3) by blast
qed

lemma info_text_parse_lines:
  "parse_lines ls i = Inr j \<Longrightarrow> info_text i \<Longrightarrow> \<forall>l \<in> set ls. CHR 0x0A \<notin> set l \<Longrightarrow> info_text j"
proof (induction ls arbitrary: i)
  case (Cons l ls)
  then obtain k where "utf8 l" "parse_line l i = Inr k" "parse_lines ls k = Inr j"
    by (auto split: if_splits sum.splits)
  with Cons show ?case using info_text_parse_line by auto
qed simp

lemma info_text_read_members:
  "read_members ms found i = Inr (found', j) \<Longrightarrow> info_text i \<Longrightarrow> info_text j"
proof (induction ms arbitrary: found i)
  case (Cons m ms)
  show ?case
  proof (cases "path_components (m_path m) = [''.PKGINFO'']")
    case True
    with Cons.prems(1) obtain k f where "parse (m_data m) i = Inr k" "read_members ms f k = Inr (found', j)"
      by (auto simp: Let_def split: sum.splits if_splits)
    with Cons show ?thesis using info_text_parse_lines lines_no_newline by (metis parse_def)
  next
    case False
    with Cons show ?thesis by (auto simp: Let_def split: if_splits)
  qed
qed simp

lemma info_text_signature:
  assumes "set_signature C at p i = Inr j" "info_text i" "codec_laws C"
  shows "info_text j"
proof -
  have "text_line (base64 C s)" for s using assms(3) by (simp add: codec_laws_def text_line_plain)
  with assms(1,2) show ?thesis
    by (auto simp: set_signature_def Let_def info_text_def desc_values_def desc_sections_def desc_from_def
        split: option.splits if_splits)
qed

lemma info_text_read_package:
  assumes "read_package C at p = Inr (found, i)" "codec_laws C"
  shows "info_text i"
proof -
  from assms(1) obtain ms k where "read_members ms [] pkginfo_new = Inr (found, k)" "set_signature C at p k = Inr i"
    by (auto simp: read_package_def split: option.splits sum.splits if_splits)
  then show ?thesis using info_text_signature info_text_read_members info_text_new assms(2) by blast
qed

section \<open>Entries and databases that agree with the file names\<close>

definition simple_name :: "string \<Rightarrow> bool" where
  "simple_name n \<longleftrightarrow> n \<noteq> [] \<and> n \<noteq> ''.'' \<and> CHR ''/'' \<notin> set n"

definition conforming_entry :: "package_entry \<Rightarrow> bool" where
  "conforming_entry e \<longleftrightarrow>
     desc_filenames (pe_desc e) = [pe_filename e] \<and> utf8 (pe_desc e) \<and>
     entry_dir_for_filename (pe_filename e) = pe_dir_name e \<and> simple_name (pe_dir_name e) \<and>
     pe_dir_name e \<noteq> ''desc''"

definition conforming_member :: "member \<Rightarrow> bool" where
  "conforming_member m \<longleftrightarrow>
     file_name (path_components (m_path m)) = Some ''desc'' \<longrightarrow>
     utf8 (m_data m) \<and>
     (case desc_filenames (m_data m) of
        [f] \<Rightarrow> path_components (m_path m) = [entry_dir_for_filename f, ''desc'']
      | _ \<Rightarrow> False)"

definition conforming_db :: "codec \<Rightarrow> string option \<Rightarrow> bool" where
  "conforming_db C bytes =
     (case bytes of
        None \<Rightarrow> True
      | Some b \<Rightarrow> (case untar_gz C b of None \<Rightarrow> False | Some ms \<Rightarrow> list_all conforming_member ms))"

text \<open>The names a database lists; none where there is no database.\<close>

definition listing :: "codec \<Rightarrow> string option \<Rightarrow> string set" where
  "listing C bytes =
     (case bytes of None \<Rightarrow> {} | Some b \<Rightarrow> (case listed_filenames C b of None \<Rightarrow> {} | Some fs \<Rightarrow> fs))"

lemma path_components_simple [simp]: "simple_name n \<Longrightarrow> path_components n = [n]"
  by (simp add: path_components_def simple_name_def split_on_clean)

lemma path_components_in_dir:
  "simple_name d \<Longrightarrow> simple_name n \<Longrightarrow> path_components (d @ ''/'' @ n) = [d, n]"
  by (simp add: path_components_def simple_name_def split_on_append split_on_clean)

lemma rsplit_dash: "CHR ''-'' \<notin> set b \<Longrightarrow> rsplit_once ''-'' (a @ ''-'' @ b) = Some (a, b)"
  using rsplit_once_last [of "CHR ''-''" b "[]" a] by simp

lemma conforming_listed:
  "list_all conforming_member ms \<Longrightarrow>
   \<exists>fs. listed_members ms = Some fs \<and>
     set fs = {f. \<exists>m \<in> set ms. file_name (path_components (m_path m)) = Some ''desc'' \<and> desc_filenames (m_data m) = [f]}"
proof (induction ms)
  case (Cons m ms)
  then obtain fs where fs: "listed_members ms = Some fs"
    "set fs = {f. \<exists>m \<in> set ms. file_name (path_components (m_path m)) = Some ''desc'' \<and> desc_filenames (m_data m) = [f]}"
    by auto
  show ?case
  proof (cases "file_name (path_components (m_path m)) = Some ''desc''")
    case True
    with Cons.prems obtain f where "utf8 (m_data m)" "desc_filenames (m_data m) = [f]"
      by (auto simp: conforming_member_def split: list.splits)
    with True fs show ?thesis by auto
  next
    case False
    with fs show ?thesis by auto
  qed
qed simp

text \<open>The set of names an update leaves.\<close>

definition updated_listing :: "string list \<Rightarrow> package_entry list \<Rightarrow> string set \<Rightarrow> string set" where
  "updated_listing remove add old =
     {f \<in> old. entry_dir_for_filename f \<notin> set (map entry_dir_for_filename remove @ map pe_dir_name add)} \<union>
     set (map pe_filename add)"

lemma superseded_desc:
  assumes "path_components p = [d, ''desc'']"
    "\<forall>dir \<in> set (map entry_dir_for_filename remove @ map pe_dir_name add). simple_name dir"
  shows "superseded remove add p \<longleftrightarrow> d \<in> set (map entry_dir_for_filename remove @ map pe_dir_name add)"
  using assms by (auto simp: superseded_def path_starts_with_def)

lemma append_all_set:
  "append_all xs = Some ms \<Longrightarrow> m \<in> set ms \<longleftrightarrow> (\<exists>ns. Some ns \<in> set xs \<and> m \<in> set ns)"
  by (induction xs arbitrary: ms rule: append_all.induct) (fastforce split: option.splits)+

lemma append_all_Some: "append_all xs = Some ms \<Longrightarrow> x \<in> set xs \<Longrightarrow> \<exists>ns. x = Some ns"
  by (induction xs arbitrary: ms rule: append_all.induct) auto

lemma file_name_in_dir [simp]: "simple_name n \<Longrightarrow> n \<noteq> ''..'' \<Longrightarrow> file_name [d, n] = Some n"
  by (auto simp: file_name_def simple_name_def)

lemma header_in_dir:
  assumes "codec_laws C" "header_path C (d @ ''/'' @ n) = Some q" "simple_name d" "simple_name n"
  shows "path_components q = [d, n]"
proof -
  have "path_components (d @ ''/'' @ n) = [d, n]" by (rule path_components_in_dir [OF assms(3,4)])
  moreover have "''.'' \<notin> set [d, n]" using assms(3,4) by (auto simp: simple_name_def)
  ultimately show ?thesis using assms(1,2) unfolding codec_laws_def by metis
qed

lemma header_simple:
  "codec_laws C \<Longrightarrow> header_path C d = Some q \<Longrightarrow> simple_name d \<Longrightarrow> path_components q = [d]"
  unfolding codec_laws_def by (metis path_components_simple list.set(1) list.set(2) empty_iff insert_iff simple_name_def)

text \<open>What one entry adds to \<^verbatim>\<open>repo.db\<close>: its directory and a \<^verbatim>\<open>desc\<close> in it.\<close>

lemma db_members_entry:
  assumes laws: "codec_laws C" and e: "conforming_entry e" and m: "Some ns \<in> set (db_members C e)" "m \<in> set ns"
  shows "(path_components (m_path m) = [pe_dir_name e] \<and> m_dir m) \<or>
         (path_components (m_path m) = [pe_dir_name e, ''desc''] \<and> m_data m = pe_desc e)"
proof -
  have d: "simple_name (pe_dir_name e)" using e by (simp add: conforming_entry_def)
  have "simple_name ''desc''" by (simp add: simple_name_def)
  with m header_simple [OF laws _ d] header_in_dir [OF laws _ d] show ?thesis
    by (auto simp: db_members_def append_dir_def append_file_def dest!: sym [of "Some _"])
qed

lemma db_members_desc:
  assumes laws: "codec_laws C" and e: "conforming_entry e" and all: "append_all (concat (map (db_members C) add)) = Some ms"
    and mem: "e \<in> set add"
  shows "\<exists>m \<in> set ms. path_components (m_path m) = [pe_dir_name e, ''desc''] \<and> m_data m = pe_desc e"
proof -
  let ?x = "append_file C (pe_dir_name e) ''desc'' (pe_desc e)"
  have x: "?x \<in> set (concat (map (db_members C) add))" using mem by (auto simp: db_members_def)
  obtain q where q: "header_path C (pe_dir_name e @ ''/'' @ ''desc'') = Some q"
    using append_all_Some [OF all x] by (auto simp: append_file_def)
  then have "\<lparr>m_path = q, m_dir = False, m_data = pe_desc e\<rparr> \<in> set ms"
    unfolding append_all_set [OF all] using x by (auto simp: append_file_def intro!: exI [of _ "[_]"])
  moreover have "path_components q = [pe_dir_name e, ''desc'']"
    using header_in_dir [OF laws q] e by (simp add: conforming_entry_def simple_name_def)
  ultimately show ?thesis by force
qed

lemma db_members_conforming:
  assumes "codec_laws C" "conforming_entry e" "Some ns \<in> set (db_members C e)" "m \<in> set ns"
  shows "conforming_member m" "file_name (path_components (m_path m)) = Some ''desc'' \<Longrightarrow> m_data m = pe_desc e"
  using db_members_entry [OF assms] assms(2)
  by (auto simp: conforming_member_def conforming_entry_def file_name_def split: if_splits)

lemma conforming_db_members:
  assumes "codec_laws C" "conforming_db C old"
  obtains ms where "(case old of None \<Rightarrow> Some [] | Some bytes \<Rightarrow> untar_gz C bytes) = Some ms"
    "list_all conforming_member ms" "old = None \<longrightarrow> ms = []" "\<And>b. old = Some b \<Longrightarrow> untar_gz C b = Some ms"
  using assms by (auto simp: conforming_db_def split: option.splits)

lemma listing_members:
  assumes "untar_gz C b = Some ms" "list_all conforming_member ms"
  shows "listing C (Some b) =
    {f. \<exists>m \<in> set ms. file_name (path_components (m_path m)) = Some ''desc'' \<and> desc_filenames (m_data m) = [f]}"
  using conforming_listed [OF assms(2)] assms(1) by (auto simp: listing_def listed_filenames_def)

lemma database_updated:
  assumes laws: "codec_laws C" and old: "conforming_db C old"
    and add: "\<forall>e \<in> set add. conforming_entry e" and remove: "\<forall>f \<in> set remove. simple_name (entry_dir_for_filename f)"
    and new: "updated_db C old remove add = Some new"
  shows "conforming_db C (Some new)" "listing C (Some new) = updated_listing remove add (listing C old)"
proof -
  let ?dirs = "set (map entry_dir_for_filename remove @ map pe_dir_name add)"
  let ?desc = "\<lambda>m. file_name (path_components (m_path m)) = Some ''desc''"
  obtain ms where ms: "(case old of None \<Rightarrow> Some [] | Some bytes \<Rightarrow> untar_gz C bytes) = Some ms"
    "list_all conforming_member ms" "old = None \<longrightarrow> ms = []" "\<And>b. old = Some b \<Longrightarrow> untar_gz C b = Some ms"
    using conforming_db_members [OF laws old] by blast
  from new ms(1) obtain added where
    added: "append_all (concat (map (db_members C) add)) = Some added"
    "new = tar_gz C (filter (\<lambda>m. \<not> superseded remove add (m_path m)) ms @ added)"
    by (auto simp: updated_db_def rewrite_archive_def split: option.splits)
  let ?kept = "filter (\<lambda>m. \<not> superseded remove add (m_path m)) ms"
  have untar: "untar_gz C new = Some (?kept @ added)" using laws added(2) by (simp add: codec_laws_def)
  have from_add: "\<exists>e \<in> set add. \<exists>ns. Some ns \<in> set (db_members C e) \<and> m \<in> set ns" if "m \<in> set added" for m
    using that unfolding append_all_set [OF added(1)] by auto
  have conf: "list_all conforming_member (?kept @ added)"
    using ms(2) from_add db_members_conforming(1) [OF laws] add by (auto simp: list_all_iff) blast
  then show "conforming_db C (Some new)" by (simp add: conforming_db_def untar)
  have dirs: "\<forall>dir \<in> ?dirs. simple_name dir" using add remove by (auto simp: conforming_entry_def)
  have kept: "m \<in> set ?kept \<longleftrightarrow> entry_dir_for_filename f \<notin> ?dirs"
    if "m \<in> set ms" "?desc m" "desc_filenames (m_data m) = [f]" for m f
  proof -
    have "path_components (m_path m) = [entry_dir_for_filename f, ''desc'']"
      using that ms(2) by (auto simp: list_all_iff conforming_member_def)
    then show ?thesis using superseded_desc [OF _ dirs] that(1) by auto
  qed
  have lold: "listing C old = {f. \<exists>m \<in> set ms. ?desc m \<and> desc_filenames (m_data m) = [f]}"
  proof (cases old)
    case None
    with ms(3) show ?thesis by (simp add: listing_def)
  next
    case (Some b)
    with ms(2,4) show ?thesis using listing_members by simp
  qed
  have ladd: "(\<exists>m \<in> set added. ?desc m \<and> desc_filenames (m_data m) = [f]) \<longleftrightarrow> f \<in> set (map pe_filename add)" for f
  proof
    assume "\<exists>m \<in> set added. ?desc m \<and> desc_filenames (m_data m) = [f]"
    then show "f \<in> set (map pe_filename add)"
      using from_add db_members_conforming(2) [OF laws] add by (fastforce simp: conforming_entry_def)
  next
    assume "f \<in> set (map pe_filename add)"
    then obtain e where e: "e \<in> set add" "f = pe_filename e" by auto
    with add have ce: "conforming_entry e" by blast
    obtain m where "m \<in> set added" "path_components (m_path m) = [pe_dir_name e, ''desc'']" "m_data m = pe_desc e"
      using db_members_desc [OF laws ce added(1) e(1)] by blast
    then show "\<exists>m \<in> set added. ?desc m \<and> desc_filenames (m_data m) = [f]"
      using ce e(2) by (intro bexI [of _ m]) (auto simp: conforming_entry_def simple_name_def file_name_def)
  qed
  show "listing C (Some new) = updated_listing remove add (listing C old)"
    unfolding listing_members [OF untar conf] updated_listing_def lold set_append bex_Un ladd using kept by auto
qed

section \<open>Properties\<close>

text \<open>C25: Rewriting \<^verbatim>\<open>repo.db\<close> lists exactly the files it listed before, less those of the entries it
  drops or replaces, and the added ones -- and the database stays one whose entries agree with
  the file names, so the next update can rely on it.
\<close>

theorem database_update_exact:
  assumes "codec_laws C" "conforming_db C old"
    and "\<forall>e \<in> set add. conforming_entry e" "\<forall>f \<in> set remove. simple_name (entry_dir_for_filename f)"
    and "updated_db C old remove add = Some new"
  shows "conforming_db C (Some new) \<and> listing C (Some new) = updated_listing remove add (listing C old)"
  using database_updated [OF assms] by blast

text \<open>C26: A package file whose name is the one its metadata gives it, and whose metadata never says
  \<^verbatim>\<open>%FILENAME%\<close>, is described by an entry that lists that file and nothing else, in the
  directory retiring the file takes out again.
\<close>

theorem described_entry_conforms:
  assumes laws: "codec_laws C" and d: "describe_package C at p = Inr e"
    and info: "read_package C at p = Inr (found, i)"
    and name: "pe_filename e = pi_pkgname i @ ''-'' @ pi_pkgver i @ ''-'' @ rest" "CHR ''-'' \<notin> set rest"
    and line: "text_line (pe_filename e)" "CHR ''/'' \<notin> set (pe_filename e)"
    and clean: "''%FILENAME%'' \<notin> info_values i"
  shows "conforming_entry e \<and> file_name p = Some (pe_filename e)"
proof -
  from d info obtain bytes where b: "at p = Some bytes" and f: "file_name p = Some (pe_filename e)"
    and dir: "pe_dir_name e = pi_pkgname i @ ''-'' @ pi_pkgver i"
    and desc: "pe_desc e = desc_display ((desc_from i)\<lparr>ds_filename := pe_filename e, ds_md5sum := md5_hex C bytes,
                 ds_csize := show_nat (length bytes), ds_sha256sum := sha256_hex C bytes\<rparr>)" (is "_ = desc_display ?d")
    by (auto simp: describe_package_def split: option.splits if_splits)
  have plains: "plain (md5_hex C bytes)" "plain (sha256_hex C bytes)" "plain (show_nat n)" for n
    using laws digits_plain by (simp_all add: codec_laws_def)
  have vals: "desc_values (?d\<lparr>ds_filename := []\<rparr>) \<subseteq>
      info_values i \<union> {[], show_nat (pi_size i), md5_hex C bytes, sha256_hex C bytes, show_nat (length bytes)}"
    by (auto simp: desc_values_def desc_sections_def desc_from_def info_values_def)
  have "desc_values ?d \<subseteq> info_values i \<union> {[], pe_filename e, show_nat (pi_size i), md5_hex C bytes,
      sha256_hex C bytes, show_nat (length bytes)}"
    by (auto simp: desc_values_def desc_sections_def desc_from_def info_values_def)
  then have "\<forall>v \<in> desc_values ?d. text_line v"
    using info_text_read_package [OF info laws, unfolded info_text_iff] line(1) text_line_Nil plains [THEN text_line_plain]
    by blast
  moreover have "''%FILENAME%'' \<notin> desc_values (?d\<lparr>ds_filename := []\<rparr>)"
  proof
    assume "''%FILENAME%'' \<in> desc_values (?d\<lparr>ds_filename := []\<rparr>)"
    with vals clean have "''%FILENAME%'' \<in> {show_nat (pi_size i), md5_hex C bytes, sha256_hex C bytes, show_nat (length bytes)}"
      by blast
    with plains have "plain ''%FILENAME%''" by (metis empty_iff insert_iff)
    then show False by (simp add: plain_def)
  qed
  moreover have "ds_filename ?d \<noteq> []" using name(1) by simp
  ultimately have "desc_filenames (pe_desc e) = [pe_filename e]" "utf8 (pe_desc e)"
    unfolding desc using desc_display_filename [of ?d] desc_display_text [of ?d] by simp_all
  moreover have "entry_dir_for_filename (pe_filename e) = pe_dir_name e"
    using rsplit_dash [OF name(2), of "pi_pkgname i @ ''-'' @ pi_pkgver i"] name(1) dir
    by (simp add: entry_dir_for_filename_def)
  moreover have "CHR ''-'' \<in> set (pe_dir_name e)" "CHR ''/'' \<notin> set (pe_dir_name e)"
    using dir name(1) line(2) by auto
  then have "simple_name (pe_dir_name e) \<and> pe_dir_name e \<noteq> ''desc''" by (auto simp: simple_name_def)
  ultimately show ?thesis using f by (simp add: conforming_entry_def)
qed

section \<open>An instance of the crates\<close>

text \<open>An archive format of its own, with members that nest nothing: the laws can hold.\<close>

fun pack :: "string \<Rightarrow> string" where
  "pack [] = [CHR 0x02]"
| "pack (c # cs) = CHR 0x01 # c # pack cs"

fun unpack :: "string \<Rightarrow> (string \<times> string) option" where
  "unpack (a # c # cs) =
     (if a = CHR 0x01 then map_option (\<lambda>(s, t). (c # s, t)) (unpack cs)
      else if a = CHR 0x02 then Some ([], c # cs) else None)"
| "unpack [a] = (if a = CHR 0x02 then Some ([], []) else None)"
| "unpack [] = None"

fun pack_all :: "member list \<Rightarrow> string" where
  "pack_all [] = []"
| "pack_all (m # ms) = (if m_dir m then CHR ''d'' else CHR ''f'') # pack (m_path m) @ pack (m_data m) @ pack_all ms"

fun unpack_all :: "nat \<Rightarrow> string \<Rightarrow> member list option" where
  "unpack_all _ [] = Some []"
| "unpack_all 0 (_ # _) = None"
| "unpack_all (Suc n) (k # s) =
     (case unpack s of
        None \<Rightarrow> None
      | Some (p, t) \<Rightarrow>
          (case unpack t of
             None \<Rightarrow> None
           | Some (x, u) \<Rightarrow>
               map_option (\<lambda>ms. \<lparr>m_path = p, m_dir = (k = CHR ''d''), m_data = x\<rparr> # ms) (unpack_all n u)))"

definition packing :: codec where
  "packing = \<lparr>tar_gz = pack_all, untar_gz = (\<lambda>s. unpack_all (length s) s),
     untar_zst = (\<lambda>s. unpack_all (length s) s), untar_xz = (\<lambda>s. unpack_all (length s) s),
     header_path = Some, md5_hex = (\<lambda>s. show_nat (length s)), sha256_hex = (\<lambda>s. show_nat (length s)),
     base64 = (\<lambda>s. show_nat (length s))\<rparr>"

lemma unpack_pack: "unpack (pack s @ t) = Some (s, t)"
  by (induction s) (cases t; simp)+

lemma pack_all_length: "length ms \<le> length (pack_all ms)"
  by (induction ms) auto

lemma unpack_pack_all: "length ms \<le> n \<Longrightarrow> unpack_all n (pack_all ms) = Some ms"
proof (induction ms arbitrary: n)
  case (Cons m ms)
  then obtain k where "n = Suc k" "length ms \<le> k" by (cases n) auto
  with Cons.IH [of k] show ?case by (simp add: unpack_pack)
qed (cases n; simp)

lemma untar_packing: "untar_zst packing (pack_all ms) = Some ms"
  by (simp add: packing_def unpack_pack_all pack_all_length)

lemma packing_laws: "codec_laws packing"
  by (simp add: codec_laws_def packing_def unpack_pack_all pack_all_length digits_plain)

definition sample_entry :: "string \<Rightarrow> string \<Rightarrow> package_entry" where
  "sample_entry dir arch =
     (let f = dir @ ''-'' @ arch in
      \<lparr>pe_filename = f, pe_dir_name = dir, pe_desc = ''%FILENAME%'' @ [CHR 0x0A] @ f @ [CHR 0x0A],
       pe_files = ''%FILES%''\<rparr>)"

theorem database_update_exact_witness:
  "\<exists>new. updated_db packing (Some (the (updated_db packing None [] [sample_entry ''foo-1.0-1'' ''any.pkg.tar.zst'',
        sample_entry ''foo-1.0-10'' ''any.pkg.tar.zst''])))
      [''foo-1.0-1-any.pkg.tar.zst''] [sample_entry ''foo-1.1-1'' ''any.pkg.tar.zst''] = Some new \<and>
     listing packing (Some new) = {''foo-1.0-10-any.pkg.tar.zst'', ''foo-1.1-1-any.pkg.tar.zst''}"
proof -
  let ?a = "[sample_entry ''foo-1.0-1'' ''any.pkg.tar.zst'', sample_entry ''foo-1.0-10'' ''any.pkg.tar.zst'']"
  let ?b = "[sample_entry ''foo-1.1-1'' ''any.pkg.tar.zst'']"
  let ?r = "[''foo-1.0-1-any.pkg.tar.zst'']"
  have ea: "\<forall>e \<in> set ?a. conforming_entry e" by code_simp
  have eb: "\<forall>e \<in> set ?b. conforming_entry e" by code_simp
  have r: "\<forall>f \<in> set ?r. simple_name (entry_dir_for_filename f)" by code_simp
  obtain old where old: "updated_db packing None [] ?a = Some old"
    by (simp add: updated_db_def rewrite_archive_def packing_def db_members_def append_dir_def append_file_def)
  have o: "conforming_db packing (Some old)" "listing packing (Some old) = updated_listing [] ?a {}"
    using database_update_exact [OF packing_laws _ ea, of None "[]" old] old
    by (simp_all add: conforming_db_def listing_def)
  obtain new where new: "updated_db packing (Some old) ?r ?b = Some new"
    using o(1) by (auto simp: updated_db_def rewrite_archive_def conforming_db_def packing_def db_members_def
        append_dir_def append_file_def split: option.splits)
  have "listing packing (Some new) = updated_listing ?r ?b (updated_listing [] ?a {})"
    using database_update_exact [OF packing_laws o(1) eb r new] o(2) by simp
  also have "\<dots> = {''foo-1.0-10-any.pkg.tar.zst'', ''foo-1.1-1-any.pkg.tar.zst''}" by code_simp
  finally show ?thesis using old new by auto
qed

definition sample_upload :: "path \<Rightarrow> string option" where
  "sample_upload p =
     (if p = [''up'', ''foo-1.0-1-any.pkg.tar.zst'']
      then Some (pack_all [\<lparr>m_path = ''.PKGINFO'', m_dir = False,
             m_data = ''pkgname = foo'' @ [CHR 0x0A] @ ''pkgver = 1.0-1'' @ [CHR 0x0A]\<rparr>,
           \<lparr>m_path = ''usr/bin/foo'', m_dir = False, m_data = ''#!''\<rparr>])
      else None)"

theorem described_entry_conforms_witness:
  "\<exists>e. describe_package packing sample_upload [''up'', ''foo-1.0-1-any.pkg.tar.zst''] = Inr e \<and>
     pe_dir_name e = ''foo-1.0-1'' \<and> conforming_entry e"
proof -
  let ?p = "[''up'', ''foo-1.0-1-any.pkg.tar.zst'']"
  let ?i = "pkginfo_new\<lparr>pi_pkgname := ''foo'', pi_pkgver := ''1.0-1''\<rparr>"
  have u8: "utf8 ''pkgname = foo''" "utf8 ''pkgver = 1.0-1''"
    by (rule utf8_ascii, simp add: in_range_def)+
  have "read_package packing sample_upload ?p =
      (case read_members [\<lparr>m_path = ''.PKGINFO'', m_dir = False,
             m_data = ''pkgname = foo'' @ [CHR 0x0A] @ ''pkgver = 1.0-1'' @ [CHR 0x0A]\<rparr>,
           \<lparr>m_path = ''usr/bin/foo'', m_dir = False, m_data = ''#!''\<rparr>] [] pkginfo_new of
         Inl e \<Rightarrow> Inl e
       | Inr (found, i) \<Rightarrow>
           if \<not> valid i then Inl InvalidPackage
           else (case set_signature packing sample_upload ?p i of Inl e \<Rightarrow> Inl e | Inr j \<Rightarrow> Inr (found, j)))"
    by (simp add: read_package_def decompressor_def extension_def file_name_def rsplit_once_def
        sample_upload_def untar_packing del: pack_all.simps read_members.simps)
  also have "\<dots> = Inr ([''usr/bin/foo''], ?i)"
    by (simp add: path_components_def parse_def str_lines_def strip_cr_def parse_line_def set_field_def split_once_def
        trim_def trim_start_def trim_end_def is_whitespace_def u8 valid_def set_signature_def with_suffix_def
        sample_upload_def pkginfo_new_def del: utf8.simps(2))
  finally have r: "read_package packing sample_upload ?p = Inr ([''usr/bin/foo''], ?i)" .
  have u: "utf8 ''foo-1.0-1-any.pkg.tar.zst''" by code_simp
  obtain e where e: "describe_package packing sample_upload ?p = Inr e" "pe_dir_name e = ''foo-1.0-1''"
    "pe_filename e = ''foo-1.0-1-any.pkg.tar.zst''"
    by (simp add: describe_package_def r file_name_def sample_upload_def u pkginfo_new_def
        del: utf8.simps(2) pack_all.simps)
  have "text_line ''foo-1.0-1-any.pkg.tar.zst''" by code_simp
  moreover have "''%FILENAME%'' \<notin> info_values ?i" by (simp add: info_values_def pkginfo_new_def)
  ultimately have "conforming_entry e"
    using described_entry_conforms [OF packing_laws e(1) r, of "''any.pkg.tar.zst''"] e(3) by simp
  with e show ?thesis by blast
qed

end
