(* ===== verification/Host.thy ===== *)
theory Host
  imports Repo_Database "HOL-Library.AList"
begin

text \<open>
  The machine the repository lives on: its disk, the server's database beside it, and what
  goes wrong. A program takes one \<open>luck\<close> from the script for every call of the operating
  system and every statement it sends. The script runs out where the process dies, so that
  a statement about the state every run ends in, for every script, is one about every
  moment the server may be killed at.

  Modelled of \<^verbatim>\<open>std::fs\<close> are the calls \<^verbatim>\<open>repository.rs\<close> makes, on regular files and
  directories. What the process has written stays written when it dies; losing what was
  not synced (a power cut) is not modelled, though \<^verbatim>\<open>sync_all\<close> may fail.
\<close>

section \<open>The machine\<close>

datatype node = Dir | File string | Link string

text \<open>A file moved into place, and the plan of an update: \<^verbatim>\<open>Finalization\<close>.\<close>

record file_move =
  mv_source :: path
  mv_destination :: path

record finalization =
  fin_moves :: "file_move list"
  fin_retired :: "path list"

text \<open>
  \<open>Fine\<close>: as asked. \<open>Fails\<close>: an error, and nothing is done. \<open>Partly\<close>: a write that stops
  short, leaving the given bytes. \<open>Unsure\<close>: a \<^verbatim>\<open>COMMIT\<close> that happens and is reported as lost;
  anywhere else it is a failure.
\<close>

datatype luck = Fine | Fails | Partly string | Unsure

text \<open>
  \<open>plan_slot\<close> is the row of \<^verbatim>\<open>repository_updates\<close> (the plan is kept as it is written, not as
  JSON text), \<open>retired\<close> and \<open>updates\<close> are the fields of \<^verbatim>\<open>Repository\<close>, \<open>draft\<close> the plan being
  staged and \<open>instant\<close> the monotonic clock.
\<close>

record host =
  srv :: server
  plan_slot :: "finalization option"
  disk :: "(path \<times> node) list"
  retired :: "path \<rightharpoonup> nat"
  updates :: nat
  draft :: finalization
  instant :: nat
  script :: "luck list"

section \<open>Programs\<close>

datatype ('e, 'a) outcome = Done 'a | Raised 'e | Died

type_synonym ('e, 'a) act = "host \<Rightarrow> ('e, 'a) outcome \<times> host"

definition hret :: "'a \<Rightarrow> ('e, 'a) act" where
  "hret x h = (Done x, h)"

definition hraise :: "'e \<Rightarrow> ('e, 'a) act" where
  "hraise e h = (Raised e, h)"

definition hbind :: "('e, 'a) act \<Rightarrow> ('a \<Rightarrow> ('e, 'b) act) \<Rightarrow> ('e, 'b) act" where
  "hbind m f h = (case m h of (Done x, i) \<Rightarrow> f x i | (Raised e, i) \<Rightarrow> (Raised e, i) | (Died, i) \<Rightarrow> (Died, i))"

definition hthen :: "('e, 'a) act \<Rightarrow> ('e, 'b) act \<Rightarrow> ('e, 'b) act" where
  "hthen m k = hbind m (\<lambda>_. k)"

text \<open>An error that is handled in place; a death is not.\<close>

definition hcatch :: "('d, 'a) act \<Rightarrow> ('d \<Rightarrow> ('e, 'a) act) \<Rightarrow> ('e, 'a) act" where
  "hcatch m f h = (case m h of (Done x, i) \<Rightarrow> (Done x, i) | (Raised e, i) \<Rightarrow> f e i | (Died, i) \<Rightarrow> (Died, i))"

definition hmap_err :: "('d \<Rightarrow> 'e) \<Rightarrow> ('d, 'a) act \<Rightarrow> ('e, 'a) act" where
  "hmap_err f m = hcatch m (\<lambda>e. hraise (f e))"

definition hattempt :: "('d, 'a) act \<Rightarrow> ('e, 'd + 'a) act" where
  "hattempt m = hcatch (hbind m (\<lambda>x. hret (Inr x))) (\<lambda>e. hret (Inl e))"

definition hgets :: "(host \<Rightarrow> 'a) \<Rightarrow> ('e, 'a) act" where
  "hgets f h = (Done (f h), h)"

definition hmodify :: "(host \<Rightarrow> host) \<Rightarrow> ('e, unit) act" where
  "hmodify f h = (Done (), f h)"

primrec hfor_each :: "('x \<Rightarrow> ('e, unit) act) \<Rightarrow> 'x list \<Rightarrow> ('e, unit) act" where
  "hfor_each f [] = hret ()"
| "hfor_each f (x # xs) = hthen (f x) (hfor_each f xs)"

text \<open>One call that may fail, or that the process does not live to make.\<close>

definition step :: "(luck \<Rightarrow> ('e, 'a) act) \<Rightarrow> ('e, 'a) act" where
  "step f h = (case script h of [] \<Rightarrow> (Died, h) | l # ls \<Rightarrow> f l (h\<lparr>script := ls\<rparr>))"

text \<open>A program on the server's tables and logs.\<close>

definition on_server :: "('e, 'a) prog \<Rightarrow> ('e, 'a) act" where
  "on_server m h =
     (case m (srv h) of
        (Inl e, s) \<Rightarrow> (Raised e, h\<lparr>srv := s\<rparr>)
      | (Inr x, s) \<Rightarrow> (Done x, h\<lparr>srv := s\<rparr>))"

definition hemit :: "event \<Rightarrow> ('e, unit) act" where
  "hemit e = hmodify (\<lambda>h. h\<lparr>srv := snd (emit e (srv h) :: (unit + unit) \<times> server)\<rparr>)"

section \<open>The file system\<close>

datatype io_error = Io_NotFound | Io_AlreadyExists | Io_Other

definition node_at :: "host \<Rightarrow> path \<Rightarrow> node option" where
  "node_at h p = map_of (disk h) p"

definition exists_at :: "host \<Rightarrow> path \<Rightarrow> bool" where
  "exists_at h p \<longleftrightarrow> node_at h p \<noteq> None"

definition is_dir :: "host \<Rightarrow> path \<Rightarrow> bool" where
  "is_dir h p \<longleftrightarrow> node_at h p = Some Dir"

definition file_at :: "host \<Rightarrow> path \<Rightarrow> string option" where
  "file_at h p = (case node_at h p of Some (File b) \<Rightarrow> Some b | _ \<Rightarrow> None)"

definition put_node :: "path \<Rightarrow> node \<Rightarrow> host \<Rightarrow> host" where
  "put_node p n h = h\<lparr>disk := AList.update p n (disk h)\<rparr>"

definition drop_node :: "path \<Rightarrow> host \<Rightarrow> host" where
  "drop_node p h = h\<lparr>disk := AList.delete p (disk h)\<rparr>"

definition remove_file :: "path \<Rightarrow> (io_error, unit) act" where
  "remove_file p = step (\<lambda>l h.
     if l \<noteq> Fine then (Raised Io_Other, h)
     else (case node_at h p of
             None \<Rightarrow> (Raised Io_NotFound, h)
           | Some Dir \<Rightarrow> (Raised Io_Other, h)
           | Some _ \<Rightarrow> (Done (), drop_node p h)))"

definition hard_link :: "path \<Rightarrow> path \<Rightarrow> (io_error, unit) act" where
  "hard_link src dst = step (\<lambda>l h.
     if l \<noteq> Fine then (Raised Io_Other, h)
     else (case file_at h src of
             None \<Rightarrow> (Raised Io_NotFound, h)
           | Some b \<Rightarrow>
               if exists_at h dst then (Raised Io_AlreadyExists, h)
               else if \<not> is_dir h (butlast dst) then (Raised Io_NotFound, h)
               else (Done (), put_node dst (File b) h)))"

text \<open>Create or truncate a file and write to it.\<close>

definition write_file :: "path \<Rightarrow> string \<Rightarrow> luck \<Rightarrow> (io_error, unit) act" where
  "write_file p b l h =
     (if is_dir h p then (Raised Io_Other, h)
      else if \<not> is_dir h (butlast p) then (Raised Io_NotFound, h)
      else (case l of
              Fine \<Rightarrow> (Done (), put_node p (File b) h)
            | Partly part \<Rightarrow> (Raised Io_Other, put_node p (File part) h)
            | _ \<Rightarrow> (Raised Io_Other, h)))"

definition copy_file :: "path \<Rightarrow> path \<Rightarrow> (io_error, unit) act" where
  "copy_file src dst = step (\<lambda>l h.
     case file_at h src of None \<Rightarrow> (Raised Io_NotFound, h) | Some b \<Rightarrow> write_file dst b l h)"

definition rename_file :: "path \<Rightarrow> path \<Rightarrow> (io_error, unit) act" where
  "rename_file src dst = step (\<lambda>l h.
     if l \<noteq> Fine then (Raised Io_Other, h)
     else (case file_at h src of
             None \<Rightarrow> (Raised (if exists_at h src then Io_Other else Io_NotFound), h)
           | Some b \<Rightarrow>
               if is_dir h dst then (Raised Io_Other, h)
               else if \<not> is_dir h (butlast dst) then (Raised Io_NotFound, h)
               else (Done (), put_node dst (File b) (drop_node src h))))"

text \<open>\<^verbatim>\<open>File::open(p)?.sync_all()?\<close>\<close>

definition open_and_sync :: "path \<Rightarrow> (io_error, unit) act" where
  "open_and_sync p = step (\<lambda>l h.
     if l \<noteq> Fine then (Raised Io_Other, h)
     else if \<not> exists_at h p then (Raised Io_NotFound, h)
     else (Done (), h))"

primrec make_dirs :: "path \<Rightarrow> path \<Rightarrow> host \<Rightarrow> (io_error, unit) outcome \<times> host" where
  "make_dirs done [] h = (Done (), h)"
| "make_dirs done (n # rest) h =
     (let p = done @ [n] in
      case node_at h p of
        None \<Rightarrow> make_dirs p rest (put_node p Dir h)
      | Some Dir \<Rightarrow> make_dirs p rest h
      | Some _ \<Rightarrow> (Raised Io_AlreadyExists, h))"

definition create_dir_all :: "path \<Rightarrow> (io_error, unit) act" where
  "create_dir_all p = step (\<lambda>l h. if l \<noteq> Fine then (Raised Io_Other, h) else make_dirs [] p h)"

text \<open>\<^verbatim>\<open>read_dir\<close>: the names in a directory, in the order the disk has them.\<close>

definition entries_of :: "host \<Rightarrow> path \<Rightarrow> string list" where
  "entries_of h dir = map last (filter (\<lambda>p. p \<noteq> [] \<and> butlast p = dir) (map fst (disk h)))"

definition read_dir :: "path \<Rightarrow> (io_error, string list) act" where
  "read_dir p = step (\<lambda>l h.
     if l \<noteq> Fine then (Raised Io_Other, h)
     else if is_dir h p then (Done (entries_of h p), h)
     else (Raised (if exists_at h p then Io_Other else Io_NotFound), h))"

text \<open>\<^verbatim>\<open>remove_dir_all\<close>; where it fails, some of what is below may be gone, so the script says what is left.\<close>

definition remove_dir_all :: "path \<Rightarrow> (io_error, unit) act" where
  "remove_dir_all p = step (\<lambda>l h.
     if \<not> is_dir h p then (Raised (if exists_at h p then Io_Other else Io_NotFound), h)
     else (case l of
             Fine \<Rightarrow> (Done (), h\<lparr>disk := filter (\<lambda>(q, _). \<not> prefix p q) (disk h)\<rparr>)
           | Partly keep \<Rightarrow>
               (Raised Io_Other, h\<lparr>disk := filter (\<lambda>(q, _). \<not> strict_prefix p q \<or> q = p @ [keep]) (disk h)\<rparr>)
           | _ \<Rightarrow> (Raised Io_Other, h)))"

section \<open>What a program leaves alone\<close>

lemma node_at_put [simp]: "node_at (put_node p n h) = (node_at h)(p \<mapsto> n)"
  by (rule ext) (simp add: node_at_def put_node_def update_conv')

lemma node_at_drop [simp]: "node_at (drop_node p h) = (node_at h)(p := None)"
  by (rule ext) (simp add: node_at_def drop_node_def delete_conv')

lemma put_node_sel [simp]: "srv (put_node p n h) = srv h" "plan_slot (put_node p n h) = plan_slot h"
  "draft (put_node p n h) = draft h" "retired (put_node p n h) = retired h" "instant (put_node p n h) = instant h"
  by (simp_all add: put_node_def)

lemma drop_node_sel [simp]: "srv (drop_node p h) = srv h" "plan_slot (drop_node p h) = plan_slot h"
  "draft (drop_node p h) = draft h" "retired (drop_node p h) = retired h" "instant (drop_node p h) = instant h"
  by (simp_all add: drop_node_def)

lemma node_at_script [simp]: "node_at (h\<lparr>script := ls\<rparr>) = node_at h" "node_at (h\<lparr>draft := d\<rparr>) = node_at h"
  "node_at (h\<lparr>srv := s\<rparr>) = node_at h" "node_at (h\<lparr>plan_slot := sl\<rparr>) = node_at h"
  "node_at (h\<lparr>retired := rt\<rparr>) = node_at h" "node_at (h\<lparr>updates := u\<rparr>) = node_at h"
  by (simp_all add: node_at_def fun_eq_iff)

lemma lookups_script [simp]: "file_at (h\<lparr>script := ls\<rparr>) = file_at h" "is_dir (h\<lparr>script := ls\<rparr>) = is_dir h"
  "exists_at (h\<lparr>script := ls\<rparr>) = exists_at h"
  by (simp_all add: fun_eq_iff file_at_def is_dir_def exists_at_def)

text \<open>The program changes nothing but the nodes at the given paths, the plan it drafts and its script.\<close>

definition touches :: "path set \<Rightarrow> ('e, 'a) act \<Rightarrow> bool" where
  "touches S m \<longleftrightarrow>
     (\<forall>h. srv (snd (m h)) = srv h \<and> plan_slot (snd (m h)) = plan_slot h \<and> retired (snd (m h)) = retired h \<and>
          instant (snd (m h)) = instant h \<and>
          (\<forall>p. p \<notin> S \<longrightarrow> node_at (snd (m h)) p = node_at h p) \<and>
          (\<forall>p. node_at h p = Some Dir \<longrightarrow> node_at (snd (m h)) p = Some Dir))"

text \<open>Such a program that does not add to the plan either.\<close>

definition drafts_not :: "('e, 'a) act \<Rightarrow> bool" where
  "drafts_not m \<longleftrightarrow> (\<forall>h. draft (snd (m h)) = draft h)"

named_theorems touching

lemma touchesD:
  "touches S m \<Longrightarrow> m h = (r, i) \<Longrightarrow>
   srv i = srv h \<and> plan_slot i = plan_slot h \<and> retired i = retired h \<and> instant i = instant h \<and> (\<forall>p. p \<notin> S \<longrightarrow> node_at i p = node_at h p) \<and>
   (\<forall>p. node_at h p = Some Dir \<longrightarrow> node_at i p = Some Dir)"
  unfolding touches_def by (metis snd_conv)

lemma drafts_notD: "drafts_not m \<Longrightarrow> m h = (r, i) \<Longrightarrow> draft i = draft h"
  unfolding drafts_not_def by (metis snd_conv)

lemma touches_mono: "touches S m \<Longrightarrow> S \<subseteq> T \<Longrightarrow> touches T m"
  unfolding touches_def by blast

lemma touches_hret [touching]: "touches S (hret x)" "drafts_not (hret x)"
  by (simp_all add: touches_def drafts_not_def hret_def)

lemma touches_hraise [touching]: "touches S (hraise x)" "drafts_not (hraise x)"
  by (simp_all add: touches_def drafts_not_def hraise_def)

lemma touches_hgets [touching]: "touches S (hgets f)" "drafts_not (hgets f)"
  by (simp_all add: touches_def drafts_not_def hgets_def)

lemma touches_hbind [touching]:
  assumes "touches S m" "\<And>x. touches S (f x)"
  shows "touches S (hbind m f)"
  unfolding touches_def
proof
  fix h
  obtain r i where m: "m h = (r, i)" by fastforce
  show "srv (snd (hbind m f h)) = srv h \<and> plan_slot (snd (hbind m f h)) = plan_slot h \<and>
      retired (snd (hbind m f h)) = retired h \<and> instant (snd (hbind m f h)) = instant h \<and> (\<forall>p. p \<notin> S \<longrightarrow> node_at (snd (hbind m f h)) p = node_at h p) \<and>
      (\<forall>p. node_at h p = Some Dir \<longrightarrow> node_at (snd (hbind m f h)) p = Some Dir)"
  proof (cases r)
    case (Done x)
    obtain q j where f: "f x i = (q, j)" by fastforce
    show ?thesis using touchesD [OF assms(1) m] touchesD [OF assms(2) f] Done m f by (simp add: hbind_def)
  qed (use touchesD [OF assms(1) m] m in \<open>simp_all add: hbind_def\<close>)
qed

lemma drafts_not_hbind [touching]: "drafts_not m \<Longrightarrow> (\<And>x. drafts_not (f x)) \<Longrightarrow> drafts_not (hbind m f)"
  unfolding drafts_not_def hbind_def by (auto split: prod.splits outcome.splits) (metis snd_conv)+

lemma touches_hthen [touching]: "touches S m \<Longrightarrow> touches S k \<Longrightarrow> touches S (hthen m k)"
  "drafts_not m \<Longrightarrow> drafts_not k \<Longrightarrow> drafts_not (hthen m k)"
  unfolding hthen_def by (auto intro: touches_hbind drafts_not_hbind)

lemma touches_hcatch [touching]:
  assumes "touches S m" "\<And>e. touches S (f e)"
  shows "touches S (hcatch m f)"
  unfolding touches_def
proof
  fix h
  obtain r i where m: "m h = (r, i)" by fastforce
  show "srv (snd (hcatch m f h)) = srv h \<and> plan_slot (snd (hcatch m f h)) = plan_slot h \<and>
      retired (snd (hcatch m f h)) = retired h \<and> instant (snd (hcatch m f h)) = instant h \<and> (\<forall>p. p \<notin> S \<longrightarrow> node_at (snd (hcatch m f h)) p = node_at h p) \<and>
      (\<forall>p. node_at h p = Some Dir \<longrightarrow> node_at (snd (hcatch m f h)) p = Some Dir)"
  proof (cases r)
    case (Raised e)
    obtain q j where f: "f e i = (q, j)" by fastforce
    show ?thesis using touchesD [OF assms(1) m] touchesD [OF assms(2) f] Raised m f by (simp add: hcatch_def)
  qed (use touchesD [OF assms(1) m] m in \<open>simp_all add: hcatch_def\<close>)
qed

lemma drafts_not_hcatch [touching]: "drafts_not m \<Longrightarrow> (\<And>x. drafts_not (f x)) \<Longrightarrow> drafts_not (hcatch m f)"
  unfolding drafts_not_def hcatch_def by (auto split: prod.splits outcome.splits) (metis snd_conv)+

lemma touches_hmap_err [touching]: "touches S m \<Longrightarrow> touches S (hmap_err f m)" "drafts_not m \<Longrightarrow> drafts_not (hmap_err f m)"
  unfolding hmap_err_def by (auto intro: touches_hcatch drafts_not_hcatch touches_hraise)

lemma touches_hattempt [touching]: "touches S m \<Longrightarrow> touches S (hattempt m)" "drafts_not m \<Longrightarrow> drafts_not (hattempt m)"
  unfolding hattempt_def by (intro touching; assumption)+

lemma touches_step [touching]: "(\<And>l. touches S (f l)) \<Longrightarrow> touches S (step f)"
  unfolding touches_def step_def by (auto split: list.splits)

lemma drafts_not_step [touching]: "(\<And>l. drafts_not (f l)) \<Longrightarrow> drafts_not (step f)"
  unfolding drafts_not_def step_def by (auto split: list.splits)

lemma touches_hfor_each [touching]: "(\<And>x. x \<in> set xs \<Longrightarrow> touches S (f x)) \<Longrightarrow> touches S (hfor_each f xs)"
  by (induction xs) (auto intro: touching)

lemma drafts_not_hfor_each [touching]: "(\<And>x. x \<in> set xs \<Longrightarrow> drafts_not (f x)) \<Longrightarrow> drafts_not (hfor_each f xs)"
  by (induction xs) (auto intro: touching)

lemma touches_remove_file [touching]: "p \<in> S \<Longrightarrow> touches S (remove_file p)" "drafts_not (remove_file p)"
  by (auto simp: remove_file_def touches_def drafts_not_def step_def split: list.splits option.splits node.splits)

lemma touches_hard_link [touching]: "p \<in> S \<Longrightarrow> touches S (hard_link q p)" "drafts_not (hard_link q p)"
  by (auto simp: hard_link_def touches_def drafts_not_def step_def exists_at_def split: list.splits option.splits)

lemma touches_write_file [touching]: "p \<in> S \<Longrightarrow> touches S (write_file p b l)" "drafts_not (write_file p b l)"
  by (auto simp: write_file_def touches_def drafts_not_def is_dir_def split: luck.splits)

lemma touches_copy_file [touching]: "p \<in> S \<Longrightarrow> touches S (copy_file q p)" "drafts_not (copy_file q p)"
  unfolding copy_file_def using touches_write_file(1) [where p = p and S = S] touches_write_file(2) [where p = p]
  by (auto simp: touches_def drafts_not_def step_def split: list.splits option.splits)

lemma touches_open_and_sync [touching]: "touches S (open_and_sync p)" "drafts_not (open_and_sync p)"
  by (auto simp: open_and_sync_def touches_def drafts_not_def step_def split: list.splits)

lemma touches_rename_file [touching]: "{p, q} \<subseteq> S \<Longrightarrow> touches S (rename_file p q)" "drafts_not (rename_file p q)"
  by (auto simp: rename_file_def touches_def drafts_not_def step_def is_dir_def file_at_def split: list.splits option.splits node.splits)

lemma make_dirs_frame:
  "make_dirs d rest h = (r, i) \<Longrightarrow>
   srv i = srv h \<and> plan_slot i = plan_slot h \<and> retired i = retired h \<and> instant i = instant h \<and> draft i = draft h \<and>
   (\<forall>p. node_at i p = node_at h p \<or>
        (node_at h p = None \<and> node_at i p = Some Dir \<and> (\<exists>e. e \<noteq> [] \<and> prefix e rest \<and> p = d @ e)))"
proof (induction rest arbitrary: d h)
  case (Cons n rest)
  show ?case
  proof (cases "node_at h (d @ [n])")
    case None
    then have m: "make_dirs (d @ [n]) rest (put_node (d @ [n]) Dir h) = (r, i)" using Cons.prems by (simp add: Let_def)
    show ?thesis
    proof (intro conjI allI)
      fix p
      let ?g = "put_node (d @ [n]) Dir h"
      have "node_at i p = node_at ?g p \<or>
          (node_at ?g p = None \<and> node_at i p = Some Dir \<and> (\<exists>e. e \<noteq> [] \<and> prefix e rest \<and> p = (d @ [n]) @ e))"
        using Cons.IH [OF m] by blast
      then consider "node_at i p = node_at ?g p"
        | e where "node_at ?g p = None" "node_at i p = Some Dir" "e \<noteq> []" "prefix e rest" "p = (d @ [n]) @ e"
        by blast
      then show "node_at i p = node_at h p \<or> (node_at h p = None \<and> node_at i p = Some Dir \<and>
          (\<exists>e. e \<noteq> [] \<and> prefix e (n # rest) \<and> p = d @ e))"
      proof cases
        case 1
        then show ?thesis using None by (cases "p = d @ [n]") auto
      next
        case 2
        then show ?thesis by (auto split: if_splits intro!: exI [of _ "n # e"])
      qed
    qed (use Cons.IH [OF m] in simp_all)
  next
    case (Some x)
    then show ?thesis using Cons by (cases x) (fastforce simp: Let_def)+
  qed
qed simp

lemma touches_create_dir_all [touching]:
  "{q. prefix q p} \<subseteq> S \<Longrightarrow> touches S (create_dir_all p)" "drafts_not (create_dir_all p)"
proof -
  have frame: "srv (snd (create_dir_all p h)) = srv h \<and> plan_slot (snd (create_dir_all p h)) = plan_slot h \<and>
      retired (snd (create_dir_all p h)) = retired h \<and> instant (snd (create_dir_all p h)) = instant h \<and> draft (snd (create_dir_all p h)) = draft h \<and>
      (\<forall>q. node_at (snd (create_dir_all p h)) q = node_at h q \<or>
           (node_at h q = None \<and> node_at (snd (create_dir_all p h)) q = Some Dir \<and> prefix q p))" for h
  proof -
    obtain r i where m: "make_dirs [] p (h\<lparr>script := tl (script h)\<rparr>) = (r, i)" by fastforce
    have "create_dir_all p h \<in> {(Died, h), (Raised Io_Other, h\<lparr>script := tl (script h)\<rparr>), (r, i)}"
      using m by (auto simp: create_dir_all_def step_def split: list.splits)
    with make_dirs_frame [OF m] show ?thesis by auto
  qed
  show "{q. prefix q p} \<subseteq> S \<Longrightarrow> touches S (create_dir_all p)"
    unfolding touches_def using frame by (metis mem_Collect_eq option.distinct(1) subsetD)
  show "drafts_not (create_dir_all p)" unfolding drafts_not_def using frame by blast
qed

lemma make_dirs_dir: "make_dirs d rest h = (Done (), i) \<Longrightarrow> rest \<noteq> [] \<Longrightarrow> node_at i (d @ rest) = Some Dir"
proof (induction rest arbitrary: d h)
  case (Cons n rest)
  then obtain g where g: "make_dirs (d @ [n]) rest g = (Done (), i)" "node_at g (d @ [n]) = Some Dir"
    by (auto simp: Let_def split: option.splits node.splits)
  show ?case
  proof (cases "rest = []")
    case True
    then show ?thesis using g by simp
  next
    case False
    then show ?thesis using Cons.IH [OF g(1)] by simp
  qed
qed simp

lemma create_dir_all_dir: "create_dir_all p h = (Done (), i) \<Longrightarrow> p \<noteq> [] \<Longrightarrow> is_dir i p"
  using make_dirs_dir [of "[]" p] by (fastforce simp: create_dir_all_def step_def is_dir_def split: list.splits if_splits)

end
