(* ===== verification/Repository.thy ===== *)
theory Repository
  imports Host
begin

text \<open>
  \<^verbatim>\<open>aurcache-utils/src/repository.rs\<close>: one change to the pacman repository, from staging its
  files to the plan that is replayed until they are in place. The caller's database
  transaction is a program of the server; the plan row goes into the same transaction.

  The repository lock serializes every update, so a model with one update at a time is the
  program's behaviour under it; the staging directories, which are written without the
  lock, are left alone while an update runs.
\<close>

section \<open>What an update changes\<close>

definition STAGING_DIR :: string where "STAGING_DIR = ''.staging''"
definition DB_ARCHIVE :: string where "DB_ARCHIVE = ''repo.db.tar.gz''"
definition FILES_ARCHIVE :: string where "FILES_ARCHIVE = ''repo.files.tar.gz''"
definition COMMIT_ATTEMPTS :: nat where "COMMIT_ATTEMPTS = 3"
definition REPO_NAME :: string where "REPO_NAME = ''repo''"

record published_file =
  pf_update :: nat
  pf_row :: file_row

record addition =
  ad_platform :: platform
  ad_staged :: path
  ad_entry :: package_entry

record retirement =
  rt_platform :: platform
  rt_filename :: string

record changes =
  ch_add :: "addition list"
  ch_retire :: "retirement list"

definition no_changes :: changes where "no_changes = \<lparr>ch_add = [], ch_retire = []\<rparr>"

definition changes_add :: "platform \<Rightarrow> path \<Rightarrow> package_entry \<Rightarrow> changes \<Rightarrow> changes" where
  "changes_add pf staged entry c =
     c\<lparr>ch_add := ch_add c @ [\<lparr>ad_platform = pf, ad_staged = staged, ad_entry = entry\<rparr>]\<rparr>"

definition changes_retire :: "platform \<Rightarrow> string \<Rightarrow> changes \<Rightarrow> changes" where
  "changes_retire pf filename c = c\<lparr>ch_retire := ch_retire c @ [\<lparr>rt_platform = pf, rt_filename = filename\<rparr>]\<rparr>"

definition changed_platforms :: "changes \<Rightarrow> platform list" where
  "changed_platforms c = remdups_adj (sort_key platform_as_str (map ad_platform (ch_add c) @ map rt_platform (ch_retire c)))"

text \<open>An \<^verbatim>\<open>Update\<close>, by its number and what it has been told to change.\<close>

record update =
  up_id :: nat
  up_changes :: changes

datatype 'e repo_error =
    Io io_error
  | DatabaseUnreadable
  | NotStaged path
  | ReadByAnother string
  | Sql db_err
  | Caller 'e
  | FinalizationPending "'e repo_error"

definition published :: "update \<Rightarrow> file_row \<Rightarrow> published_file" where
  "published u row = \<lparr>pf_update = up_id u, pf_row = row\<rparr>"

definition update_add :: "platform \<Rightarrow> path \<Rightarrow> package_entry \<Rightarrow> update \<Rightarrow> update" where
  "update_add pf staged entry u = u\<lparr>up_changes := changes_add pf staged entry (up_changes u)\<rparr>"

definition update_retire :: "published_file \<Rightarrow> update \<Rightarrow> 'e repo_error + update" where
  "update_retire f u =
     (if pf_update f \<noteq> up_id u then Inl (ReadByAnother (f_filename (pf_row f)))
      else Inr (u\<lparr>up_changes := changes_retire (f_platform (pf_row f)) (f_filename (pf_row f)) (up_changes u)\<rparr>))"

section \<open>Staging\<close>

definition platform_dir :: "path \<Rightarrow> platform \<Rightarrow> path" where
  "platform_dir root pf = root @ [platform_as_str pf]"

definition link_or_copy :: "path \<Rightarrow> path \<Rightarrow> (io_error, unit) act" where
  "link_or_copy source destination = hcatch (hard_link source destination) (\<lambda>_. copy_file source destination)"

definition sync :: "path \<Rightarrow> (io_error, unit) act" where
  "sync p = hthen (open_and_sync p) (open_and_sync (butlast p))"

definition push_move :: "path \<Rightarrow> path \<Rightarrow> ('e, unit) act" where
  "push_move source destination =
     hmodify (\<lambda>h. h\<lparr>draft := (draft h)\<lparr>fin_moves := fin_moves (draft h) @ [\<lparr>mv_source = source, mv_destination = destination\<rparr>]\<rparr>\<rparr>)"

definition stage_file :: "path \<Rightarrow> path \<Rightarrow> (io_error, unit) act" where
  "stage_file source destination =
     (let pending = with_suffix source ''.publishing'' in
      hbind (hgets (\<lambda>h. exists_at h pending)) (\<lambda>stale.
      hthen (if stale then remove_file pending else hret ())
      (hthen (link_or_copy source pending)
      (hthen (push_move pending destination)
      (sync pending)))))"

definition next_of :: "string \<Rightarrow> string" where
  "next_of archive = ''.'' @ archive @ ''.next''"

text \<open>Rewriting one archive into a file beside it: \<open>update\<close> makes the new bytes of the old.\<close>

definition write_updated :: "path \<Rightarrow> path \<Rightarrow> (string option \<Rightarrow> string option) \<Rightarrow> ('e repo_error, unit) act" where
  "write_updated input output update = step (\<lambda>l h.
     case (case node_at h input of None \<Rightarrow> update None | Some (File old) \<Rightarrow> update (Some old) | _ \<Rightarrow> None) of
       Some b \<Rightarrow> hmap_err Io (write_file output b l) h
     | None \<Rightarrow> hthen (hmap_err Io (write_file output [] l)) (hraise DatabaseUnreadable) h)"

definition removed_on :: "platform \<Rightarrow> changes \<Rightarrow> string list" where
  "removed_on pf c = map rt_filename (filter (\<lambda>r. rt_platform r = pf) (ch_retire c))"

definition added_on :: "platform \<Rightarrow> changes \<Rightarrow> package_entry list" where
  "added_on pf c = map ad_entry (filter (\<lambda>a. ad_platform a = pf) (ch_add c))"

definition write_updated_databases ::
    "codec \<Rightarrow> path \<Rightarrow> path \<Rightarrow> string list \<Rightarrow> package_entry list \<Rightarrow> path \<Rightarrow> path \<Rightarrow> ('e repo_error, unit) act" where
  "write_updated_databases C db_path files_path remove add db_out files_out =
     hthen (write_updated db_path db_out (\<lambda>old. updated_db C old remove add))
       (write_updated files_path files_out (\<lambda>old. updated_files C old remove add))"

definition stage_databases :: "codec \<Rightarrow> path \<Rightarrow> changes \<Rightarrow> platform \<Rightarrow> ('e repo_error, unit) act" where
  "stage_databases C root c pf =
     (let dir = platform_dir root pf;
          db_path = dir @ [DB_ARCHIVE]; db_next = dir @ [next_of DB_ARCHIVE];
          files_path = dir @ [FILES_ARCHIVE]; files_next = dir @ [next_of FILES_ARCHIVE]
      in
      hthen (hmap_err Io (create_dir_all dir))
      (hthen (push_move db_next db_path)
      (hthen (push_move files_next files_path)
      (hthen (write_updated_databases C db_path files_path (removed_on pf c) (added_on pf c) db_next files_next)
      (hthen (hmap_err Io (sync db_next))
      (hmap_err Io (sync files_next)))))))"

definition stage_addition :: "path \<Rightarrow> addition \<Rightarrow> (io_error, unit) act" where
  "stage_addition root a =
     (let filename = pe_filename (ad_entry a);
          dir = platform_dir root (ad_platform a);
          sig = with_suffix (ad_staged a) ''.sig''
      in
      hbind (hgets (\<lambda>h. exists_at h sig)) (\<lambda>signed.
      hfor_each (\<lambda>(source, name). stage_file source (dir @ [name]))
        ((ad_staged a, filename) # (if signed then [(sig, filename @ ''.sig'')] else []))))"

definition retired_paths :: "path \<Rightarrow> changes \<Rightarrow> path list" where
  "retired_paths root c =
     concat (map (\<lambda>r.
       if \<exists>a \<in> set (ch_add c). ad_platform a = rt_platform r \<and> pe_filename (ad_entry a) = rt_filename r then []
       else let p = platform_dir root (rt_platform r) @ [rt_filename r] in [with_suffix p ''.sig'', p])
       (ch_retire c))"

definition stage_all :: "codec \<Rightarrow> path \<Rightarrow> changes \<Rightarrow> ('e repo_error, unit) act" where
  "stage_all C root c =
     hthen (hfor_each (\<lambda>a. hmap_err Io (stage_addition root a)) (ch_add c))
     (hthen (hfor_each (stage_databases C root c) (changed_platforms c))
     (hmodify (\<lambda>h. h\<lparr>draft := (draft h)\<lparr>fin_retired := retired_paths root c\<rparr>\<rparr>)))"

definition discard :: "finalization \<Rightarrow> ('e, unit) act" where
  "discard plan = hfor_each (\<lambda>m. hcatch (remove_file (mv_source m)) (\<lambda>_. hret ())) (fin_moves plan)"

definition stage :: "codec \<Rightarrow> path \<Rightarrow> changes \<Rightarrow> ('e repo_error, finalization) act" where
  "stage C root c =
     hthen (hmodify (\<lambda>h. h\<lparr>draft := \<lparr>fin_moves = [], fin_retired = []\<rparr>\<rparr>))
     (hcatch (hthen (stage_all C root c) (hgets draft))
       (\<lambda>e. hbind (hgets draft) (\<lambda>plan. hthen (discard plan) (hraise e))))"

section \<open>Finishing and recovering\<close>

definition finish_move :: "file_move \<Rightarrow> (io_error, unit) act" where
  "finish_move m =
     (let synced = open_and_sync (butlast (mv_destination m));
          failed = hemit (RepoFileFailed Action_Move (mv_source m))
      in
      hbind (hattempt (rename_file (mv_source m) (mv_destination m))) (\<lambda>r.
      case r of
        Inr _ \<Rightarrow> synced
      | Inl e \<Rightarrow>
          hbind (hgets (\<lambda>h. (exists_at h (mv_source m), file_at h (mv_destination m) \<noteq> None))) (\<lambda>(src, dst).
          if e = Io_NotFound \<and> \<not> src \<and> dst then synced
          else if e = Io_NotFound \<and> \<not> src then failed
          else hthen failed (hraise e))))"

definition finish :: "finalization \<Rightarrow> (io_error, path list) act" where
  "finish plan = hthen (hfor_each finish_move (fin_moves plan)) (hret (fin_retired plan))"

definition plan_delete :: "('e repo_error, unit) act" where
  "plan_delete = step (\<lambda>l h.
     if l = Fine then (Done (), h\<lparr>plan_slot := None\<rparr>) else (Raised (Sql ConnectionLost), h))"

definition plan_read :: "('e repo_error, finalization option) act" where
  "plan_read = step (\<lambda>l h. if l = Fine then (Done (plan_slot h), h) else (Raised (Sql ConnectionLost), h))"

definition note_retired :: "path list \<Rightarrow> nat \<Rightarrow> host \<Rightarrow> host" where
  "note_retired ps when h = h\<lparr>retired := retired h ++ (\<lambda>p. if p \<in> set ps then Some when else None)\<rparr>"

definition finalize :: "finalization \<Rightarrow> ('e repo_error, unit) act" where
  "finalize plan =
     hbind (hmap_err Io (finish plan)) (\<lambda>ps.
     hthen plan_delete
     (hmodify (\<lambda>h. note_retired ps (instant h) h)))"

definition recover :: "('e repo_error, unit) act" where
  "recover =
     hbind plan_read (\<lambda>p.
     case p of
       None \<Rightarrow> hret ()
     | Some plan \<Rightarrow> hmap_err FinalizationPending (finalize plan))"

definition begin_update :: "('e repo_error, update) act" where
  "begin_update =
     hthen recover
     (hbind (hgets updates) (\<lambda>n.
      hthen (hmodify (\<lambda>h. h\<lparr>updates := n + 1\<rparr>))
      (hret \<lparr>up_id = n, up_changes = no_changes\<rparr>)))"

section \<open>Committing\<close>

text \<open>
  One attempt: \<^verbatim>\<open>BEGIN\<close>, the caller's statements, the plan row, \<^verbatim>\<open>COMMIT\<close>. An error before the
  \<^verbatim>\<open>COMMIT\<close> rolls everything back. After a failed one, reading the plan row back tells whether
  it happened.
\<close>

definition commit_txn :: "finalization \<Rightarrow> server \<Rightarrow> 'a \<Rightarrow> ('e repo_error, 'a) act" where
  "commit_txn plan s x = step (\<lambda>l h.
     if l = Fine then (Done x, h\<lparr>srv := s, plan_slot := Some plan\<rparr>)
     else
       let h' = (if l = Unsure then h\<lparr>srv := s, plan_slot := Some plan\<rparr> else h) in
       hbind (hattempt plan_read) (\<lambda>r.
       case r of
         Inr found \<Rightarrow> if found = Some plan then hret x else hraise (Sql ConnectionLost)
       | Inl (read :: 'e repo_error) \<Rightarrow> hraise (FinalizationPending (Sql ConnectionLost))) h')"

definition commit_once :: "finalization \<Rightarrow> ('e, 'a) prog \<Rightarrow> ('e repo_error, 'a) act" where
  "commit_once plan body = step (\<lambda>l h.
     if l \<noteq> Fine then (Raised (Sql ConnectionLost), h)
     else (case body (srv h) of
             (Inl e, s) \<Rightarrow> (Raised (Caller e), h\<lparr>srv := s\<lparr>db := db (srv h)\<rparr>\<rparr>)
           | (Inr x, s) \<Rightarrow>
               hthen (step (\<lambda>l i. if l = Fine \<and> plan_slot i = None then (Done (), i)
                                   else (Raised (Sql (if l = Fine then Custom ''unique'' else ConnectionLost)), i)))
                 (commit_txn plan s x) h))"

fun is_pending :: "'e repo_error \<Rightarrow> bool" where
  "is_pending (FinalizationPending _) = True"
| "is_pending _ = False"

function commit_loop :: "finalization \<Rightarrow> ('e, 'a) prog \<Rightarrow> nat \<Rightarrow> ('e repo_error, 'a) act" where
  "commit_loop plan body att h =
     (case commit_once plan body h of
        (Done x, i) \<Rightarrow> (Done x, i)
      | (Died, i) \<Rightarrow> (Died, i)
      | (Raised e, i) \<Rightarrow>
          if is_pending e then (Raised e, i)
          else if att < COMMIT_ATTEMPTS then
            commit_loop plan body (att + 1) (snd (hemit (RepoCommitRetried att) i :: (unit, unit) outcome \<times> host))
          else hthen (discard plan) (hraise e) i)"
  by pat_completeness auto
termination by (relation "measure (\<lambda>(_, _, att, _). COMMIT_ATTEMPTS - att)") auto

declare commit_loop.simps [simp del]

definition update_commit :: "codec \<Rightarrow> path \<Rightarrow> update \<Rightarrow> ('e, 'a) prog \<Rightarrow> ('e repo_error, 'a) act" where
  "update_commit C root u body =
     (let c = up_changes u in
      case find (\<lambda>a. \<not> prefix root (ad_staged a)) (ch_add c) of
        Some a \<Rightarrow> hraise (NotStaged (ad_staged a))
      | None \<Rightarrow>
          hbind (stage C root c) (\<lambda>plan.
          hbind (commit_loop plan body 1) (\<lambda>x.
          hthen (hmap_err FinalizationPending (finalize plan))
          (hret x))))"

section \<open>Sweeping\<close>

definition is_package_file :: "string \<Rightarrow> bool" where
  "is_package_file name \<longleftrightarrow> \<not> prefix ''.'' name \<and> split_once_sub ''.pkg.tar.'' name \<noteq> None"

record swept =
  still_retired :: "path \<rightharpoonup> nat"
  deleted :: "string list"

primrec hfold :: "('s \<Rightarrow> 'x \<Rightarrow> ('e, 's) act) \<Rightarrow> 's \<Rightarrow> 'x list \<Rightarrow> ('e, 's) act" where
  "hfold f s [] = hret s"
| "hfold f s (x # xs) = hbind (f s x) (\<lambda>t. hfold f t xs)"

definition package_of :: "string \<Rightarrow> string" where
  "package_of name = (case strip_suffix ''.sig'' name of None \<Rightarrow> name | Some p \<Rightarrow> p)"

definition sweep_entry ::
    "nat \<Rightarrow> nat \<Rightarrow> path \<Rightarrow> string set \<Rightarrow> (path \<rightharpoonup> nat) \<times> swept \<Rightarrow> string \<Rightarrow> ('e, (path \<rightharpoonup> nat) \<times> swept) act" where
  "sweep_entry now grace dir listed = (\<lambda>(known, sw) name.
     if \<not> is_package_file name then hret (known, sw)
     else if package_of name \<in> listed then hret (known, sw)
     else
       let path = dir @ [name];
           since = (case known path of None \<Rightarrow> now | Some t \<Rightarrow> t);
           rest = known(path := None);
           kept = sw\<lparr>still_retired := (still_retired sw)(path \<mapsto> since)\<rparr>
       in
       if now - since \<ge> grace then
         hbind (hattempt (remove_file path)) (\<lambda>r.
         case r of
           Inr _ \<Rightarrow> hret (rest, sw\<lparr>deleted := deleted sw @ [name]\<rparr>)
         | Inl e \<Rightarrow>
             if e = Io_NotFound then hret (rest, sw)
             else hthen (hemit (RepoFileFailed Action_Remove path)) (hret (rest, kept)))
       else hret (rest, kept))"

definition read_listing :: "codec \<Rightarrow> path \<Rightarrow> (unit, string set) act" where
  "read_listing C p = step (\<lambda>l h.
     if l \<noteq> Fine then (Raised (), h)
     else (case file_at h p of
             None \<Rightarrow> (Raised (), h)
           | Some bytes \<Rightarrow> (case listed_filenames C bytes of None \<Rightarrow> (Raised (), h) | Some fs \<Rightarrow> (Done fs, h))))"

definition sweep_platform ::
    "codec \<Rightarrow> path \<Rightarrow> nat \<Rightarrow> nat \<Rightarrow> (path \<rightharpoonup> nat) \<times> swept \<Rightarrow> string \<Rightarrow> ('e, (path \<rightharpoonup> nat) \<times> swept) act" where
  "sweep_platform C root now grace st name =
     (let dir = root @ [name] in
      hbind (hgets (\<lambda>h. is_dir h dir)) (\<lambda>isdir.
      if prefix ''.'' name \<or> \<not> isdir then hret st
      else
        hbind (hattempt (read_listing C (dir @ [DB_ARCHIVE]))) (\<lambda>r.
        case r of
          Inl _ \<Rightarrow> hret st
        | Inr listed \<Rightarrow>
            hbind (hattempt (read_dir dir)) (\<lambda>r.
            case r of Inl _ \<Rightarrow> hret st | Inr found \<Rightarrow> hfold (sweep_entry now grace dir listed) st found))))"

definition sweep_retired :: "codec \<Rightarrow> path \<Rightarrow> (path \<rightharpoonup> nat) \<Rightarrow> nat \<Rightarrow> nat \<Rightarrow> ('e, swept) act" where
  "sweep_retired C root known now grace =
     (let sw = \<lparr>still_retired = Map.empty, deleted = []\<rparr> in
      hbind (hattempt (read_dir root)) (\<lambda>r.
      case r of
        Inl _ \<Rightarrow> hret sw
      | Inr found \<Rightarrow> hbind (hfold (sweep_platform C root now grace) (known, sw) found) (\<lambda>(_, sw). hret sw)))"

definition sweep_at :: "codec \<Rightarrow> path \<Rightarrow> nat \<Rightarrow> nat \<Rightarrow> ('e repo_error, nat) act" where
  "sweep_at C root now grace =
     hthen recover
     (hbind (hgets retired) (\<lambda>known.
      hthen (hmodify (\<lambda>h. h\<lparr>retired := Map.empty\<rparr>))
      (hbind (sweep_retired C root known now grace) (\<lambda>sw.
       hthen (hmodify (\<lambda>h. h\<lparr>retired := still_retired sw\<rparr>))
       (hthen (if deleted sw \<noteq> [] then hemit (RepoSwept (deleted sw)) else hret ())
       (hret (length (deleted sw))))))))"

definition sweep :: "codec \<Rightarrow> path \<Rightarrow> nat \<Rightarrow> ('e repo_error, nat) act" where
  "sweep C root grace = hbind (hgets instant) (\<lambda>now. sweep_at C root now grace)"

section \<open>Creating the repository\<close>

definition create_missing :: "codec \<Rightarrow> path \<Rightarrow> string \<Rightarrow> string \<Rightarrow> (io_error, unit) act" where
  "create_missing C dir name sfx =
     (let archive = name @ ''.'' @ sfx @ ''.tar.gz''; link = name @ ''.'' @ sfx in
      hbind (hgets (\<lambda>h. exists_at h (dir @ [archive]))) (\<lambda>there.
      hthen (if there then hret () else step (write_file (dir @ [archive]) (tar_gz C [])))
      (hbind (hgets (\<lambda>h. exists_at h (dir @ [link]))) (\<lambda>linked.
       if linked then hret ()
       else step (\<lambda>l h.
         if l \<noteq> Fine then (Raised Io_Other, h)
         else if \<not> is_dir h dir then (Raised Io_NotFound, h)
         else (Done (), put_node (dir @ [link]) (Link archive) h))))))"

definition init_repo :: "codec \<Rightarrow> path \<Rightarrow> string \<Rightarrow> (io_error, unit) act" where
  "init_repo C dir name = hthen (create_dir_all dir) (hfor_each (create_missing C dir name) [''db'', ''files''])"

definition repository_init :: "codec \<Rightarrow> path \<Rightarrow> (io_error, unit) act" where
  "repository_init C root = hfor_each (\<lambda>pf. init_repo C (platform_dir root pf) REPO_NAME) ALL_PLATFORMS"

end
