(* ===== verification/Repo_Replay.thy ===== *)
theory Repo_Replay
  imports Repository
begin

text \<open>
  Replaying a plan: a pure account of what moving its files does, that \<open>finish\<close> and
  \<open>finalize\<close> stop at some point of it, and that a replay after such a stop goes on from there.
\<close>

section \<open>Steps that can be made again\<close>

text \<open>
  What makes a list of steps safe to start over: a step that is not possible changes
  nothing, one that was made is not possible any more, and the steps made after it do not
  make it possible again.
\<close>

locale resumable =
  fixes make :: "'m \<Rightarrow> 's \<Rightarrow> 's" and possible :: "'s \<Rightarrow> 'm \<Rightarrow> bool" and clear_of :: "'m \<Rightarrow> 'm \<Rightarrow> bool"
  assumes impossible: "\<not> possible s m \<Longrightarrow> make m s = s"
    and made: "clear_of m m \<Longrightarrow> \<not> possible (make m s) m"
    and stays_made: "\<not> possible s m \<Longrightarrow> clear_of m n \<Longrightarrow> \<not> possible (make n s) m"
begin

lemma fold_stays_made: "\<not> possible s m \<Longrightarrow> \<forall>n \<in> set ns. clear_of m n \<Longrightarrow> \<not> possible (fold make ns s) m"
  by (induction ns arbitrary: s) (auto simp: stays_made)

lemma fold_made: "\<forall>m \<in> set ms. \<forall>n \<in> set ms. clear_of m n \<Longrightarrow> m \<in> set ms \<Longrightarrow> \<not> possible (fold make ms s) m"
proof (induction ms arbitrary: s)
  case (Cons n ms)
  then show ?case using fold_stays_made [OF made, of m ms s] by (cases "m = n") auto
qed simp

lemma fold_impossible: "\<forall>m \<in> set ms. \<not> possible s m \<Longrightarrow> fold make ms s = s"
  by (induction ms) (auto simp: impossible)

lemma fold_again:
  assumes "\<forall>m \<in> set ms. \<forall>n \<in> set ms. clear_of m n" "j \<le> k"
  shows "fold make (take j ms) (fold make (take k ms) s) = fold make (take k ms) s"
proof (rule fold_impossible, rule ballI)
  fix m
  assume "m \<in> set (take j ms)"
  then have "m \<in> set (take k ms)" using assms(2) by (metis subsetD set_take_subset_set_take)
  moreover have "\<forall>m \<in> set (take k ms). \<forall>n \<in> set (take k ms). clear_of m n" using assms(1) by (meson in_set_takeD)
  ultimately show "\<not> possible (fold make (take k ms) s) m" using fold_made by blast
qed

text \<open>Starting over after some of the steps were made is making the rest.\<close>

lemma fold_resume:
  assumes "\<forall>m \<in> set ms. \<forall>n \<in> set ms. clear_of m n"
  shows "fold make (take j ms) (fold make (take k ms) s) = fold make (take (max j k) ms) s"
proof (cases "j \<le> k")
  case True
  then show ?thesis using fold_again [OF assms] by (simp add: max_absorb2)
next
  case False
  then obtain d where d: "take j ms = take k ms @ d" by (metis linear take_add le_Suc_ex)
  have "fold make (take j ms) (fold make (take k ms) s) = fold make d (fold make (take k ms) (fold make (take k ms) s))"
    unfolding d by simp
  also have "\<dots> = fold make d (fold make (take k ms) s)" using fold_again [OF assms order_refl] by simp
  also have "\<dots> = fold make (take j ms) s" unfolding d by simp
  finally show ?thesis using False by (simp add: max_absorb1)
qed

end

section \<open>Replaying a plan\<close>

type_synonym nodes = "path \<rightharpoonup> node"

definition can_move :: "nodes \<Rightarrow> file_move \<Rightarrow> bool" where
  "can_move N m \<longleftrightarrow>
     (case N (mv_source m) of Some (File _) \<Rightarrow> True | _ \<Rightarrow> False) \<and>
     N (mv_destination m) \<noteq> Some Dir \<and> N (butlast (mv_destination m)) = Some Dir"

definition move1 :: "file_move \<Rightarrow> nodes \<Rightarrow> nodes" where
  "move1 m N = (if can_move N m then N(mv_source m := None, mv_destination m := N (mv_source m)) else N)"

definition replay :: "file_move list \<Rightarrow> nodes \<Rightarrow> nodes" where
  "replay ms N = fold move1 ms N"

definition apart :: "file_move list \<Rightarrow> bool" where
  "apart ms \<longleftrightarrow> (\<forall>m \<in> set ms. \<forall>n \<in> set ms. mv_source m \<noteq> mv_destination n)"

lemma replay_simps [simp]: "replay [] N = N" "replay (m # ms) N = replay ms (move1 m N)"
  "replay (ms @ ns) N = replay ns (replay ms N)"
  by (simp_all add: replay_def)

lemma move1_dirs: "move1 m N p = Some Dir \<longleftrightarrow> N p = Some Dir"
  by (auto simp: move1_def can_move_def split: option.splits node.splits)

lemma move1_done: "mv_source m \<noteq> mv_destination m \<Longrightarrow> \<not> can_move (move1 m N) m"
  by (auto simp: move1_def can_move_def)

lemma move1_keeps_done:
  assumes "\<not> can_move N m" "mv_source m \<noteq> mv_destination n"
  shows "\<not> can_move (move1 n N) m"
proof
  assume c: "can_move (move1 n N) m"
  then have "can_move N n" using assms(1) by (auto simp: move1_def split: if_splits)
  moreover have "N (mv_source m) = move1 n N (mv_source m)"
    using assms(2) c by (auto simp: move1_def can_move_def)
  ultimately have "can_move N m" using c move1_dirs [of n N] by (simp add: can_move_def)
  with assms(1) show False by simp
qed

interpretation file_moves: resumable move1 can_move "\<lambda>m n. mv_source m \<noteq> mv_destination n"
  by (unfold_locales; (rule move1_done | rule move1_keeps_done | simp add: move1_def); assumption?)

lemma apart_take: "apart ms \<Longrightarrow> apart (take k ms)"
  by (auto simp: apart_def dest: in_set_takeD)

lemma replay_resume: "apart ms \<Longrightarrow> replay (take j ms) (replay (take k ms) N) = replay (take (max j k) ms) N"
  unfolding replay_def apart_def by (rule file_moves.fold_resume)

lemma replay_full: "apart ms \<Longrightarrow> replay ms (replay (take k ms) N) = replay ms N"
  using replay_resume [of ms "length ms + k" k N] by simp

section \<open>Finishing is replaying\<close>

lemma rename_file_result:
  assumes "rename_file (mv_source m) (mv_destination m) h = (r, i)"
  shows "(case r of Done _ \<Rightarrow> node_at i = move1 m (node_at h)
          | Raised e \<Rightarrow> node_at i = node_at h \<and> (e = Io_NotFound \<and> \<not> exists_at h (mv_source m) \<longrightarrow> move1 m (node_at h) = node_at h)
          | Died \<Rightarrow> node_at i = node_at h)"
  using assms
  by (auto simp: rename_file_def step_def move1_def can_move_def file_at_def is_dir_def exists_at_def fun_upd_twist
      split: list.splits option.splits node.splits if_splits)

definition settles :: "host \<Rightarrow> host \<Rightarrow> bool" where
  "settles h i \<longleftrightarrow> db (srv i) = db (srv h) \<and> plan_slot i = plan_slot h \<and> retired i = retired h \<and> instant i = instant h"

lemma finish_move_result:
  assumes "finish_move m h = (r, i)"
  shows "settles h i \<and> (node_at i = node_at h \<or> node_at i = move1 m (node_at h)) \<and>
    (r = Done () \<longrightarrow> node_at i = move1 m (node_at h))"
proof -
  obtain q j where rn: "rename_file (mv_source m) (mv_destination m) h = (q, j)" by fastforce
  note fr = touchesD [OF touches_rename_file(1) [OF order_refl] rn]
  have sync: "open_and_sync p j = (r, i) \<Longrightarrow> srv i = srv j \<and> plan_slot i = plan_slot j \<and> retired i = retired j \<and> instant i = instant j \<and> node_at i = node_at j" for p
    using touchesD [OF touches_open_and_sync(1), where S = "{}"] by (fastforce simp: fun_eq_iff)
  have ex: "exists_at j = exists_at h" if "node_at j = node_at h" using that by (simp add: exists_at_def fun_eq_iff)
  show ?thesis
  proof (cases q)
    case (Done x)
    with assms rn have os: "open_and_sync (butlast (mv_destination m)) j = (r, i)"
      by (simp add: finish_move_def Let_def hbind_def hattempt_def hcatch_def hret_def)
    show ?thesis using sync [OF os] fr rename_file_result [OF rn] Done by (simp add: settles_def)
  next
    case (Raised e)
    with assms rn sync fr rename_file_result [OF rn] ex show ?thesis
      by (auto simp: finish_move_def Let_def hbind_def hattempt_def hcatch_def hret_def hgets_def hthen_def hraise_def hemit_def
          hmodify_def emit_def perform_def settles_def split: if_splits)
  next
    case Died
    with assms rn fr rename_file_result [OF rn] show ?thesis
      by (auto simp: finish_move_def Let_def hbind_def hattempt_def hcatch_def settles_def)
  qed
qed

lemma finish_moves_result:
  "hfor_each finish_move ms h = (r, i) \<Longrightarrow>
   settles h i \<and> (\<exists>k. node_at i = replay (take k ms) (node_at h)) \<and> (r = Done () \<longrightarrow> node_at i = replay ms (node_at h))"
proof (induction ms arbitrary: h)
  case Nil
  then show ?case by (simp add: hret_def settles_def)
next
  case (Cons m ms)
  obtain q j where m: "finish_move m h = (q, j)" by fastforce
  note fm = finish_move_result [OF m]
  show ?case
  proof (cases q)
    case (Done x)
    with Cons.prems m have rest: "hfor_each finish_move ms j = (r, i)" by (simp add: hthen_def hbind_def)
    from Cons.IH [OF rest] obtain k where "node_at i = replay (take k ms) (node_at j)" by blast
    with fm Done Cons.IH [OF rest] show ?thesis by (auto simp: settles_def intro!: exI [of _ "Suc k"])
  next
    case (Raised e)
    with Cons.prems m fm show ?thesis
      by (auto simp: hthen_def hbind_def intro: exI [of _ 0] exI [of _ "Suc 0"])
  next
    case Died
    with Cons.prems m fm show ?thesis
      by (auto simp: hthen_def hbind_def intro: exI [of _ 0] exI [of _ "Suc 0"])
  qed
qed

lemma finish_result:
  assumes "finish plan h = (r, i)"
  shows "settles h i" "\<exists>k. node_at i = replay (take k (fin_moves plan)) (node_at h)"
    "r = Done x \<Longrightarrow> node_at i = replay (fin_moves plan) (node_at h) \<and> x = fin_retired plan"
proof -
  obtain q j where m: "hfor_each finish_move (fin_moves plan) h = (q, j)" by fastforce
  have "j = i" "\<And>x. r = Done x \<Longrightarrow> q = Done () \<and> x = fin_retired plan"
    using assms m by (auto simp: finish_def hthen_def hbind_def hret_def split: outcome.splits)
  with finish_moves_result [OF m]
  show "settles h i" "\<exists>k. node_at i = replay (take k (fin_moves plan)) (node_at h)"
    "r = Done x \<Longrightarrow> node_at i = replay (fin_moves plan) (node_at h) \<and> x = fin_retired plan" by auto
qed

text \<open>Finalizing leaves the plan to be replayed, or has replayed it.\<close>

lemma finalize_result:
  assumes "finalize plan h = (r, i)"
  shows "db (srv i) = db (srv h)" "instant i = instant h"
    "(plan_slot i = plan_slot h \<and> retired i = retired h \<and> (\<exists>k. node_at i = replay (take k (fin_moves plan)) (node_at h)) \<and> (\<forall>x. r \<noteq> Done x)) \<or>
     (plan_slot i = None \<and> node_at i = replay (fin_moves plan) (node_at h) \<and> r = Done () \<and>
      retired i = retired h ++ (\<lambda>p. if p \<in> set (fin_retired plan) then Some (instant h) else None))"
proof -
  obtain q j where m: "finish plan h = (q, j)" by fastforce
  note fr = finish_result [OF m]
  have full: "\<exists>k. replay (fin_moves plan) N = replay (take k (fin_moves plan)) N" for N
    by (rule exI [of _ "length (fin_moves plan)"]) simp
  show "db (srv i) = db (srv h)" "instant i = instant h"
    "(plan_slot i = plan_slot h \<and> retired i = retired h \<and> (\<exists>k. node_at i = replay (take k (fin_moves plan)) (node_at h)) \<and> (\<forall>x. r \<noteq> Done x)) \<or>
     (plan_slot i = None \<and> node_at i = replay (fin_moves plan) (node_at h) \<and> r = Done () \<and>
      retired i = retired h ++ (\<lambda>p. if p \<in> set (fin_retired plan) then Some (instant h) else None))"
    using assms m fr full
    by (auto simp: finalize_def hmap_err_def hcatch_def hbind_def hthen_def hraise_def plan_delete_def step_def hmodify_def
        note_retired_def settles_def cong: if_cong split: outcome.splits list.splits if_splits)
qed

end
