(* ===== verification/Repo_Staging.thy ===== *)
theory Repo_Staging
  imports Repo_Replay
begin

text \<open>
  Staging: what it may touch, and that a plan it hands out has every file in place under a
  private name, the packages of the update first and the databases after them.
\<close>

lemma touches_push [touching]: "touches S (push_move a b)"
  by (simp add: touches_def push_move_def hmodify_def)

section \<open>What staging prepares\<close>

text \<open>A name a database may list: not that of a signature; and one that is published.\<close>

definition listable :: "string \<Rightarrow> bool" where
  "listable n \<longleftrightarrow> is_package_file n \<and> \<not> suffix ''.sig'' n"

definition publishable :: "string \<Rightarrow> bool" where
  "publishable n \<longleftrightarrow> is_package_file n \<and> \<not> suffix ''.sig'' n \<and> \<not> suffix ''.publishing'' n"

definition pending :: "path \<Rightarrow> path" where
  "pending p = with_suffix p ''.publishing''"

definition sig_of :: "path \<Rightarrow> path" where
  "sig_of p = with_suffix p ''.sig''"

text \<open>The second names of uploads and the archives written beside the current ones: never served.\<close>

definition unserved :: "path \<Rightarrow> path set" where
  "unserved root =
     {p. \<exists>d n. p = root @ [STAGING_DIR, d, n @ ''.publishing'']} \<union>
     {p. \<exists>pf. p = platform_dir root pf @ [next_of DB_ARCHIVE]} \<union>
     {p. \<exists>pf. p = platform_dir root pf @ [next_of FILES_ARCHIVE]}"

definition above_platforms :: "path \<Rightarrow> path set" where
  "above_platforms root = {p. \<exists>pf. prefix p (platform_dir root pf)}"

definition staged_ok :: "path \<Rightarrow> addition \<Rightarrow> bool" where
  "staged_ok root a \<longleftrightarrow>
     prefix (root @ [STAGING_DIR]) (ad_staged a) \<and> length (ad_staged a) = length root + 3 \<and>
     last (ad_staged a) = pe_filename (ad_entry a) \<and> publishable (pe_filename (ad_entry a)) \<and>
     conforming_entry (ad_entry a)"

definition changes_ok :: "path \<Rightarrow> changes \<Rightarrow> bool" where
  "changes_ok root c \<longleftrightarrow>
     (\<forall>a \<in> set (ch_add c). staged_ok root a) \<and> distinct (map ad_staged (ch_add c)) \<and>
     distinct (map (\<lambda>a. (ad_platform a, pe_filename (ad_entry a))) (ch_add c)) \<and>
     (\<forall>r \<in> set (ch_retire c). simple_name (entry_dir_for_filename (rt_filename r)))"

lemma staged_okE:
  assumes "staged_ok root a"
  obtains d n where "ad_staged a = root @ [STAGING_DIR, d, n]" "n = pe_filename (ad_entry a)" "publishable n"
    "conforming_entry (ad_entry a)"
proof -
  from assms obtain q where q: "ad_staged a = root @ STAGING_DIR # q" "length q = 2"
    by (auto simp: staged_ok_def prefix_def)
  then obtain d n where "q = [d, n]" by (auto simp: length_Suc_conv numeral_2_eq_2)
  with q assms that show ?thesis by (auto simp: staged_ok_def)
qed

lemma with_suffix_in [simp]: "with_suffix (p @ [n]) s = p @ [n @ s]"
  by (simp add: with_suffix_def)

lemma with_suffix_in3 [simp]: "with_suffix (p @ [x, y, n]) s = p @ [x, y, n @ s]"
  by (simp add: with_suffix_def butlast_append)

lemma private_staged: "staged_ok root a \<Longrightarrow> pending (ad_staged a) \<in> unserved root \<and> pending (sig_of (ad_staged a)) \<in> unserved root"
  by (erule staged_okE) (auto simp: unserved_def pending_def sig_of_def intro: exI [of _ "_ @ ''.sig''"])

lemma private_next: "platform_dir root pf @ [next_of DB_ARCHIVE] \<in> unserved root"
  "platform_dir root pf @ [next_of FILES_ARCHIVE] \<in> unserved root"
  by (auto simp: unserved_def)

lemma served_not_private:
  "\<not> prefix ''.'' n \<Longrightarrow> platform_dir root pf @ [n] \<notin> unserved root \<union> above_platforms root"
  by (auto simp: unserved_def above_platforms_def platform_dir_def next_of_def dest!: prefix_length_le)

lemma suffix_conv: "suffix s (x @ s)"
  by (simp add: suffix_def)

lemma suffix_end: "suffix s (x @ t) \<Longrightarrow> length s = length t \<Longrightarrow> s = t"
  by (auto simp: suffix_def)

lemma staged_not_private:
  assumes "staged_ok root a"
  shows "ad_staged a \<notin> unserved root \<union> above_platforms root" "sig_of (ad_staged a) \<notin> unserved root \<union> above_platforms root"
proof -
  obtain d n where a: "ad_staged a = root @ [STAGING_DIR, d, n]" "publishable n"
    using assms by (rule staged_okE) auto
  have "\<not> suffix ''.publishing'' (n @ ''.sig'')"
    by (simp add: suffix_to_prefix)
  then show "ad_staged a \<notin> unserved root \<union> above_platforms root" "sig_of (ad_staged a) \<notin> unserved root \<union> above_platforms root"
    using a by (auto simp: unserved_def above_platforms_def platform_dir_def sig_of_def publishable_def suffix_def
        dest!: prefix_length_le)
qed

lemma touches_link_or_copy [touching]: "p \<in> S \<Longrightarrow> touches S (link_or_copy q p)" "drafts_not (link_or_copy q p)"
  unfolding link_or_copy_def by (intro touching; assumption?)+

lemma touches_sync [touching]: "touches S (sync p)" "drafts_not (sync p)"
  unfolding sync_def by (intro touching)+

lemma touches_stage_file [touching]: "pending src \<in> S \<Longrightarrow> touches S (stage_file src dst)"
  unfolding stage_file_def Let_def pending_def by (auto intro!: touching)

lemma touches_write_updated [touching]: "p \<in> S \<Longrightarrow> touches S (write_updated q p f)"
  unfolding write_updated_def by (rule touches_step, auto simp: touches_def hmap_err_def hcatch_def hthen_def hbind_def
      write_file_def hraise_def is_dir_def split: option.splits luck.splits node.splits)

lemma drafts_not_write_updated [touching]: "drafts_not (write_updated q p f)"
  unfolding write_updated_def by (rule drafts_not_step, auto simp: drafts_not_def hmap_err_def hcatch_def hthen_def hbind_def
      write_file_def hraise_def split: option.splits luck.splits node.splits)

text \<open>Reading off a run that went through.\<close>

lemma hbind_Done: "hbind m f h = (Done y, i) \<longleftrightarrow> (\<exists>x j. m h = (Done x, j) \<and> f x j = (Done y, i))"
  by (auto simp: hbind_def split: prod.splits outcome.splits)

lemma hthen_Done: "hthen m k h = (Done y, i) \<longleftrightarrow> (\<exists>x j. m h = (Done x, j) \<and> k j = (Done y, i))"
  by (simp add: hthen_def hbind_Done)

lemma hmap_err_Done: "hmap_err f m h = (Done y, i) \<longleftrightarrow> m h = (Done y, i)"
  by (auto simp: hmap_err_def hcatch_def hraise_def split: prod.splits outcome.splits)

lemma hgets_Done: "hgets f h = (Done y, i) \<longleftrightarrow> y = f h \<and> i = h"
  by (auto simp: hgets_def)

lemma hret_Done: "hret x h = (Done y, i) \<longleftrightarrow> y = x \<and> i = h"
  by (auto simp: hret_def)

lemmas runs_Done = hbind_Done hthen_Done hmap_err_Done hgets_Done hret_Done

lemma link_or_copy_file:
  assumes "link_or_copy src dst h = (Done x, i)"
  shows "\<exists>b. file_at h src = Some b \<and> file_at i dst = Some b"
proof -
  obtain r j where l: "hard_link src dst h = (r, j)" by fastforce
  show ?thesis
  proof (cases r)
    case (Done y)
    then show ?thesis using assms l
      by (auto simp: link_or_copy_def hcatch_def hard_link_def step_def file_at_def split: list.splits option.splits if_splits)
  next
    case (Raised e)
    then have "node_at j = node_at h"
      using l by (auto simp: hard_link_def step_def split: list.splits option.splits if_splits)
    moreover have "copy_file src dst j = (Done x, i)" using assms l Raised by (simp add: link_or_copy_def hcatch_def)
    ultimately show ?thesis
      by (auto simp: copy_file_def step_def file_at_def write_file_def split: list.splits option.splits if_splits luck.splits node.splits)
  next
    case Died
    then show ?thesis using assms l by (simp add: link_or_copy_def hcatch_def)
  qed
qed

lemma sync_same: "sync p h = (r, i) \<Longrightarrow> node_at i = node_at h \<and> draft i = draft h"
  using touchesD [OF touches_sync(1), of p h r i "{}"] drafts_notD [OF touches_sync(2)] by (auto simp: fun_eq_iff)

lemma file_at_cong: "node_at i p = node_at h p \<Longrightarrow> file_at i p = file_at h p"
  by (simp add: file_at_def)

text \<open>A staged file is there under its second name, and planned.\<close>

lemma stage_file_done:
  assumes "stage_file src dst h = (Done x, i)" "pending src \<noteq> src"
  shows "\<exists>b. file_at h src = Some b \<and> file_at i (pending src) = Some b"
    "fin_moves (draft i) = fin_moves (draft h) @ [\<lparr>mv_source = pending src, mv_destination = dst\<rparr>]"
    "fin_retired (draft i) = fin_retired (draft h)"
proof -
  from assms(1) obtain x1 h1 x2 h2 x3 h3 where
    rm: "(if exists_at h (pending src) then remove_file (pending src) else hret ()) h = (Done x1, h1)"
    and ln: "link_or_copy src (pending src) h1 = (Done x2, h2)"
    and ps: "(push_move (pending src) dst :: (io_error, unit) act) h2 = (Done x3, h3)" and sy: "sync (pending src) h3 = (Done x, i)"
    unfolding stage_file_def Let_def runs_Done pending_def [symmetric] by blast
  have t1: "touches {pending src} (if exists_at h (pending src) then remove_file (pending src) else hret () :: (io_error, unit) act)"
    "drafts_not (if exists_at h (pending src) then remove_file (pending src) else hret () :: (io_error, unit) act)"
    by (auto intro: touching)
  have s: "file_at h1 src = file_at h src" using touchesD [OF t1(1) rm] assms(2) by (auto intro: file_at_cong)
  have p: "node_at h3 = node_at h2" "draft h3 = (draft h2)\<lparr>fin_moves := fin_moves (draft h2) @ [\<lparr>mv_source = pending src, mv_destination = dst\<rparr>]\<rparr>"
    using ps by (auto simp: push_move_def hmodify_def)
  have d: "draft h2 = draft h" using drafts_notD [OF t1(2) rm] drafts_notD [OF touches_link_or_copy(2) ln] by simp
  show "\<exists>b. file_at h src = Some b \<and> file_at i (pending src) = Some b"
    using link_or_copy_file [OF ln] s p(1) sync_same [OF sy] by (auto simp: file_at_def)
  show "fin_moves (draft i) = fin_moves (draft h) @ [\<lparr>mv_source = pending src, mv_destination = dst\<rparr>]"
    "fin_retired (draft i) = fin_retired (draft h)"
    using sync_same [OF sy] p(2) d by auto
qed

definition addition_moves :: "path \<Rightarrow> bool \<Rightarrow> addition \<Rightarrow> file_move list" where
  "addition_moves root signed a =
     (let dir = platform_dir root (ad_platform a); f = pe_filename (ad_entry a) in
      \<lparr>mv_source = pending (ad_staged a), mv_destination = dir @ [f]\<rparr> #
      (if signed then [\<lparr>mv_source = pending (sig_of (ad_staged a)), mv_destination = dir @ [f @ ''.sig'']\<rparr>] else []))"

text \<open>The file a move is to bring is where the move takes it from.\<close>

definition brings :: "host \<Rightarrow> file_move \<Rightarrow> string \<Rightarrow> bool" where
  "brings h m b \<longleftrightarrow> file_at h (mv_source m) = Some b"

lemma pending_neq: "p \<noteq> [] \<Longrightarrow> pending p \<noteq> p"
  by (cases p rule: rev_cases) (auto simp: pending_def)

lemma pending_inj: "p \<noteq> [] \<Longrightarrow> q \<noteq> [] \<Longrightarrow> pending p = pending q \<Longrightarrow> p = q"
  by (cases p rule: rev_cases; cases q rule: rev_cases) (auto simp: pending_def)

lemma sig_of_neq: "p \<noteq> [] \<Longrightarrow> sig_of p \<noteq> p \<and> sig_of p \<noteq> []"
  by (cases p rule: rev_cases) (auto simp: sig_of_def)

lemma sig_of_inj: "p \<noteq> [] \<Longrightarrow> q \<noteq> [] \<Longrightarrow> sig_of p = sig_of q \<Longrightarrow> p = q"
  by (cases p rule: rev_cases; cases q rule: rev_cases) (auto simp: sig_of_def)

lemma staged_ok_neq_Nil: "staged_ok root a \<Longrightarrow> ad_staged a \<noteq> []"
  by (auto simp: staged_ok_def)

lemma staged_not_sig: "staged_ok root a \<Longrightarrow> q \<noteq> [] \<Longrightarrow> ad_staged a \<noteq> sig_of q"
  by (erule staged_okE, cases q rule: rev_cases) (auto simp: sig_of_def publishable_def suffix_def)

definition pendings :: "addition \<Rightarrow> path set" where
  "pendings a = {pending (ad_staged a), pending (sig_of (ad_staged a))}"

lemma pendings_unserved: "staged_ok root a \<Longrightarrow> pendings a \<subseteq> unserved root"
  using private_staged by (auto simp: pendings_def)

lemma pendings_disjoint:
  assumes "staged_ok root a" "staged_ok root b" "ad_staged a \<noteq> ad_staged b"
  shows "pendings a \<inter> pendings b = {}"
proof -
  note n = staged_ok_neq_Nil [OF assms(1)] staged_ok_neq_Nil [OF assms(2)]
  note s = sig_of_neq [OF n(1)] sig_of_neq [OF n(2)]
  have "pending (ad_staged a) \<noteq> pending (ad_staged b)" using pending_inj n assms(3) by blast
  moreover have "pending (sig_of (ad_staged a)) \<noteq> pending (sig_of (ad_staged b))"
    using pending_inj sig_of_inj n s assms(3) by metis
  moreover have "pending (ad_staged a) \<noteq> pending (sig_of (ad_staged b))"
    using pending_inj n s staged_not_sig [OF assms(1)] by metis
  moreover have "pending (sig_of (ad_staged a)) \<noteq> pending (ad_staged b)"
    using pending_inj n s staged_not_sig [OF assms(2)] by metis
  ultimately show ?thesis by (auto simp: pendings_def)
qed

lemma touches_stage_addition [touching]: "pendings a \<subseteq> S \<Longrightarrow> touches S (stage_addition root a)"
  unfolding stage_addition_def Let_def
  by (intro touching) (auto simp: pendings_def sig_of_def split: if_splits intro!: touching)

definition signed :: "host \<Rightarrow> addition \<Rightarrow> bool" where
  "signed h a \<longleftrightarrow> exists_at h (sig_of (ad_staged a))"

text \<open>What staging an addition made of the files: the upload, and its signature if there is one.\<close>

definition prepared :: "host \<Rightarrow> host \<Rightarrow> addition \<Rightarrow> bool" where
  "prepared h i a \<longleftrightarrow>
     (\<exists>b. file_at h (ad_staged a) = Some b \<and> file_at i (pending (ad_staged a)) = Some b) \<and>
     (signed h a \<longrightarrow>
        (\<exists>b. file_at h (sig_of (ad_staged a)) = Some b \<and> file_at i (pending (sig_of (ad_staged a))) = Some b))"

lemma stage_addition_done:
  assumes run: "stage_addition root a h = (Done x, i)" and ok: "staged_ok root a"
  shows "prepared h i a" "fin_moves (draft i) = fin_moves (draft h) @ addition_moves root (signed h a) a"
proof -
  let ?s = "ad_staged a" and ?g = "sig_of (ad_staged a)"
  let ?dir = "platform_dir root (ad_platform a)" and ?f = "pe_filename (ad_entry a)"
  note nn = staged_ok_neq_Nil [OF ok] sig_of_neq [OF staged_ok_neq_Nil [OF ok]]
  have np: "pending ?s \<noteq> ?s" "pending ?g \<noteq> ?g" using nn pending_neq by auto
  have ne: "pending ?s \<noteq> pending ?g" using pending_inj [of ?s ?g] nn by auto
  from run obtain x1 h1 where f1: "stage_file ?s (?dir @ [?f]) h = (Done x1, h1)"
    and f2: "hfor_each (\<lambda>(source, name). stage_file source (?dir @ [name]))
               (if signed h a then [(?g, ?f @ ''.sig'')] else []) h1 = (Done x, i)"
    unfolding stage_addition_def Let_def runs_Done signed_def sig_of_def by (auto simp: runs_Done)
  note d1 = stage_file_done [OF f1 np(1)]
  show "prepared h i a" "fin_moves (draft i) = fin_moves (draft h) @ addition_moves root (signed h a) a"
  proof (atomize (full), cases "signed h a")
    case False
    with f2 have "i = h1" by (simp add: hret_def)
    with d1 False show "prepared h i a \<and> fin_moves (draft i) = fin_moves (draft h) @ addition_moves root (signed h a) a"
      by (auto simp: prepared_def addition_moves_def Let_def)
  next
    case True
    with f2 obtain x2 where f3: "stage_file ?g (?dir @ [?f @ ''.sig'']) h1 = (Done x2, i)"
      by (auto simp: runs_Done)
    note d2 = stage_file_done [OF f3 np(2)]
    have t: "touches {pending ?s} (stage_file ?s (?dir @ [?f]))" "touches {pending ?g} (stage_file ?g (?dir @ [?f @ ''.sig'']))"
      by (auto intro: touching)
    have g: "file_at h1 ?g = file_at h ?g"
      using touchesD [OF t(1) f1] staged_not_private(2) [OF ok] private_staged [OF ok] by (metis UnI1 file_at_cong singletonD)
    have "file_at i (pending ?s) = file_at h1 (pending ?s)"
      using touchesD [OF t(2) f3] ne by (auto intro: file_at_cong)
    with d1 d2 g True show "prepared h i a \<and> fin_moves (draft i) = fin_moves (draft h) @ addition_moves root (signed h a) a"
      by (auto simp: prepared_def addition_moves_def Let_def)
  qed
qed

lemma touches_stage_additions:
  "\<forall>a \<in> set as. staged_ok root a \<Longrightarrow> touches (\<Union>a \<in> set as. pendings a) (hfor_each (\<lambda>a. hmap_err Io (stage_addition root a)) as)"
  by (rule touching) (auto intro!: touching)

lemma stage_additions_done:
  assumes "(hfor_each (\<lambda>a. hmap_err Io (stage_addition root a)) as :: ('e repo_error, unit) act) h = (Done x, i)"
    "\<forall>a \<in> set as. staged_ok root a" "distinct (map ad_staged as)"
  shows "(\<forall>a \<in> set as. prepared h i a) \<and>
    fin_moves (draft i) = fin_moves (draft h) @ concat (map (\<lambda>a. addition_moves root (signed h a) a) as)"
  using assms
proof (induction as arbitrary: h)
  case Nil
  then show ?case by (simp add: hret_def)
next
  case (Cons a as)
  from Cons.prems(1) obtain x1 j where f: "stage_addition root a h = (Done x1, j)"
    and r: "(hfor_each (\<lambda>a. hmap_err Io (stage_addition root a)) as :: ('e repo_error, unit) act) j = (Done x, i)"
    by (auto simp: runs_Done)
  have ok: "staged_ok root a" "\<forall>b \<in> set as. staged_ok root b" "distinct (map ad_staged as)" using Cons.prems by auto
  note d = stage_addition_done [OF f ok(1)] and IH = Cons.IH [OF r ok(2,3)]
  note tf = touchesD [OF touches_stage_addition [OF order_refl] f]
  note tr = touchesD [OF touches_stage_additions [OF ok(2)] r]
  have other: "node_at j (ad_staged b) = node_at h (ad_staged b) \<and> node_at j (sig_of (ad_staged b)) = node_at h (sig_of (ad_staged b))"
    if "b \<in> set as" for b
  proof -
    have "staged_ok root b" using that ok(2) by blast
    then have "ad_staged b \<notin> pendings a" "sig_of (ad_staged b) \<notin> pendings a"
      using staged_not_private pendings_unserved [OF ok(1)] by blast+
    then show ?thesis using tf by blast
  qed
  have dis: "pendings a \<inter> (\<Union>b \<in> set as. pendings b) = {}"
    using pendings_disjoint [OF ok(1)] ok(2) Cons.prems(3) by fastforce
  have "prepared h i a"
  proof -
    have "file_at i q = file_at j q" if "q \<in> pendings a" for q
    proof (rule file_at_cong)
      show "node_at i q = node_at j q" using tr that dis by blast
    qed
    with d(1) show ?thesis by (simp add: prepared_def pendings_def)
  qed
  moreover have same: "signed j b = signed h b" "file_at j (ad_staged b) = file_at h (ad_staged b)"
    "file_at j (sig_of (ad_staged b)) = file_at h (sig_of (ad_staged b))" if "b \<in> set as" for b
    using other [OF that] by (auto simp: signed_def exists_at_def file_at_def)
  then have "\<forall>b \<in> set as. prepared h i b" using IH by (auto simp: prepared_def)
  moreover have "concat (map (\<lambda>a. addition_moves root (signed j a) a) as) = concat (map (\<lambda>a. addition_moves root (signed h a) a) as)"
    using same(1) by (intro arg_cong [of _ _ concat] map_cong) simp_all
  ultimately show ?case using IH d(2) by simp
qed

definition platform_moves :: "path \<Rightarrow> platform \<Rightarrow> file_move list" where
  "platform_moves root pf =
     (let dir = platform_dir root pf in
      [\<lparr>mv_source = dir @ [next_of DB_ARCHIVE], mv_destination = dir @ [DB_ARCHIVE]\<rparr>,
       \<lparr>mv_source = dir @ [next_of FILES_ARCHIVE], mv_destination = dir @ [FILES_ARCHIVE]\<rparr>])"

definition nexts :: "path \<Rightarrow> platform \<Rightarrow> path set" where
  "nexts root pf = {platform_dir root pf @ [next_of DB_ARCHIVE], platform_dir root pf @ [next_of FILES_ARCHIVE]}"

text \<open>The new archives of a platform are written, from what the current ones hold.\<close>

definition rewritten :: "codec \<Rightarrow> path \<Rightarrow> changes \<Rightarrow> host \<Rightarrow> host \<Rightarrow> platform \<Rightarrow> bool" where
  "rewritten C root c h i pf \<longleftrightarrow>
     (let dir = platform_dir root pf in
      is_dir i dir \<and>
      (\<exists>b. updated_db C (file_at h (dir @ [DB_ARCHIVE])) (removed_on pf c) (added_on pf c) = Some b \<and>
           file_at i (dir @ [next_of DB_ARCHIVE]) = Some b) \<and>
      (\<exists>b. updated_files C (file_at h (dir @ [FILES_ARCHIVE])) (removed_on pf c) (added_on pf c) = Some b \<and>
           file_at i (dir @ [next_of FILES_ARCHIVE]) = Some b))"

lemma archive_names [simp]: "DB_ARCHIVE \<noteq> FILES_ARCHIVE" "next_of DB_ARCHIVE \<noteq> next_of FILES_ARCHIVE"
  "next_of x \<noteq> DB_ARCHIVE" "next_of x \<noteq> FILES_ARCHIVE" "\<not> prefix ''.'' DB_ARCHIVE" "\<not> prefix ''.'' FILES_ARCHIVE"
  "\<not> is_package_file DB_ARCHIVE" "\<not> is_package_file FILES_ARCHIVE" "prefix ''.'' (next_of x)"
  "DB_ARCHIVE \<noteq> next_of x" "FILES_ARCHIVE \<noteq> next_of x"
  by (simp_all add: DB_ARCHIVE_def FILES_ARCHIVE_def next_of_def is_package_file_def)

lemma platform_dir_inj [simp]: "platform_dir root pf = platform_dir root pf' \<longleftrightarrow> pf = pf'"
  by (cases pf; cases pf') (simp_all add: platform_dir_def)

lemma write_updated_done:
  assumes "write_updated q p f h = (Done x, i)"
  shows "\<exists>b. f (file_at h q) = Some b \<and> file_at i p = Some b"
  using assms
  by (auto simp: write_updated_def step_def hmap_err_Done hthen_Done hraise_def write_file_def file_at_def
      split: list.splits option.splits node.splits if_splits luck.splits)

lemma touches_stage_databases [touching]:
  "nexts root pf \<subseteq> S \<Longrightarrow> above_platforms root \<subseteq> S \<Longrightarrow> touches S (stage_databases C root c pf)"
  unfolding stage_databases_def Let_def write_updated_databases_def
  by (intro touching) (auto simp: nexts_def above_platforms_def)

lemma stage_databases_done:
  assumes run: "(stage_databases C root c pf :: ('e repo_error, unit) act) h = (Done x, i)"
  shows "rewritten C root c h i pf" "fin_moves (draft i) = fin_moves (draft h) @ platform_moves root pf"
proof -
  let ?dir = "platform_dir root pf"
  let ?push = "push_move :: path \<Rightarrow> path \<Rightarrow> ('e repo_error, unit) act"
  let ?w = "\<lambda>n f. write_updated (?dir @ [n]) (?dir @ [next_of n]) f :: ('e repo_error, unit) act"
  let ?db = "\<lambda>old. updated_db C old (removed_on pf c) (added_on pf c)"
  let ?fs = "\<lambda>old. updated_files C old (removed_on pf c) (added_on pf c)"
  from run obtain h1 h2 h3 h4 h5 h6 where
    r1: "create_dir_all ?dir h = (Done (), h1)"
    and r2: "?push (?dir @ [next_of DB_ARCHIVE]) (?dir @ [DB_ARCHIVE]) h1 = (Done (), h2)"
    and r3: "?push (?dir @ [next_of FILES_ARCHIVE]) (?dir @ [FILES_ARCHIVE]) h2 = (Done (), h3)"
    and r4: "?w DB_ARCHIVE ?db h3 = (Done (), h4)" and r5: "?w FILES_ARCHIVE ?fs h4 = (Done (), h5)"
    and r6: "sync (?dir @ [next_of DB_ARCHIVE]) h5 = (Done (), h6)" and r7: "sync (?dir @ [next_of FILES_ARCHIVE]) h6 = (Done (), i)"
    unfolding stage_databases_def write_updated_databases_def Let_def runs_Done by (metis (full_types) old.unit.exhaust)
  have t1: "touches (above_platforms root) (create_dir_all ?dir)"
    by (rule touching) (auto simp: above_platforms_def)
  note f1 = touchesD [OF t1 r1]
  have f23: "node_at h3 = node_at h1"
    "draft h3 = (draft h1)\<lparr>fin_moves := fin_moves (draft h1) @ platform_moves root pf\<rparr>"
    using r2 r3 by (auto simp: push_move_def hmodify_def platform_moves_def Let_def)
  note f4 = touchesD [OF touches_write_updated r4, OF singletonI]
  note f5 = touchesD [OF touches_write_updated r5, OF singletonI]
  have f67: "node_at i = node_at h5" "draft i = draft h5" using sync_same [OF r6] sync_same [OF r7] by auto
  have arch: "file_at h3 (?dir @ [n]) = file_at h (?dir @ [n])" if "n \<in> {DB_ARCHIVE, FILES_ARCHIVE}" for n
    using f1 f23(1) served_not_private [of n root pf] that by (auto intro!: file_at_cong)
  have a4: "file_at h4 (?dir @ [FILES_ARCHIVE]) = file_at h3 (?dir @ [FILES_ARCHIVE])"
    using f4 by (intro file_at_cong) (metis archive_names(4) list.inject same_append_eq singletonD)
  have d: "is_dir i ?dir"
  proof -
    have "is_dir h1 ?dir" by (rule create_dir_all_dir [OF r1]) (simp add: platform_dir_def)
    then show ?thesis using f23(1) f4 f5 f67(1) by (simp add: is_dir_def)
  qed
  have n4: "file_at i (?dir @ [next_of DB_ARCHIVE]) = file_at h4 (?dir @ [next_of DB_ARCHIVE])"
    using f5 f67(1) by (intro file_at_cong) (metis archive_names(2) list.inject same_append_eq singletonD)
  show "rewritten C root c h i pf"
    using write_updated_done [OF r4] write_updated_done [OF r5] d n4 a4 arch f67(1)
    by (auto simp: rewritten_def Let_def file_at_def)
  show "fin_moves (draft i) = fin_moves (draft h) @ platform_moves root pf"
    using f67(2) drafts_notD [OF drafts_not_write_updated r5] drafts_notD [OF drafts_not_write_updated r4] f23(2)
      drafts_notD [OF touches_create_dir_all(2) r1] by simp
qed

lemma stage_platforms_done:
  assumes "(hfor_each (stage_databases C root c) pfs :: ('e repo_error, unit) act) h = (Done x, i)" "distinct pfs"
  shows "(\<forall>pf \<in> set pfs. rewritten C root c h i pf) \<and>
    fin_moves (draft i) = fin_moves (draft h) @ concat (map (platform_moves root) pfs)"
  using assms
proof (induction pfs arbitrary: h)
  case Nil
  then show ?case by (simp add: hret_def)
next
  case (Cons pf pfs)
  from Cons.prems(1) obtain x1 j where f: "(stage_databases C root c pf :: ('e repo_error, unit) act) h = (Done x1, j)"
    and r: "(hfor_each (stage_databases C root c) pfs :: ('e repo_error, unit) act) j = (Done x, i)"
    by (auto simp: runs_Done)
  note d = stage_databases_done [OF f]
  have IH: "(\<forall>pf \<in> set pfs. rewritten C root c j i pf) \<and>
      fin_moves (draft i) = fin_moves (draft j) @ concat (map (platform_moves root) pfs)"
    using Cons.IH [OF r] Cons.prems(2) by simp
  have "touches (nexts root pf \<union> above_platforms root) (stage_databases C root c pf :: ('e repo_error, unit) act)"
    by (rule touching) auto
  note tf = touchesD [OF this f]
  have "touches ((\<Union>pf \<in> set pfs. nexts root pf) \<union> above_platforms root)
      (hfor_each (stage_databases C root c) pfs :: ('e repo_error, unit) act)"
    by (rule touches_hfor_each, rule touches_stage_databases) auto
  note tr = touchesD [OF this r]
  have arch: "file_at j (platform_dir root p @ [n]) = file_at h (platform_dir root p @ [n])"
    if "n \<in> {DB_ARCHIVE, FILES_ARCHIVE}" for n p
  proof (rule file_at_cong)
    have "platform_dir root p @ [n] \<notin> nexts root pf \<union> above_platforms root"
      using served_not_private [of n root p] that by (auto simp: nexts_def)
    then show "node_at j (platform_dir root p @ [n]) = node_at h (platform_dir root p @ [n])" using tf by blast
  qed
  have "file_at i q = file_at j q" if "q \<in> nexts root pf" for q
  proof (rule file_at_cong)
    have "q \<notin> (\<Union>pf \<in> set pfs. nexts root pf) \<union> above_platforms root"
      using that Cons.prems(2) by (auto simp: nexts_def above_platforms_def platform_dir_def dest!: prefix_length_le)
    then show "node_at i q = node_at j q" using tr by blast
  qed
  moreover have "is_dir j q \<Longrightarrow> is_dir i q" for q using tr by (simp add: is_dir_def)
  ultimately have "rewritten C root c h i pf" using d(1) by (auto simp: rewritten_def Let_def nexts_def)
  moreover have "\<forall>p \<in> set pfs. rewritten C root c h i p" using IH arch by (auto simp: rewritten_def Let_def)
  ultimately show ?case using IH d(2) by simp
qed

definition plan_moves :: "path \<Rightarrow> changes \<Rightarrow> host \<Rightarrow> file_move list" where
  "plan_moves root c h =
     concat (map (\<lambda>a. addition_moves root (signed h a) a) (ch_add c)) @
     concat (map (platform_moves root) (changed_platforms c))"

text \<open>What staging may touch: nothing that is served, and no upload.\<close>

definition workspace :: "path \<Rightarrow> path set" where
  "workspace root = unserved root \<union> above_platforms root"

text \<open>Every source of a plan is a private name.\<close>

definition drafts_privately :: "path \<Rightarrow> ('e, 'a) act \<Rightarrow> bool" where
  "drafts_privately root m \<longleftrightarrow>
     (\<forall>h. mv_source ` set (fin_moves (draft h)) \<subseteq> unserved root \<longrightarrow>
          mv_source ` set (fin_moves (draft (snd (m h)))) \<subseteq> unserved root)"

lemma drafts_not_privately: "drafts_not m \<Longrightarrow> drafts_privately root m"
  by (simp add: drafts_not_def drafts_privately_def)

lemma drafts_privatelyD:
  "drafts_privately root m \<Longrightarrow> m h = (r, i) \<Longrightarrow> mv_source ` set (fin_moves (draft h)) \<subseteq> unserved root \<Longrightarrow>
   mv_source ` set (fin_moves (draft i)) \<subseteq> unserved root"
  unfolding drafts_privately_def by (metis snd_conv)

lemma drafts_privately_push: "a \<in> unserved root \<Longrightarrow> drafts_privately root (push_move a b)"
  by (auto simp: drafts_privately_def push_move_def hmodify_def)

lemma drafts_privately_hbind:
  "drafts_privately root m \<Longrightarrow> (\<And>x. drafts_privately root (f x)) \<Longrightarrow> drafts_privately root (hbind m f)"
  unfolding drafts_privately_def hbind_def by (auto split: prod.splits outcome.splits) (metis snd_conv image_subset_iff)+

lemma drafts_privately_hcatch:
  "drafts_privately root m \<Longrightarrow> (\<And>x. drafts_privately root (f x)) \<Longrightarrow> drafts_privately root (hcatch m f)"
  unfolding drafts_privately_def hcatch_def by (auto split: prod.splits outcome.splits) (metis snd_conv image_subset_iff)+

lemma drafts_privately_hthen:
  "drafts_privately root m \<Longrightarrow> drafts_privately root k \<Longrightarrow> drafts_privately root (hthen m k)"
  unfolding hthen_def by (rule drafts_privately_hbind)

lemma drafts_privately_hmap_err: "drafts_privately root m \<Longrightarrow> drafts_privately root (hmap_err f m)"
  unfolding hmap_err_def by (rule drafts_privately_hcatch) (auto intro: drafts_not_privately touching)

lemma drafts_privately_hfor_each:
  "(\<And>x. x \<in> set xs \<Longrightarrow> drafts_privately root (f x)) \<Longrightarrow> drafts_privately root (hfor_each f xs)"
  by (induction xs) (auto intro: drafts_privately_hthen drafts_not_privately touching)

lemmas privately = drafts_privately_push drafts_privately_hbind drafts_privately_hthen drafts_privately_hmap_err
  drafts_privately_hfor_each

lemma stage_file_privately: "pending src \<in> unserved root \<Longrightarrow> drafts_privately root (stage_file src dst)"
  unfolding stage_file_def Let_def pending_def
  by (auto intro!: privately intro: drafts_not_privately touching drafts_not_privately [OF touches_remove_file(2)]
      drafts_not_privately [OF touches_hret(2)])

lemma stage_addition_privately: "staged_ok root a \<Longrightarrow> drafts_privately root (stage_addition root a)"
  unfolding stage_addition_def Let_def using private_staged [of root a]
  by (intro privately) (auto intro: drafts_not_privately touching stage_file_privately simp: sig_of_def split: if_splits)

lemma stage_databases_privately: "drafts_privately root (stage_databases C root c pf)"
  unfolding stage_databases_def Let_def write_updated_databases_def
  by (auto intro!: privately private_next intro: drafts_not_privately touching)

lemma changed_platforms_distinct [simp]: "distinct (changed_platforms c)"
proof -
  have sp: "sorted (map platform_as_str xs) \<Longrightarrow> distinct (remdups_adj xs)" for xs :: "platform list"
  proof (induction xs rule: remdups_adj.induct)
    case (3 x y xs)
    show ?case
    proof (cases "x = y")
      case True
      then show ?thesis using 3 by simp
    next
      case False
      have "x \<notin> set (y # xs)"
      proof
        assume "x \<in> set (y # xs)"
        then have "platform_as_str y \<le> platform_as_str x" "platform_as_str x \<le> platform_as_str y"
          using 3(3) by auto
        then show False using False by (cases x; cases y) auto
      qed
      then show ?thesis using 3 False by auto
    qed
  qed auto
  show ?thesis unfolding changed_platforms_def by (rule sp) simp
qed

lemma set_changed_platforms: "set (changed_platforms c) = ad_platform ` set (ch_add c) \<union> rt_platform ` set (ch_retire c)"
  by (simp add: changed_platforms_def)

lemma touches_discard:
  assumes "mv_source ` set (fin_moves plan) \<subseteq> S"
  shows "touches S (discard plan)"
proof -
  have "touches S (hcatch (remove_file (mv_source m)) (\<lambda>_. hret ()))" if "m \<in> set (fin_moves plan)" for m
    using that assms by (intro touching) auto
  then show ?thesis unfolding discard_def by (rule touches_hfor_each)
qed

lemma touches_stage_all:
  assumes "changes_ok root c"
  shows "touches (workspace root) (stage_all C root c)" "drafts_privately root (stage_all C root c)"
proof -
  have a: "touches (workspace root) (hmap_err Io (stage_addition root a))" "drafts_privately root (hmap_err Io (stage_addition root a))"
    if "a \<in> set (ch_add c)" for a
    using that assms pendings_unserved [of root a] stage_addition_privately [of root a]
    by (auto simp: changes_ok_def workspace_def intro!: touching drafts_privately_hmap_err)
  have d: "touches (workspace root) (stage_databases C root c pf)" for pf
    by (rule touching) (auto simp: nexts_def workspace_def private_next)
  have r: "touches S (hmodify (\<lambda>h. h\<lparr>draft := (draft h)\<lparr>fin_retired := x\<rparr>\<rparr>))"
    "drafts_privately root (hmodify (\<lambda>h. h\<lparr>draft := (draft h)\<lparr>fin_retired := x\<rparr>\<rparr>))" for S x
    by (auto simp: touches_def drafts_privately_def hmodify_def)
  show "touches (workspace root) (stage_all C root c)"
    unfolding stage_all_def by (intro touches_hthen touches_hfor_each a d r)
  show "drafts_privately root (stage_all C root c)"
    unfolding stage_all_def by (intro drafts_privately_hthen drafts_privately_hfor_each a stage_databases_privately r)
qed

lemma stage_all_done:
  assumes run: "(stage_all C root c :: ('e repo_error, unit) act) h = (Done x, i)" and ok: "changes_ok root c"
    and empty: "fin_moves (draft h) = []"
  shows "\<forall>a \<in> set (ch_add c). prepared h i a" "\<forall>pf \<in> set (changed_platforms c). rewritten C root c h i pf"
    "fin_moves (draft i) = plan_moves root c h" "fin_retired (draft i) = retired_paths root c"
proof -
  let ?A = "hfor_each (\<lambda>a. hmap_err Io (stage_addition root a)) (ch_add c) :: ('e repo_error, unit) act"
  let ?D = "hfor_each (stage_databases C root c) (changed_platforms c) :: ('e repo_error, unit) act"
  from run obtain x1 j x2 k where A: "?A h = (Done x1, j)" and D: "?D j = (Done x2, k)"
    and i: "i = k\<lparr>draft := (draft k)\<lparr>fin_retired := retired_paths root c\<rparr>\<rparr>"
    unfolding stage_all_def runs_Done hmodify_def by blast
  have oks: "\<forall>a \<in> set (ch_add c). staged_ok root a" "distinct (map ad_staged (ch_add c))"
    using ok by (auto simp: changes_ok_def)
  note da = stage_additions_done [OF A oks] and dd = stage_platforms_done [OF D changed_platforms_distinct]
  note ta = touchesD [OF touches_stage_additions [OF oks(1)] A]
  have "touches ((\<Union>pf. nexts root pf) \<union> above_platforms root) ?D"
    by (rule touches_hfor_each, rule touches_stage_databases) auto
  note td = touchesD [OF this D]
  have node: "node_at i = node_at k" "draft i = (draft k)\<lparr>fin_retired := retired_paths root c\<rparr>" using i by simp_all
  have "file_at k q = file_at j q" if "a \<in> set (ch_add c)" "q \<in> pendings a" for a q
  proof (rule file_at_cong)
    have "staged_ok root a" using that(1) oks(1) by blast
    then obtain d n where "ad_staged a = root @ [STAGING_DIR, d, n]" by (rule staged_okE)
    then have "q \<notin> (\<Union>pf. nexts root pf) \<union> above_platforms root"
      using that(2) by (auto simp: pendings_def pending_def sig_of_def nexts_def above_platforms_def platform_dir_def
          dest!: prefix_length_le)
    then show "node_at k q = node_at j q" using td by blast
  qed
  then show "\<forall>a \<in> set (ch_add c). prepared h i a"
    using da node by (auto simp: prepared_def pendings_def file_at_def)
  have "file_at j (platform_dir root pf @ [n]) = file_at h (platform_dir root pf @ [n])" if "n \<in> {DB_ARCHIVE, FILES_ARCHIVE}" for pf n
  proof (rule file_at_cong)
    have "platform_dir root pf @ [n] \<notin> unserved root" using served_not_private [of n root pf] that by auto
    then have "platform_dir root pf @ [n] \<notin> (\<Union>a \<in> set (ch_add c). pendings a)" using oks(1) pendings_unserved by blast
    then show "node_at j (platform_dir root pf @ [n]) = node_at h (platform_dir root pf @ [n])" using ta by blast
  qed
  then show "\<forall>pf \<in> set (changed_platforms c). rewritten C root c h i pf"
    using dd node by (auto simp: rewritten_def Let_def file_at_def is_dir_def)
  show "fin_moves (draft i) = plan_moves root c h" "fin_retired (draft i) = retired_paths root c"
    using da dd node empty by (simp_all add: plan_moves_def)
qed

lemma stage_result:
  assumes run: "(stage C root c :: ('e repo_error, finalization) act) h = (r, i)" and ok: "changes_ok root c"
  shows "srv i = srv h" "plan_slot i = plan_slot h" "retired i = retired h"
    "p \<notin> workspace root \<Longrightarrow> node_at i p = node_at h p" "is_dir h p \<Longrightarrow> is_dir i p"
    "r = Done plan \<Longrightarrow> (\<forall>a \<in> set (ch_add c). prepared h i a) \<and> (\<forall>pf \<in> set (changed_platforms c). rewritten C root c h i pf) \<and>
       fin_moves plan = plan_moves root c h \<and> fin_retired plan = retired_paths root c"
proof -
  let ?g = "h\<lparr>draft := \<lparr>fin_moves = [], fin_retired = []\<rparr>\<rparr>"
  obtain q j where s: "(stage_all C root c :: ('e repo_error, unit) act) ?g = (q, j)" by fastforce
  note ts = touchesD [OF touches_stage_all(1) [OF ok] s]
  have pr: "mv_source ` set (fin_moves (draft j)) \<subseteq> unserved root"
    using drafts_privatelyD [OF touches_stage_all(2) [OF ok] s] by simp
  have cases: "(\<exists>x. q = Done x \<and> r = Done (draft j) \<and> i = j) \<or> (q = Died \<and> r = Died \<and> i = j) \<or>
      (\<exists>e d. q = Raised e \<and> (discard (draft j) :: ('e repo_error, unit) act) j = (d, i) \<and> (\<forall>p. r \<noteq> Done p))"
    using run s by (auto simp: stage_def hthen_def hbind_def hmodify_def hcatch_def hgets_def hraise_def
        split: outcome.splits prod.splits)
  have "srv i = srv h \<and> plan_slot i = plan_slot h \<and> retired i = retired h \<and>
      (p \<notin> workspace root \<longrightarrow> node_at i p = node_at h p) \<and> (is_dir h p \<longrightarrow> is_dir i p)"
    using cases
  proof (elim disjE exE conjE)
    fix e d
    assume "(discard (draft j) :: ('e repo_error, unit) act) j = (d, i)"
    from touchesD [OF touches_discard [OF pr] this] show ?thesis using ts by (auto simp: is_dir_def workspace_def)
  qed (use ts in \<open>auto simp: is_dir_def\<close>)
  then show "srv i = srv h" "plan_slot i = plan_slot h" "retired i = retired h"
    "p \<notin> workspace root \<Longrightarrow> node_at i p = node_at h p" "is_dir h p \<Longrightarrow> is_dir i p" by auto
  assume "r = Done plan"
  with cases have d: "q = Done ()" "plan = draft j" "i = j" by auto
  have same: "prepared ?g j = prepared h j" "rewritten C root c ?g j = rewritten C root c h j" "plan_moves root c ?g = plan_moves root c h"
    by (auto simp: fun_eq_iff prepared_def rewritten_def plan_moves_def signed_def file_at_def exists_at_def Let_def)
  show "(\<forall>a \<in> set (ch_add c). prepared h i a) \<and> (\<forall>pf \<in> set (changed_platforms c). rewritten C root c h i pf) \<and>
       fin_moves plan = plan_moves root c h \<and> fin_retired plan = retired_paths root c"
    using stage_all_done [OF s [unfolded d(1)] ok] d(2,3) same by simp
qed

end
