(* ===== verification/Repo_Commit.thy ===== *)
theory Repo_Commit
  imports Repo_Staging Sample
begin

text \<open>
  An update of the repository is atomic, whatever fails: the databases list only files that
  are there at every moment, and a plan that was recorded is carried out by recovery.
\<close>

section \<open>What a replay leaves at a path\<close>

definition file_in :: "nodes \<Rightarrow> path \<Rightarrow> string option" where
  "file_in N p = (case N p of Some (File b) \<Rightarrow> Some b | _ \<Rightarrow> None)"

lemma file_at_in: "file_at h = file_in (node_at h)"
  by (simp add: fun_eq_iff file_at_def file_in_def)

lemma replay_dirs: "replay ms N p = Some Dir \<longleftrightarrow> N p = Some Dir"
  by (induction ms arbitrary: N) (auto simp: move1_dirs)

lemma replay_untouched:
  "p \<notin> mv_source ` set ms \<Longrightarrow> p \<notin> mv_destination ` set ms \<Longrightarrow> replay ms N p = N p"
  by (induction ms arbitrary: N) (auto simp: move1_def)

lemma replay_present:
  "p \<notin> mv_source ` set ms \<Longrightarrow> file_in N p \<noteq> None \<Longrightarrow> file_in (replay ms N) p \<noteq> None"
proof (induction ms arbitrary: N)
  case (Cons m ms)
  have "file_in (move1 m N) p \<noteq> None"
    using Cons.prems by (auto simp: move1_def can_move_def file_in_def split: option.splits node.splits)
  with Cons show ?case by simp
qed simp

definition one_to_one :: "file_move list \<Rightarrow> bool" where
  "one_to_one ms \<longleftrightarrow>
     (\<forall>m \<in> set ms. \<forall>n \<in> set ms. mv_source m = mv_source n \<or> mv_destination m = mv_destination n \<longrightarrow> m = n)"

lemma replay_stays:
  "\<not> can_move N m \<Longrightarrow> \<forall>n \<in> set ns. mv_source m \<noteq> mv_destination n \<Longrightarrow>
   \<forall>n \<in> set ns. mv_source n \<noteq> p \<and> (mv_destination n = p \<longrightarrow> n = m) \<Longrightarrow> replay ns N p = N p"
proof (induction ns arbitrary: N)
  case (Cons n ns)
  have "\<not> can_move (move1 n N) m" using Cons.prems move1_keeps_done by simp
  moreover have "move1 n N p = N p" using Cons.prems by (auto simp: move1_def)
  ultimately show ?case using Cons by simp
qed simp

lemma replay_brings:
  "apart ms \<Longrightarrow> one_to_one ms \<Longrightarrow> m \<in> set ms \<Longrightarrow> can_move N m \<Longrightarrow> replay ms N (mv_destination m) = N (mv_source m)"
proof (induction ms arbitrary: N)
  case (Cons n ms)
  have ap: "\<forall>k \<in> set (n # ms). \<forall>l \<in> set (n # ms). mv_source k \<noteq> mv_destination l" using Cons.prems(1) by (simp add: apart_def)
  have oo: "\<forall>k \<in> set (n # ms). mv_source k = mv_source m \<or> mv_destination k = mv_destination m \<longrightarrow> k = m"
    using Cons.prems(2,3) unfolding one_to_one_def by blast
  show ?case
  proof (cases "n = m")
    case True
    have "replay ms (move1 m N) (mv_destination m) = move1 m N (mv_destination m)"
    proof (rule replay_stays [of _ m])
      show "\<not> can_move (move1 m N) m" by (rule move1_done) (use ap Cons.prems(3) in blast)
    qed (use ap oo Cons.prems(3) in \<open>auto dest: sym\<close>)
    then show ?thesis using True Cons.prems(4) by (simp add: move1_def)
  next
    case False
    then have m: "m \<in> set ms" using Cons.prems(3) by simp
    have ne: "mv_source n \<noteq> mv_source m" "mv_destination n \<noteq> mv_source m" using oo ap False Cons.prems(3) by fastforce+
    then have src: "move1 n N (mv_source m) = N (mv_source m)" by (simp add: move1_def)
    then have "can_move (move1 n N) m" using Cons.prems(4) move1_dirs [of n N] by (simp add: can_move_def)
    moreover have "apart ms" "one_to_one ms" using Cons.prems(1,2) by (auto simp: apart_def one_to_one_def)
    ultimately show ?thesis using Cons.IH [OF _ _ m] src by simp
  qed
qed simp

section \<open>The moves of a plan\<close>

definition pkg_move :: "path \<Rightarrow> addition \<Rightarrow> file_move" where
  "pkg_move root a = \<lparr>mv_source = pending (ad_staged a),
     mv_destination = platform_dir root (ad_platform a) @ [pe_filename (ad_entry a)]\<rparr>"

definition sig_move :: "path \<Rightarrow> addition \<Rightarrow> file_move" where
  "sig_move root a = \<lparr>mv_source = pending (sig_of (ad_staged a)),
     mv_destination = platform_dir root (ad_platform a) @ [pe_filename (ad_entry a) @ ''.sig'']\<rparr>"

definition db_move :: "path \<Rightarrow> platform \<Rightarrow> file_move" where
  "db_move root pf = \<lparr>mv_source = platform_dir root pf @ [next_of DB_ARCHIVE], mv_destination = platform_dir root pf @ [DB_ARCHIVE]\<rparr>"

definition files_move :: "path \<Rightarrow> platform \<Rightarrow> file_move" where
  "files_move root pf = \<lparr>mv_source = platform_dir root pf @ [next_of FILES_ARCHIVE], mv_destination = platform_dir root pf @ [FILES_ARCHIVE]\<rparr>"

lemmas move_defs = pkg_move_def sig_move_def db_move_def files_move_def

lemma plan_moves_alt:
  "plan_moves root c h =
     concat (map (\<lambda>a. pkg_move root a # (if signed h a then [sig_move root a] else [])) (ch_add c)) @
     concat (map (\<lambda>pf. [db_move root pf, files_move root pf]) (changed_platforms c))"
  by (simp add: plan_moves_def addition_moves_def platform_moves_def [abs_def] move_defs Let_def cong: if_cong)

lemma plan_moves_cases:
  assumes "m \<in> set (plan_moves root c h)"
  obtains a where "a \<in> set (ch_add c)" "m = pkg_move root a"
  | a where "a \<in> set (ch_add c)" "m = sig_move root a" "signed h a"
  | pf where "pf \<in> set (changed_platforms c)" "m = db_move root pf"
  | pf where "pf \<in> set (changed_platforms c)" "m = files_move root pf"
  using assms by (auto simp: plan_moves_alt split: if_splits)

lemma plan_moves_mem:
  "a \<in> set (ch_add c) \<Longrightarrow> pkg_move root a \<in> set (plan_moves root c h)"
  "a \<in> set (ch_add c) \<Longrightarrow> signed h a \<Longrightarrow> sig_move root a \<in> set (plan_moves root c h)"
  "pf \<in> set (changed_platforms c) \<Longrightarrow> db_move root pf \<in> set (plan_moves root c h)"
  "pf \<in> set (changed_platforms c) \<Longrightarrow> files_move root pf \<in> set (plan_moves root c h)"
  by (auto simp: plan_moves_alt)

lemma split_once_sub_None: "split_once_sub p s = None \<longleftrightarrow> \<not> sublist p s"
  by (induction s) (auto simp: sublist_Cons_right)

lemma is_package_file_sig: "is_package_file n \<Longrightarrow> is_package_file (n @ ''.sig'')"
proof -
  assume n: "is_package_file n"
  then have "n \<noteq> []" by (auto simp: is_package_file_def split_once_sub_None)
  moreover obtain ps ss where "n = ps @ ''.pkg.tar.'' @ ss"
    using n by (auto simp: is_package_file_def split_once_sub_None sublist_def)
  then have "sublist ''.pkg.tar.'' (n @ ''.sig'')" by (simp only: append_assoc sublist_appendI)
  ultimately show ?thesis using n unfolding is_package_file_def split_once_sub_None by (cases n) auto
qed

lemma package_not_archive: "is_package_file n \<Longrightarrow> n \<noteq> DB_ARCHIVE \<and> n \<noteq> FILES_ARCHIVE \<and> n \<noteq> next_of x \<and> \<not> prefix ''.'' n"
  using archive_names(7,8,9) unfolding is_package_file_def by blast

lemma plan_destination:
  assumes "m \<in> set (plan_moves root c h)" "changes_ok root c"
  obtains pf n where "mv_destination m = platform_dir root pf @ [n]" "\<not> prefix ''.'' n" "pf \<in> set (changed_platforms c)"
  using assms(1)
proof (cases rule: plan_moves_cases)
  case (1 a)
  then have "publishable (pe_filename (ad_entry a))" using assms(2) by (auto simp: changes_ok_def staged_ok_def)
  then show ?thesis using that 1 by (auto simp: pkg_move_def publishable_def is_package_file_def set_changed_platforms)
next
  case (2 a)
  then have "publishable (pe_filename (ad_entry a))" using assms(2) by (auto simp: changes_ok_def staged_ok_def)
  then have "is_package_file (pe_filename (ad_entry a) @ ''.sig'')" by (simp add: publishable_def is_package_file_sig)
  then show ?thesis using that 2 by (auto simp: sig_move_def is_package_file_def set_changed_platforms)
next
  case (3 pf)
  then show ?thesis using that by (auto simp: db_move_def)
next
  case (4 pf)
  then show ?thesis using that by (auto simp: files_move_def)
qed

lemma plan_source:
  assumes "m \<in> set (plan_moves root c h)" "changes_ok root c"
  shows "mv_source m \<in> unserved root"
  using assms(1)
proof (cases rule: plan_moves_cases)
  case (1 a)
  then show ?thesis using assms(2) private_staged [of root a] by (auto simp: changes_ok_def pkg_move_def)
next
  case (2 a)
  then show ?thesis using assms(2) private_staged [of root a] by (auto simp: changes_ok_def sig_move_def)
qed (auto simp: db_move_def files_move_def private_next)

lemma plan_apart: "changes_ok root c \<Longrightarrow> apart (plan_moves root c h)"
  unfolding apart_def using plan_source plan_destination served_not_private by (metis UnI1)

lemma plan_one_to_one:
  assumes ok: "changes_ok root c"
  shows "one_to_one (plan_moves root c h)"
proof -
  have so: "staged_ok root a" if "a \<in> set (ch_add c)" for a using ok that by (simp add: changes_ok_def)
  have pk: "is_package_file (pe_filename (ad_entry a))" "is_package_file (pe_filename (ad_entry a) @ ''.sig'')"
    "\<not> suffix ''.sig'' (pe_filename (ad_entry a))" if "a \<in> set (ch_add c)" for a
    using so [OF that] is_package_file_sig by (auto simp: staged_ok_def publishable_def)
  have ns: "x @ ''.sig'' \<noteq> pe_filename (ad_entry a)" "pe_filename (ad_entry a) \<noteq> x @ ''.sig''" if "a \<in> set (ch_add c)" for a x
    using pk(3) [OF that] unfolding suffix_def by metis+
  have st: "a = b" if "a \<in> set (ch_add c)" "b \<in> set (ch_add c)" "ad_staged a = ad_staged b" for a b
    using ok that by (auto simp: changes_ok_def distinct_map dest: inj_onD)
  have nm: "a = b" if "a \<in> set (ch_add c)" "b \<in> set (ch_add c)" "ad_platform a = ad_platform b"
    "pe_filename (ad_entry a) = pe_filename (ad_entry b)" for a b
    using ok that by (auto simp: changes_ok_def distinct_map dest: inj_onD)
  have long: "length (pending (ad_staged a)) = length root + 3" "length (pending (sig_of (ad_staged a))) = length root + 3"
    if "a \<in> set (ch_add c)" for a
    using so [OF that] by (auto elim!: staged_okE simp: pending_def sig_of_def)
  have pj: "a = b" if "a \<in> set (ch_add c)" "b \<in> set (ch_add c)" "p \<in> pendings a" "p \<in> pendings b" for a b p
    using pendings_disjoint [OF so so] that st by blast
  have ps: "pending (ad_staged a) \<noteq> pending (sig_of (ad_staged a))" if "a \<in> set (ch_add c)" for a
    using pending_inj [of "ad_staged a" "sig_of (ad_staged a)"] sig_of_neq [of "ad_staged a"] staged_ok_neq_Nil [OF so [OF that]] by auto
  have arch: "n \<noteq> DB_ARCHIVE" "n \<noteq> FILES_ARCHIVE" if "is_package_file n" for n using package_not_archive [OF that] by auto
  have s11: "a = b" if "pending (ad_staged a) = pending (ad_staged b)" "a \<in> set (ch_add c)" "b \<in> set (ch_add c)" for a b
    using pj [of a b "pending (ad_staged a)"] that by (simp add: pendings_def)
  have s22: "a = b" if "pending (sig_of (ad_staged a)) = pending (sig_of (ad_staged b))" "a \<in> set (ch_add c)" "b \<in> set (ch_add c)" for a b
    using pj [of a b "pending (sig_of (ad_staged a))"] that by (simp add: pendings_def)
  have s12: "pending (ad_staged a) \<noteq> pending (sig_of (ad_staged b))" if "a \<in> set (ch_add c)" "b \<in> set (ch_add c)" for a b
    using pj [of a b "pending (ad_staged a)"] ps that by (auto simp: pendings_def)
  have s13: "pending (ad_staged a) \<noteq> platform_dir root pf @ [x]" "pending (sig_of (ad_staged a)) \<noteq> platform_dir root pf @ [x]"
    if "a \<in> set (ch_add c)" for a pf x
    using long [OF that] by (auto simp: platform_dir_def)
  have src: "m = n" if "m \<in> set (plan_moves root c h)" "n \<in> set (plan_moves root c h)" "mv_source m = mv_source n" for m n
    using that(1)
  proof (cases rule: plan_moves_cases)
    case a: (1 a)
    from that(2) show ?thesis
      by (cases rule: plan_moves_cases) (use a that(3) s11 [of a] s12 [of a] s13 [of a] in \<open>auto simp: move_defs\<close>)
  next
    case a: (2 a)
    from that(2) show ?thesis
      by (cases rule: plan_moves_cases) (use a that(3) s22 [of a] s12 [of _ a] s13 [of a] in \<open>auto simp: move_defs dest: sym\<close>)
  next
    case p: (3 pf)
    from that(2) show ?thesis
      by (cases rule: plan_moves_cases) (use p that(3) s13 in \<open>auto simp: move_defs dest: sym\<close>)
  next
    case p: (4 pf)
    from that(2) show ?thesis
      by (cases rule: plan_moves_cases) (use p that(3) s13 in \<open>auto simp: move_defs dest: sym\<close>)
  qed
  have dst: "m = n" if "m \<in> set (plan_moves root c h)" "n \<in> set (plan_moves root c h)" "mv_destination m = mv_destination n" for m n
  proof -
    from that(1) show ?thesis
    proof (cases rule: plan_moves_cases)
      case a: (1 a)
      from that(2) show ?thesis
        by (cases rule: plan_moves_cases) (use a that(3) nm pk(1,2) ns arch in \<open>auto simp: move_defs\<close>)
    next
      case a: (2 a)
      from that(2) show ?thesis
        by (cases rule: plan_moves_cases) (use a that(3) nm pk(1,2) ns arch in \<open>auto simp: move_defs\<close>)
    next
      case p: (3 pf)
      from that(2) show ?thesis
        by (cases rule: plan_moves_cases) (use p that(3) pk arch in \<open>auto simp: move_defs dest: sym\<close>)
    next
      case p: (4 pf)
      from that(2) show ?thesis
        by (cases rule: plan_moves_cases) (use p that(3) pk arch in \<open>auto simp: move_defs dest: sym\<close>)
    qed
  qed
  show ?thesis unfolding one_to_one_def using src dst by blast
qed

section \<open>The repository as its readers see it\<close>

text \<open>What the file server gives out, and what the repository comes to once a pending plan is replayed.\<close>

definition served :: "path \<Rightarrow> nodes \<Rightarrow> platform \<Rightarrow> string \<Rightarrow> string option" where
  "served root N pf n = (if prefix ''.'' n then None else file_in N (platform_dir root pf @ [n]))"

definition settled :: "host \<Rightarrow> nodes" where
  "settled h = (case plan_slot h of None \<Rightarrow> node_at h | Some plan \<Rightarrow> replay (fin_moves plan) (node_at h))"

text \<open>
  Every database is readable and lists only package files that are there; nothing served in a
  platform's directory is a directory.
\<close>

definition consistent :: "codec \<Rightarrow> path \<Rightarrow> nodes \<Rightarrow> bool" where
  "consistent C root N \<longleftrightarrow>
     (\<forall>pf. let dir = platform_dir root pf; db_bytes = file_in N (dir @ [DB_ARCHIVE]) in
        conforming_db C db_bytes \<and>
        (\<forall>f \<in> listing C db_bytes. listable f \<and> file_in N (dir @ [f]) \<noteq> None) \<and>
        (\<forall>n. \<not> prefix ''.'' n \<longrightarrow> N (dir @ [n]) \<noteq> Some Dir))"

text \<open>So it is now, and after each further move of a pending plan.\<close>

definition sound :: "codec \<Rightarrow> path \<Rightarrow> host \<Rightarrow> bool" where
  "sound C root h \<longleftrightarrow>
     consistent C root (node_at h) \<and>
     (case plan_slot h of
        None \<Rightarrow> True
      | Some plan \<Rightarrow>
          apart (fin_moves plan) \<and> (\<forall>k. consistent C root (replay (take k (fin_moves plan)) (node_at h))))"

text \<open>What an update makes of the repository.\<close>

definition served_after :: "codec \<Rightarrow> path \<Rightarrow> changes \<Rightarrow> host \<Rightarrow> platform \<Rightarrow> string \<Rightarrow> string option" where
  "served_after C root c h pf n =
     (let dir = platform_dir root pf in
      if n = DB_ARCHIVE \<and> pf \<in> set (changed_platforms c) then
        updated_db C (file_at h (dir @ [DB_ARCHIVE])) (removed_on pf c) (added_on pf c)
      else if n = FILES_ARCHIVE \<and> pf \<in> set (changed_platforms c) then
        updated_files C (file_at h (dir @ [FILES_ARCHIVE])) (removed_on pf c) (added_on pf c)
      else (case find (\<lambda>a. ad_platform a = pf \<and> pe_filename (ad_entry a) = n) (ch_add c) of
              Some a \<Rightarrow> file_at h (ad_staged a)
            | None \<Rightarrow>
                (case find (\<lambda>a. ad_platform a = pf \<and> pe_filename (ad_entry a) @ ''.sig'' = n \<and> signed h a) (ch_add c) of
                   Some a \<Rightarrow> file_at h (sig_of (ad_staged a))
                 | None \<Rightarrow> served root (node_at h) pf n)))"

lemma consistent_cong:
  assumes "\<And>pf n. \<not> prefix ''.'' n \<Longrightarrow> N (platform_dir root pf @ [n]) = M (platform_dir root pf @ [n])" "consistent C root M"
  shows "consistent C root N"
proof -
  have f: "file_in N (platform_dir root pf @ [n]) = file_in M (platform_dir root pf @ [n])" if "\<not> prefix ''.'' n" for pf n
    using assms(1) [OF that] by (simp add: file_in_def)
  have d: "file_in N (platform_dir root pf @ [DB_ARCHIVE]) = file_in M (platform_dir root pf @ [DB_ARCHIVE])" for pf
    by (rule f) simp
  show ?thesis using assms f package_not_archive unfolding consistent_def Let_def d listable_def by metis
qed

lemma consistentD:
  assumes "consistent C root N"
  shows "conforming_db C (file_in N (platform_dir root pf @ [DB_ARCHIVE]))"
    "f \<in> listing C (file_in N (platform_dir root pf @ [DB_ARCHIVE])) \<Longrightarrow> listable f \<and> file_in N (platform_dir root pf @ [f]) \<noteq> None"
    "\<not> prefix ''.'' n \<Longrightarrow> N (platform_dir root pf @ [n]) \<noteq> Some Dir"
  using assms by (auto simp: consistent_def Let_def)

text \<open>How the server stands once a plan is staged.\<close>

definition staged_plan :: "codec \<Rightarrow> path \<Rightarrow> changes \<Rightarrow> host \<Rightarrow> finalization \<Rightarrow> host \<Rightarrow> bool" where
  "staged_plan C root c h plan i \<longleftrightarrow>
     (\<forall>p. p \<notin> workspace root \<longrightarrow> node_at i p = node_at h p) \<and> (\<forall>p. is_dir h p \<longrightarrow> is_dir i p) \<and>
     (\<forall>a \<in> set (ch_add c). prepared h i a) \<and> (\<forall>pf \<in> set (changed_platforms c). rewritten C root c h i pf) \<and>
     fin_moves plan = plan_moves root c h"

lemma served_workspace: "\<not> prefix ''.'' n \<Longrightarrow> platform_dir root pf @ [n] \<notin> workspace root"
  using served_not_private by (simp add: workspace_def)

lemma staged_can_move:
  assumes ok: "changes_ok root c" and cons: "consistent C root (node_at h)" and st: "staged_plan C root c h plan i"
    and m: "m \<in> set (plan_moves root c h)"
  shows "can_move (node_at i) m"
proof -
  obtain pf n where d: "mv_destination m = platform_dir root pf @ [n]" "\<not> prefix ''.'' n" "pf \<in> set (changed_platforms c)"
    using plan_destination [OF m ok] .
  have "node_at i (mv_destination m) = node_at h (mv_destination m)"
    using st served_workspace [OF d(2)] d(1) by (simp add: staged_plan_def)
  then have "node_at i (mv_destination m) \<noteq> Some Dir" using consistentD(3) [OF cons d(2)] d(1) by simp
  moreover have "node_at i (butlast (mv_destination m)) = Some Dir"
    using st d by (auto simp: staged_plan_def rewritten_def Let_def is_dir_def)
  moreover have "file_at i (mv_source m) \<noteq> None"
    using m
  proof (cases rule: plan_moves_cases)
    case (1 a)
    then show ?thesis using st by (auto simp: staged_plan_def prepared_def pkg_move_def)
  next
    case (2 a)
    then show ?thesis using st by (auto simp: staged_plan_def prepared_def sig_move_def)
  next
    case (3 p)
    then show ?thesis using st by (auto simp: staged_plan_def rewritten_def Let_def db_move_def)
  next
    case (4 p)
    then show ?thesis using st by (auto simp: staged_plan_def rewritten_def Let_def files_move_def)
  qed
  ultimately show ?thesis by (auto simp: can_move_def file_at_def split: option.splits node.splits)
qed

lemma one_to_one_take: "one_to_one ms \<Longrightarrow> one_to_one (take k ms)"
  unfolding one_to_one_def by (meson in_set_takeD)

text \<open>The packages come first: where a new database is in place, so are its files.\<close>

lemma packages_before_databases:
  assumes ok: "changes_ok root c" and db: "db_move root pf \<in> set (take k (plan_moves root c h))" and a: "a \<in> set (ch_add c)"
  shows "pkg_move root a \<in> set (take k (plan_moves root c h))"
proof -
  let ?A = "concat (map (\<lambda>a. pkg_move root a # (if signed h a then [sig_move root a] else [])) (ch_add c))"
  let ?D = "concat (map (\<lambda>pf. [db_move root pf, files_move root pf]) (changed_platforms c))"
  have "db_move root pf \<notin> set ?A"
  proof
    assume "db_move root pf \<in> set ?A"
    then obtain b where "b \<in> set (ch_add c)" "db_move root pf = pkg_move root b \<or> db_move root pf = sig_move root b"
      by (auto split: if_splits)
    moreover from this(1) have "is_package_file (pe_filename (ad_entry b))" "is_package_file (pe_filename (ad_entry b) @ ''.sig'')"
      using ok is_package_file_sig by (auto simp: changes_ok_def staged_ok_def publishable_def)
    ultimately show False using package_not_archive by (auto simp: move_defs)
  qed
  then have "db_move root pf \<in> set (take (k - length ?A) ?D)" 
    using db in_set_takeD [of "db_move root pf" k ?A] unfolding plan_moves_alt take_append set_append by blast
  then have "k > length ?A" by (cases "k - length ?A") auto
  then have "take k (plan_moves root c h) = ?A @ take (k - length ?A) ?D" unfolding plan_moves_alt take_append by simp
  then show ?thesis using a by auto
qed

lemma staged_replay_consistent:
  assumes laws: "codec_laws C" and ok: "changes_ok root c" and cons: "consistent C root (node_at h)"
    and st: "staged_plan C root c h plan i"
  shows "consistent C root (replay (take k (plan_moves root c h)) (node_at i))" (is "consistent C root (replay ?ms ?N)")
proof -
  have Ni: "?N p = node_at h p" if "p \<notin> workspace root" for p using st that by (simp add: staged_plan_def)
  have ci: "consistent C root ?N" by (rule consistent_cong [OF _ cons]) (simp add: Ni served_workspace)
  have oo: "apart ?ms" "one_to_one ?ms" using apart_take [OF plan_apart [OF ok]] one_to_one_take [OF plan_one_to_one [OF ok]] by auto
  have can: "m \<in> set ?ms \<Longrightarrow> can_move ?N m" for m using staged_can_move [OF ok cons st] by (meson in_set_takeD)
  have srcs: "mv_source ` set ?ms \<subseteq> unserved root" using plan_source [OF _ ok] by (auto dest: in_set_takeD)
  have present: "file_in (replay ?ms ?N) (platform_dir root pf @ [f]) \<noteq> None"
    if "is_package_file f" "file_in ?N (platform_dir root pf @ [f]) \<noteq> None" for pf f
  proof (rule replay_present [OF _ that(2)])
    show "platform_dir root pf @ [f] \<notin> mv_source ` set ?ms"
      using srcs served_not_private [of f root pf] package_not_archive [OF that(1)] by blast
  qed
  have old_db: "file_at h (platform_dir root pf @ [DB_ARCHIVE]) = file_in ?N (platform_dir root pf @ [DB_ARCHIVE])" for pf
    unfolding file_at_in file_in_def using Ni served_workspace by simp
  have "conforming_db C (file_in (replay ?ms ?N) (platform_dir root pf @ [DB_ARCHIVE])) \<and>
      (\<forall>f \<in> listing C (file_in (replay ?ms ?N) (platform_dir root pf @ [DB_ARCHIVE])).
         listable f \<and> file_in (replay ?ms ?N) (platform_dir root pf @ [f]) \<noteq> None)" for pf
  proof (cases "db_move root pf \<in> set ?ms")
    case False
    have "replay ?ms ?N (platform_dir root pf @ [DB_ARCHIVE]) = ?N (platform_dir root pf @ [DB_ARCHIVE])"
    proof (rule replay_untouched)
      show "platform_dir root pf @ [DB_ARCHIVE] \<notin> mv_source ` set ?ms"
        using srcs served_not_private [of DB_ARCHIVE root pf] by auto
      show "platform_dir root pf @ [DB_ARCHIVE] \<notin> mv_destination ` set ?ms"
      proof
        assume "platform_dir root pf @ [DB_ARCHIVE] \<in> mv_destination ` set ?ms"
        then obtain m where m: "m \<in> set ?ms" "mv_destination m = platform_dir root pf @ [DB_ARCHIVE]" by auto
        then have "m \<in> set (plan_moves root c h)" by (meson in_set_takeD)
        then have "m = db_move root pf"
        proof (cases rule: plan_moves_cases)
          case (1 a)
          then have "is_package_file (pe_filename (ad_entry a))" using ok by (auto simp: changes_ok_def staged_ok_def publishable_def)
          then show ?thesis using 1 m(2) package_not_archive by (auto simp: move_defs)
        next
          case (2 a)
          then have "is_package_file (pe_filename (ad_entry a) @ ''.sig'')"
            using ok is_package_file_sig by (auto simp: changes_ok_def staged_ok_def publishable_def)
          then show ?thesis using 2 m(2) package_not_archive by (auto simp: move_defs)
        qed (use m(2) in \<open>auto simp: move_defs\<close>)
        with False m(1) show False by simp
      qed
    qed
    then have same: "file_in (replay ?ms ?N) (platform_dir root pf @ [DB_ARCHIVE]) = file_in ?N (platform_dir root pf @ [DB_ARCHIVE])"
      by (simp add: file_in_def)
    show ?thesis unfolding same using consistentD(1,2) [OF ci] present unfolding listable_def by blast
  next
    case True
    then have pf: "pf \<in> set (changed_platforms c)"
    proof -
      have "db_move root pf \<in> set (plan_moves root c h)" using True by (meson in_set_takeD)
      then obtain qf n where "mv_destination (db_move root pf) = platform_dir root qf @ [n]" "qf \<in> set (changed_platforms c)"
        using plan_destination [OF _ ok] by metis
      then show ?thesis by (simp add: db_move_def)
    qed
    obtain b where b: "updated_db C (file_at h (platform_dir root pf @ [DB_ARCHIVE])) (removed_on pf c) (added_on pf c) = Some b"
      "file_at i (platform_dir root pf @ [next_of DB_ARCHIVE]) = Some b"
      using st pf by (auto simp: staged_plan_def rewritten_def Let_def)
    have "replay ?ms ?N (platform_dir root pf @ [DB_ARCHIVE]) = ?N (platform_dir root pf @ [next_of DB_ARCHIVE])"
      using replay_brings [OF oo True can [OF True]] by (simp add: db_move_def)
    then have new: "file_in (replay ?ms ?N) (platform_dir root pf @ [DB_ARCHIVE]) = Some b"
      using b(2) by (simp add: file_at_in file_in_def)
    have add: "\<forall>e \<in> set (added_on pf c). conforming_entry e" using ok by (auto simp: added_on_def changes_ok_def staged_ok_def)
    have rem: "\<forall>f \<in> set (removed_on pf c). simple_name (entry_dir_for_filename f)" using ok by (auto simp: removed_on_def changes_ok_def)
    note upd = database_updated [OF laws consistentD(1) [OF ci] add rem b(1) [unfolded old_db]]
    have "listable f \<and> file_in (replay ?ms ?N) (platform_dir root pf @ [f]) \<noteq> None" if "f \<in> listing C (Some b)" for f
    proof -
      from that upd(2) consider "f \<in> listing C (file_in ?N (platform_dir root pf @ [DB_ARCHIVE]))" | "f \<in> set (map pe_filename (added_on pf c))"
        by (auto simp: updated_listing_def)
      then show ?thesis
      proof cases
        case 1
        then show ?thesis using consistentD(2) [OF ci] present unfolding listable_def by blast
      next
        case 2
        then obtain a where a: "a \<in> set (ch_add c)" "ad_platform a = pf" "f = pe_filename (ad_entry a)" by (auto simp: added_on_def)
        have mem: "pkg_move root a \<in> set ?ms" by (rule packages_before_databases [OF ok True a(1)])
        have "replay ?ms ?N (platform_dir root pf @ [f]) = ?N (pending (ad_staged a))"
          using replay_brings [OF oo mem can [OF mem]] a by (simp add: pkg_move_def)
        moreover have "file_at i (pending (ad_staged a)) \<noteq> None" using st a(1) by (auto simp: staged_plan_def prepared_def)
        moreover have "listable f" using ok a by (auto simp: changes_ok_def staged_ok_def publishable_def listable_def)
        ultimately show ?thesis by (simp add: file_at_in file_in_def)
      qed
    qed
    with upd(1) show ?thesis unfolding new by blast
  qed
  moreover have "\<not> prefix ''.'' n \<Longrightarrow> replay ?ms ?N (platform_dir root pf @ [n]) \<noteq> Some Dir" for pf n
    using replay_dirs consistentD(3) [OF ci] by blast
  ultimately show ?thesis unfolding consistent_def Let_def by blast
qed

lemma find_add:
  assumes "distinct (map (\<lambda>a. (ad_platform a, pe_filename (ad_entry a))) as)" "a \<in> set as"
  shows "find (\<lambda>b. ad_platform b = ad_platform a \<and> pe_filename (ad_entry b) = pe_filename (ad_entry a)) as = Some a"
  using assms by (induction as) (auto simp: image_iff)

lemma find_sig:
  assumes "distinct (map (\<lambda>a. (ad_platform a, pe_filename (ad_entry a))) as)" "a \<in> set as" "P a"
  shows "find (\<lambda>b. ad_platform b = ad_platform a \<and> pe_filename (ad_entry b) @ s = pe_filename (ad_entry a) @ s \<and> P b) as = Some a"
  using assms by (induction as) (auto simp: image_iff)

lemma served_replay:
  assumes ok: "changes_ok root c" and cons: "consistent C root (node_at h)" and st: "staged_plan C root c h plan i"
  shows "served root (replay (plan_moves root c h) (node_at i)) pf n = (if prefix ''.'' n then None else served_after C root c h pf n)"
proof (cases "prefix ''.'' n")
  case True
  then show ?thesis by (simp add: served_def)
next
  case nd: False
  let ?ms = "plan_moves root c h" and ?N = "node_at i" and ?p = "platform_dir root pf @ [n]"
  have brings: "m \<in> set ?ms \<Longrightarrow> file_in (replay ?ms ?N) (mv_destination m) = file_at i (mv_source m)" for m
    using replay_brings [OF plan_apart [OF ok] plan_one_to_one [OF ok] _ staged_can_move [OF ok cons st]]
    by (simp add: file_in_def file_at_def)
  have pk: "is_package_file (pe_filename (ad_entry a))" "is_package_file (pe_filename (ad_entry a) @ ''.sig'')"
    "\<not> suffix ''.sig'' (pe_filename (ad_entry a))" if "a \<in> set (ch_add c)" for a
    using ok that is_package_file_sig by (auto simp: changes_ok_def staged_ok_def publishable_def)
  have arch: "f \<noteq> DB_ARCHIVE \<and> f \<noteq> FILES_ARCHIVE" if "is_package_file f" for f using package_not_archive [OF that] by simp
  have dis: "distinct (map (\<lambda>a. (ad_platform a, pe_filename (ad_entry a))) (ch_add c))" using ok by (simp add: changes_ok_def)
  have main: "file_in (replay ?ms ?N) ?p = served_after C root c h pf n"
  proof (cases "\<exists>m \<in> set ?ms. mv_destination m = ?p")
    case True
    then obtain m where m: "m \<in> set ?ms" "mv_destination m = ?p" by blast
    from m(1) show ?thesis
    proof (cases rule: plan_moves_cases)
      case (1 a)
      with m(2) have "pf = ad_platform a" "n = pe_filename (ad_entry a)" by (auto simp: pkg_move_def)
      then show ?thesis using brings [OF m(1)] m(2) 1 st find_add [OF dis 1(1)] arch [OF pk(1) [OF 1(1)]]
        by (auto simp: served_after_def Let_def pkg_move_def staged_plan_def prepared_def)
    next
      case (2 a)
      with m(2) have e: "pf = ad_platform a" "n = pe_filename (ad_entry a) @ ''.sig''" by (auto simp: sig_move_def)
      have "find (\<lambda>b. ad_platform b = pf \<and> pe_filename (ad_entry b) = n) (ch_add c) = None"
        unfolding find_None_iff e using pk(3) by (metis suffix_conv)
      then show ?thesis using brings [OF m(1)] m(2) 2 st find_sig [OF dis 2(1), of "signed h" "''.sig''"] arch [OF pk(2) [OF 2(1)]] e
        by (auto simp: served_after_def Let_def sig_move_def staged_plan_def prepared_def)
    next
      case (3 q)
      with m(2) have "pf = q" "n = DB_ARCHIVE" by (auto simp: db_move_def)
      then show ?thesis using brings [OF m(1)] m(2) 3 st
        by (auto simp: served_after_def Let_def db_move_def staged_plan_def rewritten_def)
    next
      case (4 q)
      with m(2) have "pf = q" "n = FILES_ARCHIVE" by (auto simp: files_move_def)
      then show ?thesis using brings [OF m(1)] m(2) 4 st archive_names(1)
        by (auto simp: served_after_def Let_def files_move_def staged_plan_def rewritten_def)
    qed
  next
    case False
    have "replay ?ms ?N ?p = ?N ?p"
    proof (rule replay_untouched)
      show "?p \<notin> mv_source ` set ?ms" using plan_source [OF _ ok, of _ h] served_not_private [OF nd, of root pf] by auto
      show "?p \<notin> mv_destination ` set ?ms" using False by force
    qed
    moreover have "?N ?p = node_at h ?p" using st served_workspace [OF nd] by (simp add: staged_plan_def)
    ultimately have "file_in (replay ?ms ?N) ?p = served root (node_at h) pf n" using nd by (simp add: file_in_def served_def)
    moreover have "\<not> (n = DB_ARCHIVE \<and> pf \<in> set (changed_platforms c))" "\<not> (n = FILES_ARCHIVE \<and> pf \<in> set (changed_platforms c))"
      using False plan_moves_mem(3,4) [of pf c root h] by (force simp: move_defs)+
    moreover have "find (\<lambda>b. ad_platform b = pf \<and> pe_filename (ad_entry b) = n) (ch_add c) = None"
      using False plan_moves_mem(1) [of _ c root h] unfolding find_None_iff by (force simp: pkg_move_def)
    moreover have "find (\<lambda>a. ad_platform a = pf \<and> pe_filename (ad_entry a) @ ''.sig'' = n \<and> signed h a) (ch_add c) = None"
      using False plan_moves_mem(2) [of _ c h root] unfolding find_None_iff by (force simp: sig_move_def)
    ultimately show ?thesis by (auto simp: served_after_def Let_def)
  qed
  then show ?thesis using nd by (simp add: served_def)
qed

section \<open>Committing\<close>

text \<open>What the caller's transaction made of the tables, on a server that holds the same ones.\<close>

definition caller_done :: "('e, 'a) prog \<Rightarrow> tables \<Rightarrow> 'a \<Rightarrow> tables \<Rightarrow> bool" where
  "caller_done body d x d' \<longleftrightarrow> (\<exists>s s'. db s = d \<and> body s = (Inr x, s') \<and> db s' = d')"

text \<open>An attempt that leaves the tables and the plan row as they were, and one that is committed.\<close>

definition untried :: "host \<Rightarrow> host \<Rightarrow> bool" where
  "untried h i \<longleftrightarrow> db (srv i) = db (srv h) \<and> plan_slot i = plan_slot h \<and> retired i = retired h \<and> node_at i = node_at h"

definition decided :: "finalization \<Rightarrow> ('e, 'a) prog \<Rightarrow> host \<Rightarrow> 'a \<Rightarrow> host \<Rightarrow> bool" where
  "decided plan body h x i \<longleftrightarrow>
     caller_done body (db (srv h)) x (db (srv i)) \<and> plan_slot i = Some plan \<and> retired i = retired h \<and> node_at i = node_at h"

lemma caller_doneI: "body (srv h) = (Inr x, s) \<Longrightarrow> caller_done body (db (srv h)) x (db s)"
  by (auto simp: caller_done_def)

lemma commit_once_result:
  assumes "commit_once plan body h = (r, i)" "plan_slot h = None"
  shows "(\<exists>x. decided plan body h x i \<and> (r = Done x \<or> r = Died \<or> (\<exists>e. r = Raised e \<and> is_pending e))) \<or>
    (untried h i \<and> (\<forall>x. r \<noteq> Done x))"
proof (cases "body (srv h)")
  case (Pair res s)
  show ?thesis
  proof (cases res)
    case (Inl e)
    with assms Pair show ?thesis
      by (auto simp: commit_once_def step_def untried_def split: list.splits if_splits)
  next
    case (Inr x)
    with Pair have "caller_done body (db (srv h)) x (db s)" by (simp add: caller_doneI)
    with assms Pair Inr show ?thesis
      by (auto simp: commit_once_def step_def hthen_def hbind_def commit_txn_def plan_read_def hattempt_def hcatch_def hret_def
          hraise_def Let_def decided_def untried_def split: list.splits if_splits)
  qed
qed

lemma commit_loop_result:
  "commit_loop plan body att h = (r, i) \<Longrightarrow> plan_slot h = None \<Longrightarrow>
   (\<exists>x. decided plan body h x i \<and> (r = Done x \<or> r = Died \<or> (\<exists>e. r = Raised e \<and> is_pending e))) \<or>
   (\<exists>j d. untried h j \<and> (i = j \<or> (discard plan :: ('e repo_error, unit) act) j = (d, i)) \<and> (\<forall>x. r \<noteq> Done x))"
  for body :: "('e, 'a) prog"
proof (induction plan body att h rule: commit_loop.induct)
  case (1 plan body att h)
  obtain q j where o: "commit_once plan body h = (q, j)" by fastforce
  note res = commit_once_result [OF o 1(3)]
  show ?case
  proof (cases q)
    case (Raised e)
    consider "is_pending e" | "\<not> is_pending e" "att < COMMIT_ATTEMPTS" | "\<not> is_pending e" "\<not> att < COMMIT_ATTEMPTS" by blast
    then show ?thesis
    proof cases
      case 1
      then have "r = Raised e" "i = j" using \<open>commit_loop plan body att h = (r, i)\<close> o Raised by (auto simp: commit_loop.simps [of plan body att h])
      with res Raised 1 show ?thesis by auto
    next
      case 2
      let ?k = "snd (hemit (RepoCommitRetried att) j :: (unit, unit) outcome \<times> host)"
      have u: "untried h j" using res Raised 2(1) by auto
      have k: "untried h ?k" using u by (simp add: untried_def hemit_def hmodify_def emit_def perform_def)
      have l: "commit_loop plan body (att + 1) ?k = (r, i)"
        using \<open>commit_loop plan body att h = (r, i)\<close> o Raised 2 by (simp add: commit_loop.simps [of plan body att h])
      have "plan_slot ?k = None" using k 1(3) by (simp add: untried_def)
      from 1(1) [OF o [symmetric] Raised 2 l this] show ?thesis
        using k by (auto simp: decided_def untried_def)
    next
      case 3
      obtain d k where dk: "(discard plan :: ('e repo_error, unit) act) j = (d, k)" by fastforce
      have u: "untried h j" using res Raised 3(1) by auto
      have "i = k" "\<forall>x. r \<noteq> Done x" using \<open>commit_loop plan body att h = (r, i)\<close> o Raised 3 dk
        by (auto simp: commit_loop.simps [of plan body att h] hthen_def hbind_def hraise_def split: outcome.splits)
      with u dk show ?thesis by blast
    qed
  next
    case (Done x)
    then have "r = Done x" "i = j" using 1(2) o by (auto simp: commit_loop.simps [of plan body att h])
    with res Done show ?thesis by auto
  next
    case Died
    then have "r = Died" "i = j" using 1(2) o by (auto simp: commit_loop.simps [of plan body att h])
    with res Died show ?thesis by auto
  qed
qed

definition visible :: "path \<Rightarrow> host \<Rightarrow> platform \<Rightarrow> string \<Rightarrow> string option" where
  "visible root h = served root (settled h)"

lemma settled_replayed:
  assumes "plan_slot h = Some plan" "plan_slot i = Some plan" "apart (fin_moves plan)"
    "node_at i = replay (take k (fin_moves plan)) (node_at h)"
  shows "settled i = settled h"
  using assms replay_full by (simp add: settled_def)

lemma sound_replayed:
  assumes s: "sound C root h" and h: "plan_slot h = Some plan"
    and n: "node_at i = replay (take k (fin_moves plan)) (node_at h)" and i: "plan_slot i \<in> {None, Some plan}"
  shows "sound C root i"
proof -
  have a: "apart (fin_moves plan)" "\<And>k. consistent C root (replay (take k (fin_moves plan)) (node_at h))"
    using s h by (auto simp: sound_def)
  have "consistent C root (replay (take j (fin_moves plan)) (node_at i))" for j
    using a(2) unfolding n replay_resume [OF a(1)] by blast
  then show ?thesis using a i n by (auto simp: sound_def)
qed

text \<open>Finalizing, however far it gets, changes nothing a reader can tell apart from the plan being done.\<close>

lemma finalize_invisible:
  assumes run: "finalize plan h = (r, i)" and s: "sound C root h" and h: "plan_slot h = Some plan"
  shows "sound C root i" "settled i = settled h" "db (srv i) = db (srv h)" "r = Done () \<longleftrightarrow> plan_slot i = None"
    "plan_slot i \<in> {None, Some plan}"
proof -
  have a: "apart (fin_moves plan)" using s h by (simp add: sound_def)
  show "db (srv i) = db (srv h)" by (rule finalize_result(1) [OF run])
  consider k where "plan_slot i = Some plan" "node_at i = replay (take k (fin_moves plan)) (node_at h)" "r \<noteq> Done ()"
    | "plan_slot i = None" "node_at i = replay (fin_moves plan) (node_at h)" "r = Done ()"
    using finalize_result(3) [OF run] h by auto
  then have "sound C root i \<and> settled i = settled h \<and> (r = Done () \<longleftrightarrow> plan_slot i = None) \<and> plan_slot i \<in> {None, Some plan}"
  proof cases
    case 1
    then show ?thesis using sound_replayed [OF s h 1(2)] settled_replayed [OF h 1(1) a 1(2)] by simp
  next
    case 2
    then show ?thesis using sound_replayed [OF s h, of i "length (fin_moves plan)"] h by (simp add: settled_def)
  qed
  then show "sound C root i" "settled i = settled h" "r = Done () \<longleftrightarrow> plan_slot i = None" "plan_slot i \<in> {None, Some plan}" by auto
qed

lemma recover_invisible:
  assumes run: "(recover :: ('e repo_error, unit) act) h = (r, i)" and s: "sound C root h"
  shows "sound C root i" "settled i = settled h" "db (srv i) = db (srv h)" "r = Done () \<Longrightarrow> plan_slot i = None"
proof -
  have "sound C root i \<and> settled i = settled h \<and> db (srv i) = db (srv h) \<and> (r = Done () \<longrightarrow> plan_slot i = None)"
  proof (cases "script h")
    case Nil
    then show ?thesis using run s by (auto simp: recover_def hbind_def plan_read_def step_def)
  next
    case (Cons l ls)
    let ?h = "h\<lparr>script := ls\<rparr>"
    have sh: "sound C root ?h" "settled ?h = settled h" using s by (auto simp: sound_def settled_def cong: option.case_cong)
    show ?thesis
    proof (cases "l = Fine \<and> plan_slot h \<noteq> None")
      case False
      then show ?thesis using run sh s Cons
        by (auto simp: recover_def hbind_def plan_read_def step_def hret_def split: if_splits)
    next
      case True
      then obtain plan where p: "plan_slot ?h = Some plan" by auto
      obtain q j where f: "(finalize plan :: ('e repo_error, unit) act) ?h = (q, j)" by fastforce
      have "i = j" "r = Done () \<longleftrightarrow> q = Done ()" using run f True p Cons
        by (auto simp: recover_def hbind_def plan_read_def step_def hmap_err_def hcatch_def hraise_def split: outcome.splits)
      with finalize_invisible [OF f sh(1) p] sh(2) show ?thesis by auto
    qed
  qed
  then show "sound C root i" "settled i = settled h" "db (srv i) = db (srv h)" "r = Done () \<Longrightarrow> plan_slot i = None" by auto
qed

lemma update_commit_cases:
  fixes body :: "('e, 'a) prog"
  assumes run: "update_commit C root u body h = (r, i)" and ok: "changes_ok root (up_changes u)"
  obtains (unstaged) q where "(stage C root (up_changes u) :: ('e repo_error, finalization) act) h = (q, i)" "\<forall>x. r \<noteq> Done x" "\<forall>p. q \<noteq> Done p"
  | (loop) plan j where "(stage C root (up_changes u) :: ('e repo_error, finalization) act) h = (Done plan, j)"
      "commit_loop plan body 1 j = (r, i)" "\<forall>x. r \<noteq> Done x"
  | (final) plan j x k q where "(stage C root (up_changes u) :: ('e repo_error, finalization) act) h = (Done plan, j)"
      "commit_loop plan body 1 j = (Done x, k)" "(finalize plan :: ('e repo_error, unit) act) k = (q, i)"
      "(q = Done () \<and> r = Done x) \<or> (q \<noteq> Done () \<and> (r = Died \<or> (\<exists>e. r = Raised (FinalizationPending e))))"
proof -
  have "find (\<lambda>a. \<not> prefix root (ad_staged a)) (ch_add (up_changes u)) = None"
    using ok by (auto simp: find_None_iff changes_ok_def staged_ok_def prefix_def)
  with run have run': "hbind (stage C root (up_changes u)) (\<lambda>plan. hbind (commit_loop plan body 1) (\<lambda>x.
      hthen (hmap_err FinalizationPending (finalize plan)) (hret x))) h = (r, i)"
    by (simp add: update_commit_def Let_def)
  obtain q1 j where s: "(stage C root (up_changes u) :: ('e repo_error, finalization) act) h = (q1, j)" by fastforce
  show ?thesis
  proof (cases q1)
    case (Done plan)
    obtain q2 k where l: "commit_loop plan body 1 j = (q2, k)" by fastforce
    show ?thesis
    proof (cases q2)
      case d: (Done x)
      obtain q3 m where f: "(finalize plan :: ('e repo_error, unit) act) k = (q3, m)" by fastforce
      show ?thesis using run' s Done l d f
        by (intro final [of plan j x k q3])
           (auto simp: hbind_def hthen_def hmap_err_def hcatch_def hraise_def hret_def split: outcome.splits)
    qed (use run' s Done l in \<open>auto simp: hbind_def intro: loop\<close>)
  qed (use run' s in \<open>auto simp: hbind_def intro: unstaged\<close>)
qed

lemma staged_planI:
  assumes "(stage C root c :: ('e repo_error, finalization) act) h = (Done plan, j)" "changes_ok root c"
  shows "staged_plan C root c h plan j"
  using stage_result [OF assms] by (auto simp: staged_plan_def)

lemma settled_same_view:
  assumes "\<And>p. p \<notin> workspace root \<Longrightarrow> node_at i p = node_at h p" "plan_slot h = None" "plan_slot i = None"
  shows "visible root i = visible root h"
  using assms served_workspace [of _ root] by (auto simp: visible_def settled_def served_def file_in_def fun_eq_iff)

lemma sound_same_view:
  assumes "\<And>p. p \<notin> workspace root \<Longrightarrow> node_at i p = node_at h p" "plan_slot i = None" "sound C root h"
  shows "sound C root i"
  using assms consistent_cong [where root = root and N = "node_at i" and M = "node_at h" and C = C] served_workspace [of _ root] by (simp add: sound_def)

lemma decided_sound:
  assumes laws: "codec_laws C" and ok: "changes_ok root c" and s: "sound C root h"
    and st: "staged_plan C root c h plan j" and i: "plan_slot i = Some plan" "node_at i = node_at j"
  shows "sound C root i" "visible root i pf n = (if prefix ''.'' n then None else served_after C root c h pf n)"
proof -
  have cons: "consistent C root (node_at h)" using s by (simp add: sound_def)
  have m: "fin_moves plan = plan_moves root c h" using st by (simp add: staged_plan_def)
  have "consistent C root (replay (take k (fin_moves plan)) (node_at i))" for k
    unfolding m i(2) by (rule staged_replay_consistent [OF laws ok cons st])
  moreover from this [of 0] have "consistent C root (node_at i)" by simp
  ultimately show "sound C root i" using plan_apart [OF ok] m i(1) by (simp add: sound_def)
  show "visible root i pf n = (if prefix ''.'' n then None else served_after C root c h pf n)"
    using served_replay [OF ok cons st] i m by (simp add: visible_def settled_def)
qed

section \<open>Properties\<close>

text \<open>C5: Publishing is atomic whatever fails and wherever the process is killed. Either nothing a
  reader or the database shows has changed, or the caller's transaction is in the database
  and the repository is, once the recorded plan is replayed, the one the update describes.
  An error other than a pending finalization means the former and a result means the
  latter with nothing left to replay. And at every moment each database lists only files
  that are there to download.
\<close>

theorem update_atomic:
  fixes body :: "('e, 'a) prog"
  assumes laws: "codec_laws C" and ok: "changes_ok root (up_changes u)"
    and s: "sound C root h" and idle: "plan_slot h = None"
    and run: "update_commit C root u body h = (r, i)"
  shows "sound C root i \<and>
    ((db (srv i) = db (srv h) \<and> visible root i = visible root h \<and> plan_slot i = None \<and> (\<forall>x. r \<noteq> Done x)) \<or>
     (\<exists>x. caller_done body (db (srv h)) x (db (srv i)) \<and>
        (\<forall>pf n. visible root i pf n = (if prefix ''.'' n then None else served_after C root (up_changes u) h pf n)) \<and>
        ((r = Done x \<and> plan_slot i = None) \<or> r = Died \<or> (\<exists>e. r = Raised (FinalizationPending e)))))"
  using run ok
proof (cases rule: update_commit_cases)
  case (unstaged q)
  note st = stage_result [OF unstaged(1) ok]
  have "plan_slot i = None" using st(2) idle by simp
  then show ?thesis using sound_same_view [OF st(4) _ s] settled_same_view [OF st(4) idle] st(1) unstaged(2) by simp
next
  case (loop plan j)
  note st = stage_result [OF loop(1) ok] and sp = staged_planI [OF loop(1) ok]
  have j: "plan_slot j = None" using st(2) idle by simp
  from commit_loop_result [OF loop(2) j] loop(3) consider
    x where "decided plan body j x i" "r = Died \<or> (\<exists>e. r = Raised e \<and> is_pending e)"
    | k d where "untried j k" "i = k \<or> (discard plan :: ('e repo_error, unit) act) k = (d, i)" by blast
  then show ?thesis
  proof cases
    case (1 x)
    have "r = Died \<or> (\<exists>e. r = Raised (FinalizationPending e))" using 1(2) by (auto elim: is_pending.elims)
    then show ?thesis using 1(1) decided_sound [OF laws ok s sp] st(1) by (auto simp: decided_def)
  next
    case (2 k d)
    have src: "mv_source ` set (fin_moves plan) \<subseteq> workspace root"
      using sp plan_source [OF _ ok] by (auto simp: staged_plan_def workspace_def)
    have "db (srv i) = db (srv h) \<and> plan_slot i = None \<and> (\<forall>p. p \<notin> workspace root \<longrightarrow> node_at i p = node_at h p)"
      using 2(2)
    proof
      assume "i = k"
      then show ?thesis using 2(1) st j by (simp add: untried_def)
    next
      assume "(discard plan :: ('e repo_error, unit) act) k = (d, i)"
      from touchesD [OF touches_discard [OF src] this] show ?thesis using 2(1) st j by (simp add: untried_def)
    qed
    then show ?thesis using sound_same_view [of root i h C, OF _ _ s] settled_same_view [of root i h, OF _ idle] loop(3) by simp
  qed
next
  case (final plan j x k q)
  note st = stage_result [OF final(1) ok] and sp = staged_planI [OF final(1) ok]
  have j: "plan_slot j = None" using st(2) idle by simp
  have d: "decided plan body j x k" using commit_loop_result [OF final(2) j] by auto
  then have k: "plan_slot k = Some plan" "node_at k = node_at j" "caller_done body (db (srv h)) x (db (srv k))"
    using st(1) by (auto simp: decided_def)
  note dk = decided_sound [OF laws ok s sp k(1,2)]
  note f = finalize_invisible [OF final(3) dk(1) k(1)]
  have "visible root i = visible root k" using f(2) by (simp add: visible_def)
  then show ?thesis using f(1,3,4) dk(2) k(3) final(4) by auto
qed

section \<open>Recovery gets there\<close>

text \<open>A move nothing on the disk stands in the way of.\<close>

definition movable :: "nodes \<Rightarrow> file_move \<Rightarrow> bool" where
  "movable N m \<longleftrightarrow>
     (case N (mv_source m) of None \<Rightarrow> True | Some (File _) \<Rightarrow> True | Some _ \<Rightarrow> False) \<and>
     N (mv_destination m) \<noteq> Some Dir \<and> N (butlast (mv_destination m)) = Some Dir"

lemma movable_move1: "movable N m \<Longrightarrow> movable (move1 n N) m"
  unfolding movable_def move1_dirs
  by (auto simp: move1_def can_move_def split: option.splits node.splits)

lemma finish_move_fine:
  assumes "script h = Fine # Fine # ls" "movable (node_at h) m"
  shows "\<exists>j. finish_move m h = (Done (), j) \<and> (script j = ls \<or> script j = Fine # ls)"
  using assms
  by (auto simp: finish_move_def Let_def hbind_def hattempt_def hcatch_def hret_def hgets_def hemit_def hmodify_def
      rename_file_def open_and_sync_def step_def movable_def file_at_def exists_at_def is_dir_def put_node_def drop_node_def
      node_at_def delete_conv' update_conv'
      split: option.splits node.splits)

lemma finish_fine:
  "length ls \<ge> 2 * length ms \<Longrightarrow> list_all (\<lambda>l. l = Fine) ls \<Longrightarrow> script h = ls @ rest \<Longrightarrow> \<forall>m \<in> set ms. movable (node_at h) m \<Longrightarrow>
   \<exists>j ls'. hfor_each finish_move ms h = (Done (), j) \<and> script j = ls' @ rest \<and> list_all (\<lambda>l. l = Fine) ls' \<and>
     length ls' + 2 * length ms \<ge> length ls"
proof (induction ms arbitrary: h ls)
  case Nil
  then show ?case by (auto simp: hret_def)
next
  case (Cons m ms)
  then obtain ls2 where ls: "ls = Fine # Fine # ls2"
    by (cases ls; cases "tl ls") auto
  then have "script h = Fine # Fine # (ls2 @ rest)" using Cons.prems by simp
  then obtain j where j: "finish_move m h = (Done (), j)" "script j = ls2 @ rest \<or> script j = Fine # ls2 @ rest"
    using finish_move_fine [of h "ls2 @ rest" m] Cons.prems(4) by auto
  then obtain ls3 where ls3: "script j = ls3 @ rest" "list_all (\<lambda>l. l = Fine) ls3" "length ls3 \<ge> length ls2"
    using Cons.prems(2) ls that [of ls2] that [of "Fine # ls2"] by auto
  have "node_at j = move1 m (node_at h)" using finish_move_result [OF j(1)] by simp
  then have "\<forall>n \<in> set ms. movable (node_at j) n" using Cons.prems(4) movable_move1 by auto
  then obtain k ls4 where "hfor_each finish_move ms j = (Done (), k)" "script k = ls4 @ rest" "list_all (\<lambda>l. l = Fine) ls4"
    "length ls4 + 2 * length ms \<ge> length ls3"
    using Cons.IH [of ls3 j] ls3 Cons.prems(1) ls by auto
  then show ?case using j(1) ls3(3) ls by (auto simp: hthen_def hbind_def)
qed

text \<open>C6: Once the disk and the database answer for as long as it takes -- one call to read the plan,
  two for each move and one to delete the plan -- recovery finishes: the plan is gone and
  every file it names is where it belongs.
\<close>

theorem recovery_completes:
  assumes plan: "plan_slot h = Some plan" and ok: "\<forall>m \<in> set (fin_moves plan). movable (node_at h) m"
    and script: "script h = replicate n Fine @ rest" "n \<ge> 2 * length (fin_moves plan) + 2"
  shows "\<exists>i. (recover :: ('e repo_error, unit) act) h = (Done (), i) \<and> plan_slot i = None \<and>
    node_at i = replay (fin_moves plan) (node_at h) \<and> db (srv i) = db (srv h) \<and>
    (\<forall>p \<in> set (fin_retired plan). retired i p = Some (instant h))"
proof -
  obtain m where m: "n = Suc m" "m \<ge> 2 * length (fin_moves plan) + 1" using script(2) by (cases n) auto
  let ?h = "h\<lparr>script := replicate m Fine @ rest\<rparr>"
  have all: "list_all (\<lambda>l. l = Fine) (replicate m Fine)" by (simp add: list_all_iff)
  obtain j ls where f: "hfor_each finish_move (fin_moves plan) ?h = (Done (), j)" "script j = ls @ rest" "list_all (\<lambda>l. l = Fine) ls"
    "length ls + 2 * length (fin_moves plan) \<ge> m"
    using finish_fine [of "fin_moves plan" "replicate m Fine" ?h rest] m all ok by auto
  then obtain ls' where ls: "ls = Fine # ls'" using m by (cases ls) auto
  have "finish plan ?h = (Done (fin_retired plan), j)" using f(1) by (simp add: finish_def hthen_def hbind_def hret_def)
  then obtain i where fin: "(finalize plan :: ('e repo_error, unit) act) ?h = (Done (), i)"
    using f(2) ls by (auto simp: finalize_def hmap_err_def hcatch_def hbind_def hthen_def plan_delete_def step_def hmodify_def)
  have "(recover :: ('e repo_error, unit) act) h = (Done (), i)"
    using fin plan script(1) m(1) by (simp add: recover_def hbind_def plan_read_def step_def hmap_err_def hcatch_def)
  then show ?thesis using finalize_result [OF fin] by (auto simp: map_add_def)
qed


section \<open>A publication, run\<close>

definition sample_host :: host where
  "sample_host = \<lparr>srv = sample_server, plan_slot = None,
     disk = [([''repo''], Dir), ([''repo'', ''.staging''], Dir), ([''repo'', ''.staging'', ''1''], Dir),
             ([''repo'', ''.staging'', ''1'', ''foo-1.0-1-any.pkg.tar.zst''], File ''bytes'')],
     retired = Map.empty, updates = 0, draft = \<lparr>fin_moves = [], fin_retired = []\<rparr>, instant = 5, script = replicate 30 Fine\<rparr>"

definition sample_update :: update where
  "sample_update = \<lparr>up_id = 0, up_changes = \<lparr>ch_add = [\<lparr>ad_platform = X86_64,
      ad_staged = [''repo'', ''.staging'', ''1'', ''foo-1.0-1-any.pkg.tar.zst''],
      ad_entry = sample_entry ''foo-1.0-1'' ''any.pkg.tar.zst''\<rparr>], ch_retire = []\<rparr>\<rparr>"

lemma sample_host_sound: "sound packing [''repo''] sample_host"
proof -
  have "file_in (node_at sample_host) (platform_dir [''repo''] pf @ [n]) = None \<and>
      node_at sample_host (platform_dir [''repo''] pf @ [n]) \<noteq> Some Dir" for pf n
    by (cases pf) (simp_all add: file_in_def node_at_def sample_host_def platform_dir_def)
  moreover have "plan_slot sample_host = None" by (simp add: sample_host_def)
  ultimately show ?thesis by (simp add: sound_def consistent_def Let_def conforming_db_def listing_def)
qed

theorem update_atomic_witness:
  "\<exists>i. update_commit packing [''repo''] sample_update (ret () :: (unit, unit) prog) sample_host = (Done (), i) \<and>
     sound packing [''repo''] i \<and> plan_slot i = None \<and> db (srv i) = db sample_server \<and>
     visible [''repo''] i X86_64 ''foo-1.0-1-any.pkg.tar.zst'' = Some ''bytes''"
proof -
  let ?run = "update_commit packing [''repo''] sample_update (ret () :: (unit, unit) prog) sample_host"
  have "(case fst ?run of Done _ \<Rightarrow> True | _ \<Rightarrow> False)" by code_simp
  then obtain i where run: "?run = (Done (), i)" by (cases ?run) (auto split: outcome.splits)
  have ok: "changes_ok [''repo''] (up_changes sample_update)" by code_simp
  have idle: "plan_slot sample_host = None" by (simp add: sample_host_def)
  have after: "served_after packing [''repo''] (up_changes sample_update) sample_host X86_64 ''foo-1.0-1-any.pkg.tar.zst'' = Some ''bytes''"
    by code_simp
  have cd: "db (srv i) = db sample_server" if "caller_done (ret () :: (unit, unit) prog) (db (srv sample_host)) x (db (srv i))" for x
    using that by (auto simp: caller_done_def ret_def sample_host_def)
  show ?thesis using update_atomic [OF packing_laws ok sample_host_sound idle run] run after cd by auto
qed

text \<open>A server that was killed with one move left.\<close>

definition killed_host :: host where
  "killed_host = sample_host\<lparr>
     plan_slot := Some \<lparr>fin_moves = [\<lparr>mv_source = [''repo'', ''.staging'', ''1'', ''foo-1.0-1-any.pkg.tar.zst.publishing''],
                                   mv_destination = [''repo'', ''x86_64'', ''foo-1.0-1-any.pkg.tar.zst'']\<rparr>],
                      fin_retired = [[''repo'', ''x86_64'', ''foo-0.9-1-any.pkg.tar.zst'']]\<rparr>,
     disk := disk sample_host @ [([''repo'', ''x86_64''], Dir),
       ([''repo'', ''.staging'', ''1'', ''foo-1.0-1-any.pkg.tar.zst.publishing''], File ''bytes'')],
     script := replicate 4 Fine\<rparr>"

theorem recovery_completes_witness:
  "\<exists>i. (recover :: (unit repo_error, unit) act) killed_host = (Done (), i) \<and> plan_slot i = None \<and>
     node_at i [''repo'', ''x86_64'', ''foo-1.0-1-any.pkg.tar.zst''] = Some (File ''bytes'') \<and>
     retired i [''repo'', ''x86_64'', ''foo-0.9-1-any.pkg.tar.zst''] = Some 5"
proof -
  let ?m = "\<lparr>mv_source = [''repo'', ''.staging'', ''1'', ''foo-1.0-1-any.pkg.tar.zst.publishing''],
      mv_destination = [''repo'', ''x86_64'', ''foo-1.0-1-any.pkg.tar.zst'']\<rparr> :: file_move"
  let ?p = "\<lparr>fin_moves = [?m], fin_retired = [[''repo'', ''x86_64'', ''foo-0.9-1-any.pkg.tar.zst'']]\<rparr> :: finalization"
  have p: "plan_slot killed_host = Some ?p" by (simp add: killed_host_def)
  have ok: "\<forall>m \<in> set (fin_moves ?p). movable (node_at killed_host) m"
    by (simp add: movable_def node_at_def killed_host_def sample_host_def)
  have s: "script killed_host = replicate 4 Fine @ []" by (simp add: killed_host_def)
  have moved: "replay (fin_moves ?p) (node_at killed_host) [''repo'', ''x86_64'', ''foo-1.0-1-any.pkg.tar.zst''] = Some (File ''bytes'')"
    by (simp add: move1_def can_move_def node_at_def killed_host_def sample_host_def)
  have "instant killed_host = 5" by (simp add: killed_host_def sample_host_def)
  with recovery_completes [OF p ok s] moved show ?thesis by fastforce
qed

lemma killed_host_sound: "sound packing [''repo''] killed_host"
proof -
  let ?m = "\<lparr>mv_source = [''repo'', ''.staging'', ''1'', ''foo-1.0-1-any.pkg.tar.zst.publishing''],
      mv_destination = [''repo'', ''x86_64'', ''foo-1.0-1-any.pkg.tar.zst'']\<rparr> :: file_move"
  have n: "file_in (node_at killed_host) (platform_dir [''repo''] pf @ [n]) = None \<and>
      node_at killed_host (platform_dir [''repo''] pf @ [n]) \<noteq> Some Dir" for pf n
    by (cases pf) (simp_all add: file_in_def node_at_def killed_host_def sample_host_def platform_dir_def)
  have m: "file_in (move1 ?m (node_at killed_host)) (platform_dir [''repo''] pf @ [DB_ARCHIVE]) = None" for pf
    using n [of pf DB_ARCHIVE] by (auto simp: move1_def file_in_def platform_dir_def DB_ARCHIVE_def)
  have "consistent packing [''repo''] (node_at killed_host)"
    using n by (simp add: consistent_def Let_def conforming_db_def listing_def)
  moreover have "consistent packing [''repo''] (move1 ?m (node_at killed_host))"
    using n m by (simp add: consistent_def Let_def conforming_db_def listing_def move1_dirs)
  moreover have "take k [?m] = [] \<or> take k [?m] = [?m]" for k by (cases k) auto
  then have "replay (take k [?m]) N \<in> {N, move1 ?m N}" for k N by (metis insertCI replay_simps(1,2))
  ultimately show ?thesis
    by (auto simp: sound_def apart_def killed_host_def dest: insertE) (metis insertE singletonD)+
qed


end
