(* ===== verification/Repo_Sweep.thy ===== *)
theory Repo_Sweep
  imports Repo_Commit
begin

text \<open>Which files a sweep deletes, and that those a database lists are not among them.\<close>

section \<open>What a sweep may delete\<close>

text \<open>
  Package files and signatures whose package the directory's database does not list, and
  that were known as retired for the grace period.
\<close>

definition expired :: "codec \<Rightarrow> path \<Rightarrow> nat \<Rightarrow> nat \<Rightarrow> (path \<rightharpoonup> nat) \<Rightarrow> nodes \<Rightarrow> path set" where
  "expired C root now grace known N =
     {p. \<exists>d n. p = root @ [d, n] \<and> is_package_file n \<and>
        package_of n \<notin> listing C (file_in N (root @ [d, DB_ARCHIVE])) \<and>
        (grace = 0 \<or> (\<exists>t. known p = Some t \<and> t + grace \<le> now))}"

text \<open>A run that deletes nothing else.\<close>

definition sweeps :: "path set \<Rightarrow> host \<Rightarrow> host \<Rightarrow> bool" where
  "sweeps E h i \<longleftrightarrow>
     db (srv i) = db (srv h) \<and> plan_slot i = plan_slot h \<and> instant i = instant h \<and>
     (\<forall>p. node_at i p = node_at h p \<or> (p \<in> E \<and> node_at i p = None \<and> node_at h p \<noteq> Some Dir))"

lemma sweeps_refl [simp]: "sweeps E h h"
  by (simp add: sweeps_def)

lemma sweeps_trans: "sweeps E h i \<Longrightarrow> sweeps E i j \<Longrightarrow> sweeps E h j"
  unfolding sweeps_def by metis

lemma remove_file_sweeps:
  assumes "remove_file p h = (r, i)" "p \<in> E"
  shows "sweeps E h i"
  using assms by (auto simp: remove_file_def step_def sweeps_def split: list.splits if_splits option.splits node.splits)

lemma sweeps_same: "node_at i = node_at h \<Longrightarrow> db (srv i) = db (srv h) \<Longrightarrow> plan_slot i = plan_slot h \<Longrightarrow> instant i = instant h \<Longrightarrow> sweeps E h i"
  by (simp add: sweeps_def)

lemma sweep_entry_result:
  assumes run: "sweep_entry now grace dir listed (known, sw) name h = (r, i)" and sub: "known \<subseteq>\<^sub>m known0"
    and dir: "dir = root @ [d]" and listed: "listed = listing C (file_in N (root @ [d, DB_ARCHIVE]))"
  shows "sweeps (expired C root now grace known0 N) h i" "r = Done (known', sw') \<Longrightarrow> known' \<subseteq>\<^sub>m known0"
proof -
  let ?p = "dir @ [name]" and ?E = "expired C root now grace known0 N"
  let ?since = "case known ?p of None \<Rightarrow> now | Some t \<Rightarrow> t"
  have rest: "known(?p := None) \<subseteq>\<^sub>m known0" using sub by (auto simp: map_le_def)
  have "sweeps ?E h i \<and> (\<forall>k s. r = Done (k, s) \<longrightarrow> k \<subseteq>\<^sub>m known0)"
  proof (cases "is_package_file name \<and> package_of name \<notin> listed \<and> now - ?since \<ge> grace")
    case False
    then show ?thesis using run sub rest
      by (auto simp: sweep_entry_def Let_def hret_def split: if_splits)
  next
    case True
    have "?p \<in> ?E"
      using True sub listed dir by (auto simp: expired_def map_le_def dom_def split: option.splits)
    obtain q j where rm: "remove_file ?p h = (q, j)" by fastforce
    have sj: "sweeps ?E h j" by (rule remove_file_sweeps [OF rm \<open>?p \<in> ?E\<close>])
    have "sweeps ?E j i \<and> (\<forall>k s. r = Done (k, s) \<longrightarrow> k \<subseteq>\<^sub>m known0)"
      using run True rm rest
      by (cases q) (auto simp: sweep_entry_def Let_def hbind_def hattempt_def hcatch_def hret_def hthen_def hemit_def hmodify_def
          emit_def perform_def sweeps_same split: if_splits)
    then show ?thesis using sweeps_trans [OF sj] by blast
  qed
  then show "sweeps ?E h i" "r = Done (known', sw') \<Longrightarrow> known' \<subseteq>\<^sub>m known0" by auto
qed

lemma hfold_result:
  assumes step: "\<And>s x h r i. I s \<Longrightarrow> J h \<Longrightarrow> f s x h = (r, i) \<Longrightarrow> sweeps E h i \<and> (\<forall>t. r = Done t \<longrightarrow> I t)"
    and J: "\<And>h i. J h \<Longrightarrow> sweeps E h i \<Longrightarrow> J i"
  shows "I s \<Longrightarrow> J h \<Longrightarrow> hfold f s xs h = (r, i) \<Longrightarrow> sweeps E h i \<and> (\<forall>t. r = Done t \<longrightarrow> I t)"
proof (induction xs arbitrary: s h)
  case Nil
  then show ?case by (auto simp: hret_def)
next
  case (Cons x xs)
  obtain q j where fx: "f s x h = (q, j)" by fastforce
  note st = step [OF Cons.prems(1,2) fx]
  show ?case
  proof (cases q)
    case (Done t)
    then have "hfold f t xs j = (r, i)" using Cons.prems(3) fx by (simp add: hbind_def)
    then show ?thesis using Cons.IH [of t j] st Done J [OF Cons.prems(2)] sweeps_trans by blast
  qed (use Cons.prems(3) fx st in \<open>auto simp: hbind_def\<close>)
qed

definition same_databases :: "path \<Rightarrow> nodes \<Rightarrow> host \<Rightarrow> bool" where
  "same_databases root N h \<longleftrightarrow> (\<forall>d. node_at h (root @ [d, DB_ARCHIVE]) = N (root @ [d, DB_ARCHIVE]))"

lemma archive_not_expired: "root @ [d, DB_ARCHIVE] \<notin> expired C root now grace known N"
  using archive_names(7) by (auto simp: expired_def)

lemma same_databases_sweeps:
  "same_databases root N h \<Longrightarrow> sweeps (expired C root now grace known M) h i \<Longrightarrow> same_databases root N i"
  using archive_not_expired unfolding same_databases_def sweeps_def by metis

lemma attempts_same:
  assumes "hattempt m h = (r, i)" "\<And>q j. m h = (q, j) \<Longrightarrow> node_at j = node_at h \<and> srv j = srv h \<and> plan_slot j = plan_slot h \<and> instant j = instant h"
  shows "node_at i = node_at h \<and> srv i = srv h \<and> plan_slot i = plan_slot h \<and> instant i = instant h"
proof -
  obtain q j where m: "m h = (q, j)" by fastforce
  then have "i = j" using assms(1) by (cases q) (auto simp: hattempt_def hcatch_def hbind_def hret_def)
  with assms(2) [OF m] show ?thesis by simp
qed

lemma read_dir_same: "read_dir p h = (q, j) \<Longrightarrow> node_at j = node_at h \<and> srv j = srv h \<and> plan_slot j = plan_slot h \<and> instant j = instant h"
  by (auto simp: read_dir_def step_def split: list.splits if_splits)

lemma read_listing_same:
  "read_listing C p h = (q, j) \<Longrightarrow> node_at j = node_at h \<and> srv j = srv h \<and> plan_slot j = plan_slot h \<and> instant j = instant h"
  by (auto simp: read_listing_def step_def split: list.splits if_splits option.splits)

lemma read_listing_done: "read_listing C p h = (Done fs, j) \<Longrightarrow> fs = listing C (file_in (node_at h) p)"
  by (auto simp: read_listing_def step_def listing_def file_at_in split: list.splits if_splits option.splits)

lemma sweep_platform_result:
  assumes run: "(sweep_platform C root now grace st name :: ('e, (path \<rightharpoonup> nat) \<times> swept) act) h = (r, i)" and sub: "fst st \<subseteq>\<^sub>m known0" and J: "same_databases root N h"
  shows "sweeps (expired C root now grace known0 N) h i \<and> (\<forall>t. r = Done t \<longrightarrow> fst t \<subseteq>\<^sub>m known0)"
proof (cases "prefix ''.'' name \<or> \<not> is_dir h (root @ [name])")
  case True
  then show ?thesis using run sub by (auto simp: sweep_platform_def Let_def hbind_def hgets_def hret_def)
next
  case False
  let ?dir = "root @ [name]" and ?E = "expired C root now grace known0 N"
  obtain q1 j where l: "(hattempt (read_listing C (?dir @ [DB_ARCHIVE])) :: ('e, unit + string set) act) h = (q1, j)" by fastforce
  note s1 = attempts_same [OF l read_listing_same]
  show ?thesis
  proof (cases "\<exists>fs. q1 = Done (Inr fs)")
    case nd: False
    then have "i = j \<and> (\<forall>t. r = Done t \<longrightarrow> t = st)" using run False l
      by (cases q1) (auto simp: sweep_platform_def Let_def hbind_def hgets_def hret_def split: sum.splits)
    then show ?thesis using s1 sub by (auto intro: sweeps_same)
  next
    case True
    then obtain fs where fs: "q1 = Done (Inr fs)" by blast
    have "fs = listing C (file_in (node_at h) (?dir @ [DB_ARCHIVE]))"
      using l fs by (intro read_listing_done [of C _ h _ j]) (auto simp: hattempt_def hcatch_def hbind_def hret_def split: outcome.splits prod.splits)
    then have listed: "fs = listing C (file_in N (root @ [name, DB_ARCHIVE]))"
      using J by (simp add: same_databases_def file_in_def)
    obtain q2 k where d: "(hattempt (read_dir ?dir) :: ('e, io_error + string list) act) j = (q2, k)" by fastforce
    note s2 = attempts_same [OF d read_dir_same]
    have sk: "sweeps ?E h k" using s1 s2 by (auto intro: sweeps_same)
    show ?thesis
    proof (cases "\<exists>found. q2 = Done (Inr found)")
      case nd: False
      then have "i = k \<and> (\<forall>t. r = Done t \<longrightarrow> t = st)" using run False l fs d
        by (cases q2) (auto simp: sweep_platform_def Let_def hbind_def hgets_def hret_def split: sum.splits)
      then show ?thesis using sk sub by auto
    next
      case True
      then obtain found where "q2 = Done (Inr found)" by blast
      then have f: "(hfold (sweep_entry now grace ?dir fs) st found :: ('e, (path \<rightharpoonup> nat) \<times> swept) act) k = (r, i)" using run False l fs d
        by (auto simp: sweep_platform_def Let_def hbind_def hgets_def hret_def)
      have "sweeps ?E k i \<and> (\<forall>t. r = Done t \<longrightarrow> fst t \<subseteq>\<^sub>m known0)"
      proof (rule hfold_result [where I = "\<lambda>t. fst t \<subseteq>\<^sub>m known0" and J = "\<lambda>_. True", OF _ _ sub _ f])
        fix s x g q g'
        assume a: "fst s \<subseteq>\<^sub>m known0" "sweep_entry now grace ?dir fs s x g = (q, g')"
        obtain kn sw where "s = (kn, sw)" by fastforce
        with a sweep_entry_result [OF _ _ refl listed, of now grace kn sw x g q g' known0]
        show "sweeps ?E g g' \<and> (\<forall>t. q = Done t \<longrightarrow> fst t \<subseteq>\<^sub>m known0)" by (metis fst_conv prod.collapse)
      qed auto
      then show ?thesis using sweeps_trans [OF sk] by blast
    qed
  qed
qed

lemma sweep_retired_result:
  assumes run: "(sweep_retired C root known now grace :: ('e, swept) act) h = (r, i)"
  shows "sweeps (expired C root now grace known (node_at h)) h i"
proof -
  let ?E = "expired C root now grace known (node_at h)" and ?sw = "\<lparr>still_retired = Map.empty, deleted = []\<rparr> :: swept"
  obtain q j where d: "(hattempt (read_dir root) :: ('e, io_error + string list) act) h = (q, j)" by fastforce
  note s = attempts_same [OF d read_dir_same]
  show ?thesis
  proof (cases "\<exists>found. q = Done (Inr found)")
    case False
    then have "i = j" using run d
      by (cases q) (auto simp: sweep_retired_def Let_def hbind_def hret_def split: sum.splits)
    then show ?thesis using s by (auto intro: sweeps_same)
  next
    case True
    then obtain found where q: "q = Done (Inr found)" by blast
    obtain q2 k where f: "(hfold (sweep_platform C root now grace) (known, ?sw) found :: ('e, (path \<rightharpoonup> nat) \<times> swept) act) j = (q2, k)" by fastforce
    have "i = k" using run d q f
      by (cases q2) (auto simp: sweep_retired_def Let_def hbind_def hret_def split: prod.splits)
    have jj: "same_databases root (node_at h) j" using s by (simp add: same_databases_def)
    have "sweeps ?E j k \<and> (\<forall>t. q2 = Done t \<longrightarrow> fst t \<subseteq>\<^sub>m known)"
      by (rule hfold_result [where I = "\<lambda>t. fst t \<subseteq>\<^sub>m known" and J = "same_databases root (node_at h)",
            OF sweep_platform_result same_databases_sweeps _ jj f]) simp_all
    then show ?thesis using \<open>i = k\<close> s sweeps_trans [OF sweeps_same, of j h ?E k] by simp
  qed
qed

lemma package_of_listable: "listable n \<Longrightarrow> package_of n = n"
  by (auto simp: listable_def package_of_def strip_suffix_def split: option.splits)

lemma consistent_sweeps:
  assumes c: "consistent C root (node_at h)" and s: "sweeps (expired C root now grace known (node_at h)) h i"
  shows "consistent C root (node_at i)"
proof -
  let ?E = "expired C root now grace known (node_at h)"
  have db: "file_in (node_at i) (platform_dir root pf @ [DB_ARCHIVE]) = file_in (node_at h) (platform_dir root pf @ [DB_ARCHIVE])" for pf
  proof -
    have "platform_dir root pf @ [DB_ARCHIVE] \<notin> ?E" using archive_not_expired by (simp add: platform_dir_def)
    then show ?thesis using s unfolding sweeps_def file_in_def by metis
  qed
  have "file_in (node_at i) (platform_dir root pf @ [f]) \<noteq> None"
    if f: "f \<in> listing C (file_in (node_at h) (platform_dir root pf @ [DB_ARCHIVE]))" for pf f
  proof -
    have l: "listable f" "file_in (node_at h) (platform_dir root pf @ [f]) \<noteq> None" using consistentD(2) [OF c f] by auto
    have "platform_dir root pf @ [f] \<notin> ?E"
      using f package_of_listable [OF l(1)] by (auto simp: expired_def platform_dir_def)
    then have "node_at i (platform_dir root pf @ [f]) = node_at h (platform_dir root pf @ [f])" using s unfolding sweeps_def by blast
    then show ?thesis using l(2) by (simp add: file_in_def)
  qed
  moreover have "\<not> prefix ''.'' n \<Longrightarrow> node_at i (platform_dir root pf @ [n]) \<noteq> Some Dir" for pf n
    using consistentD(3) [OF c] s unfolding sweeps_def by (metis option.distinct(1))
  ultimately show ?thesis using consistentD(1,2) [OF c] unfolding consistent_def Let_def db by blast
qed

lemma recover_clock:
  assumes run: "(recover :: ('e repo_error, unit) act) h = (r, i)"
  shows "instant i = instant h" "retired i p = Some t \<Longrightarrow> retired h p = Some t \<or> t = instant h"
proof -
  have "instant i = instant h \<and> (\<forall>p t. retired i p = Some t \<longrightarrow> retired h p = Some t \<or> t = instant h)"
  proof (cases "script h")
    case Nil
    then show ?thesis using run by (auto simp: recover_def hbind_def plan_read_def step_def)
  next
    case (Cons l ls)
    let ?h = "h\<lparr>script := ls\<rparr>"
    show ?thesis
    proof (cases "l = Fine \<and> plan_slot h \<noteq> None")
      case False
      then show ?thesis using run Cons by (auto simp: recover_def hbind_def plan_read_def step_def hret_def split: if_splits)
    next
      case True
      then obtain plan where p: "plan_slot h = Some plan" by auto
      obtain q j where f: "(finalize plan :: ('e repo_error, unit) act) ?h = (q, j)" by fastforce
      have "i = j" using run f True p Cons
        by (auto simp: recover_def hbind_def plan_read_def step_def hmap_err_def hcatch_def hraise_def split: outcome.splits)
      then show ?thesis using finalize_result(2,3) [OF f] by (auto simp: map_add_def split: if_splits option.splits)
    qed
  qed
  then show "instant i = instant h" "retired i p = Some t \<Longrightarrow> retired h p = Some t \<or> t = instant h" by auto
qed

lemma listing_none [simp]: "listing C None = {}"
  by (simp add: listing_def)

text \<open>C8: A sweep deletes only package files and signatures whose package no database lists any
  more, and only once they were known as retired for the grace period; it never touches
  the tables, and each database still lists only files that are there -- also when files
  cannot be removed or the server is killed halfway.
\<close>

theorem sweep_spares_listed:
  assumes s: "sound C root h" and run: "(sweep C root grace :: ('e repo_error, nat) act) h = (r, i)"
  shows "sound C root i \<and> db (srv i) = db (srv h) \<and>
    (\<forall>pf n. visible root i pf n = visible root h pf n \<or>
       (visible root i pf n = None \<and> is_package_file n \<and>
        package_of n \<notin> listing C (visible root h pf DB_ARCHIVE) \<and>
        (grace = 0 \<or> (\<exists>t. retired h (platform_dir root pf @ [n]) = Some t \<and> t + grace \<le> instant h))))"
proof -
  let ?now = "instant h"
  have run': "(sweep_at C root ?now grace :: ('e repo_error, nat) act) h = (r, i)"
    using run by (simp add: sweep_def hbind_def hgets_def)
  obtain q j where rec: "(recover :: ('e repo_error, unit) act) h = (q, j)" by fastforce
  note inv = recover_invisible [OF rec s]
  have vj: "visible root j = visible root h" using inv(2) by (simp add: visible_def)
  show ?thesis
  proof (cases "q = Done ()")
    case False
    then have "i = j" using run' rec by (cases q) (auto simp: sweep_at_def hthen_def hbind_def)
    then show ?thesis using inv vj by simp
  next
    case True
    let ?j = "j\<lparr>retired := Map.empty\<rparr>"
    obtain q2 k where sr: "(sweep_retired C root (retired j) ?now grace :: ('e repo_error, swept) act) ?j = (q2, k)" by fastforce
    let ?E = "expired C root ?now grace (retired j) (node_at ?j)"
    note sw = sweep_retired_result [OF sr]
    have ik: "node_at i = node_at k \<and> db (srv i) = db (srv k) \<and> plan_slot i = plan_slot k"
      using run' rec True sr
      by (cases q2) (auto simp: sweep_at_def hthen_def hbind_def hgets_def hmodify_def hret_def hemit_def emit_def perform_def
          split: if_splits)
    have slot: "plan_slot j = None" using inv(4) True by simp
    have cj: "consistent C root (node_at j)" using inv(1) by (simp add: sound_def)
    have "consistent C root (node_at i)" using consistent_sweeps [of C root ?j, OF _ sw] cj ik by simp
    then have si: "sound C root i" using ik sw slot by (simp add: sound_def sweeps_def)
    have view: "visible root g = served root (node_at g)" if "plan_slot g = None" for g using that by (simp add: visible_def settled_def)
    have dbs: "visible root h pf DB_ARCHIVE = file_in (node_at j) (platform_dir root pf @ [DB_ARCHIVE])" for pf
      unfolding vj [symmetric] view [OF slot] by (simp add: served_def)
    have "visible root i pf n = visible root h pf n \<or>
       (visible root i pf n = None \<and> is_package_file n \<and> package_of n \<notin> listing C (visible root h pf DB_ARCHIVE) \<and>
        (grace = 0 \<or> (\<exists>t. retired h (platform_dir root pf @ [n]) = Some t \<and> t + grace \<le> ?now)))" for pf n
    proof (cases "node_at i (platform_dir root pf @ [n]) = node_at j (platform_dir root pf @ [n])")
      case True
      have "plan_slot i = None" using ik sw slot by (simp add: sweeps_def)
      then show ?thesis using True view vj slot by (metis file_in_def served_def)
    next
      case False
      then have e: "platform_dir root pf @ [n] \<in> ?E" and gone: "node_at i (platform_dir root pf @ [n]) = None"
        using sw ik by (auto simp: sweeps_def)
      have "plan_slot i = None" using ik sw slot by (simp add: sweeps_def)
      then have "visible root i pf n = None" using view gone by (simp add: served_def file_in_def)
      moreover have "is_package_file n" "package_of n \<notin> listing C (visible root h pf DB_ARCHIVE)"
        and t: "grace = 0 \<or> (\<exists>t. retired j (platform_dir root pf @ [n]) = Some t \<and> t + grace \<le> ?now)"
        using e dbs by (auto simp: expired_def platform_dir_def)
      moreover have "grace = 0 \<or> (\<exists>t. retired h (platform_dir root pf @ [n]) = Some t \<and> t + grace \<le> ?now)"
        using t recover_clock(2) [OF rec] by fastforce
      ultimately show ?thesis by blast
    qed
    then show ?thesis using si ik sw inv(3) by (simp add: sweeps_def)
  qed
qed

theorem sweep_spares_listed_witness:
  "\<exists>r i. (sweep packing [''repo''] 3 :: (unit repo_error, nat) act) killed_host = (r, i) \<and>
     sound packing [''repo''] i \<and> db (srv i) = db (srv killed_host)"
proof -
  obtain r i where run: "(sweep packing [''repo''] 3 :: (unit repo_error, nat) act) killed_host = (r, i)" by fastforce
  show ?thesis using sweep_spares_listed [OF killed_host_sound run] run by blast
qed

end
