(* ===== verification/Spec2Isabelle.thy ===== *)
theory Spec2Isabelle
  imports Lifecycle Units Schedules Repo_Sweep
begin

text \<open>
  \<^bold>\<open>AURCache, verified.\<close> AURCache is a build server for the Arch user repository: it watches
  packages, queues builds of them, hands the builds to remote workers over leases, publishes
  what the workers upload into a pacman repository, and releases the packages that waited for
  it. This library models the part of the server and of its workers that decides all this, as
  executable definitions translated from the Rust sources under \<^verbatim>\<open>src/backend\<close>, and proves
  what makes it correct.

  \<^bold>\<open>Parts and theories.\<close> Paths are relative to \<^verbatim>\<open>src/backend\<close>.

  \<^item> \<^verbatim>\<open>Prelude\<close>: the collections of rules and what the sources use of Rust's standard library
    (strings, iterators, ranges of integers). Locales \<open>ranked_choice\<close> (a choice by rank) and
    \<open>wire_codec\<close> (a representation that reads back).
  \<^item> \<^verbatim>\<open>Build_State\<close>: \<^verbatim>\<open>aurcache-common/src/build_state.rs\<close>, \<^verbatim>\<open>pacman-mirrors/src/platforms.rs\<close>;
    states, triggers, end reasons, platforms and their codes.
  \<^item> \<^verbatim>\<open>Db_Model\<close>: the entities of \<^verbatim>\<open>aurcache-db/src\<close> as records, the tables as a record of lists,
    and the programs over them: a program takes the server (tables, clock, connection, log of
    effects) and returns an error or a value and the server after it. Every statement can fail,
    because the connection may be lost at any of them; \<open>transaction\<close> restores the tables on an
    error as \<^verbatim>\<open>helpers/txn.rs\<close> does.
  \<^item> \<^verbatim>\<open>Build_Rows\<close>, \<^verbatim>\<open>Build_Enqueue\<close>, \<^verbatim>\<open>Worker_Jobs\<close>: \<^verbatim>\<open>aurcache-db/src/helpers/{builds, build_enqueue,
    worker_jobs}.rs\<close>; build rows and the status a package shows, the queue, and the life of a job.
    \<^verbatim>\<open>Job_Routing\<close> and \<^verbatim>\<open>Job_Leases\<close> prove what claiming, waiting reasons, abandoning, heartbeats and
    the reaper decide.
  \<^item> \<^verbatim>\<open>Ledger\<close>, \<^verbatim>\<open>Consistency\<close>: the abstract specification. The ledger is the build table as the
    rest of the program may rely on it, with a step relation for its rows; \<open>refines\<close> says a program
    makes only ledger steps; \<open>db_ok\<close> is the invariant of the tables. The contracts of programs are
    locales: \<open>server_program\<close> (keeps the invariant and every finished build), \<open>build_program\<close>
    (works on builds), \<open>atomic_program\<close> and \<open>stable_program\<close> (in one transaction; ends what it began),
    \<open>registry_program\<close> (works on workers and leaves builds alone). Every program of the model
    interprets one of them, in the theory of its component.
  \<^item> \<^verbatim>\<open>Completion\<close>, \<^verbatim>\<open>Dependents\<close>: \<^verbatim>\<open>aurcache-utils/src/{worker_complete, cancel, build_delete,
    abandoned}.rs\<close>; a worker's report, cancelling, deleting, and the packages a publication releases.
  \<^item> \<^verbatim>\<open>Publishing\<close>: \<^verbatim>\<open>aurcache-utils/src/publish.rs\<close>; which staged files belong to a build, who owns
    them, and settling or failing the publication.
  \<^item> \<^verbatim>\<open>Versions\<close>: \<^verbatim>\<open>aurcache-deps/src/{version, deps}.rs\<close>, \<^verbatim>\<open>aurcache-utils/src/pkg.rs\<close>; version bounds
    and declared dependencies. \<^verbatim>\<open>Units\<close>: \<^verbatim>\<open>aurcache-common/src/units.rs\<close>,
    \<^verbatim>\<open>aurcache-utils/src/worker_policy.rs\<close>. \<^verbatim>\<open>List_Columns\<close>: \<^verbatim>\<open>aurcache-db/src/lists.rs\<close>, with the locale
    \<open>delimited_column\<close>.
  \<^item> \<^verbatim>\<open>Ordered_Maps\<close>: \<^verbatim>\<open>BTreeMap\<close> as a sorted association list behind the locale \<open>keyed_map\<close>.
    \<^verbatim>\<open>Worker_Config\<close>, \<^verbatim>\<open>Setting_Resolution\<close>: \<^verbatim>\<open>aurcache-common/src/worker_config.rs\<close>,
    \<^verbatim>\<open>aurcache-worker-core/src/settings.rs\<close> and the tables of both executors; what a worker can be
    configured with, and which value it runs.
  \<^item> \<^verbatim>\<open>Worker_Store\<close>, \<^verbatim>\<open>Enrollment\<close>: \<^verbatim>\<open>aurcache-db/src/helpers/worker_store.rs\<close>,
    \<^verbatim>\<open>aurcache-utils/src/worker_{enroll, settings, heartbeat, fleet}.rs\<close>; registration, approval,
    revocation, certificates, delivered settings, heartbeats.
  \<^item> \<^verbatim>\<open>Schedules\<close>: \<^verbatim>\<open>aurcache-common/src/schedule.rs\<close>, \<^verbatim>\<open>aurcache-utils/src/scheduled.rs\<close>; crontab
    expressions with \<^verbatim>\<open>H\<close> as bit sets in 64-bit words, and the time of the next run.
  \<^item> \<^verbatim>\<open>Server_Settings\<close>: \<^verbatim>\<open>aurcache-common/src/settings.rs\<close>, \<^verbatim>\<open>aurcache-utils/src/settings\<close>,
    \<^verbatim>\<open>aurcache-api/src/settings.rs\<close>; the settings of the server, checked, stored and read.
  \<^item> \<^verbatim>\<open>Repo_Database\<close>: \<^verbatim>\<open>pacman-repo-utils\<close>; the metadata of a package file, the entry it gets, and
    \<^verbatim>\<open>repo.db\<close> and \<^verbatim>\<open>repo.files\<close> as lists of archive members. Compressors, tar and digests are a
    parameter with the laws they document.
  \<^item> \<^verbatim>\<open>Host\<close>, \<^verbatim>\<open>Repository\<close>: \<^verbatim>\<open>aurcache-utils/src/repository.rs\<close> on a disk and a database that may
    fail at every call, with a script of what goes wrong; the script ends where the process dies.
  \<^item> \<^verbatim>\<open>Repo_Replay\<close>, \<^verbatim>\<open>Repo_Staging\<close>, \<^verbatim>\<open>Repo_Commit\<close>, \<^verbatim>\<open>Repo_Sweep\<close>: replaying a plan, what staging
    prepares, atomic updates and recovery, and what a sweep may delete.
  \<^item> \<^verbatim>\<open>Lifecycle\<close>: the server as a whole, a step relation whose steps are whole runs of any program
    with any arguments, at any time, on rows read at any earlier time. \<^verbatim>\<open>Sample\<close>: concrete tables
    the theorems are applied to. This theory holds the properties that span components.

  \<^bold>\<open>What is shown.\<close> Whatever the server runs, the tables stay consistent, a finished build stays as it
  ended, a package has at most one unsettled build on a platform, a lease exists exactly while a
  build is active, a revoked worker stays revoked and gets no job, and a repeated report changes
  nothing. Of single programs: claiming implements the routing order and serves every worker that
  can build something; abandoning is atomic and keeps the retry budget; the reaper and the
  heartbeat touch exactly the rows they should; a report is taken only from the worker that
  runs the build; a publication owns exactly the staged files; dependents are released; a worker is
  approved only on evidence; a setting saved is the one that runs. Of the data: merged version
  bounds, sizes, durations, file names and stored columns mean what they were written from.

  \<^bold>\<open>Parameters.\<close> Code that is not in the repository is an argument: the comparison of versions and
  the parser of \<^verbatim>\<open>alpm-types\<close> (record \<open>alpm\<close>), floating point numbers (\<open>floats\<close>), the certificate
  authority (\<open>ca\<close>), \<^verbatim>\<open>serde_json\<close> and SHA-256 (\<open>json\<close>), the file test and the environment. The laws
  relied on are hypotheses of the theorems, and the witnesses instantiate them.

  \<^bold>\<open>Bounds.\<close> There is no fuel except where the source has it: queueing tries
  \<^verbatim>\<open>NUMBER_RACE_ATTEMPTS\<close> = 5 times, and the first attempt is shown to settle it inside a
  transaction. The loop over the terms of a duration ends by the length of the text, all other loops
  are structural. Integers are \<open>int\<close> or \<open>nat\<close> with the checks and saturations of the source written
  out; ids and timestamps do not reach the end of their types.

  \<^bold>\<open>Not modelled.\<close> The web frontend and the command line client; the HTTP layer around the programs;
  the certificate authority, archives, tar and gpg; chroots, sandboxes, container engines and
  makepkg, which act on the host; migrations, whose final schema is \<^verbatim>\<open>Db_Model\<close>; timers that only call
  the modelled programs. Messages for people are kept as data (who, which key, why), not as prose.
  Programs run one after the other: the interleaving modelled is that of whole programs on stale
  rows, as the database serialises their transactions.
\<close>

section \<open>A sample run\<close>

definition empty_server :: server where
  "empty_server = sample_server\<lparr>db := sample_tables\<lparr>builds := [], next_build_id := 1\<rparr>\<rparr>"

text \<open>A build is queued, a worker claims it, and the operator, who saw it run, cancels it.\<close>

definition run1 :: server where
  "run1 = snd (enqueue_build_if_missing 1 X86_64 ''2-1'' 900 Pending_Enqueued User empty_server)"

definition run2 :: server where
  "run2 = snd (claim_job 1 60 0 60 run1)"

definition run3 :: server where
  "run3 = snd (cancel_build ''lib'' (hd (builds (db run2))) run2)"

definition run4 :: server where
  "run4 = snd (reap_expired_builds 5000 3 (ages_all 600) run3)"

lemma sample_rows:
  "map (\<lambda>b. (b_id b, b_status b, b_worker_id b, b_end_reason b)) (builds (db run2)) = [(1, Active, Some 1, None)]"
  "map (\<lambda>b. (b_id b, b_status b, b_worker_id b, b_end_reason b)) (builds (db run3)) =
     [(1, Failed, Some 1, Some Canceled)]"
  "map (\<lambda>b. (b_id b, b_status b, b_worker_id b, b_end_reason b)) (builds (db run4)) =
     [(1, Failed, Some 1, Some Canceled)]"
  by code_simp+

lemma sample_steps:
  "initial (db empty_server)"
  "(system_step strokes whole_floats)\<^sup>*\<^sup>* (db empty_server, {}) (db run2, {})"
  "(system_step strokes whole_floats)\<^sup>*\<^sup>* (db run2, {}) (db run3, set (builds (db run2)))"
  "(system_step strokes whole_floats)\<^sup>*\<^sup>* (db run3, set (builds (db run2))) (db run4, set (builds (db run2)))"
proof -
  show "initial (db empty_server)" by code_simp
  have "system_step strokes whole_floats (db empty_server, {}) (db run1, {})"
    unfolding run1_def by (rule system_step.routine [OF routine_step.enqueueing [OF runs_snd]])
  moreover have "system_step strokes whole_floats (db run1, {}) (db run2, {})"
    unfolding run2_def by (rule system_step.routine [OF routine_step.claiming [OF runs_snd]])
  ultimately show "(system_step strokes whole_floats)\<^sup>*\<^sup>* (db empty_server, {}) (db run2, {})" by simp
  have "builds (db run2) \<noteq> []" using sample_rows(1) by auto
  then have "system_step strokes whole_floats (db run2, set (builds (db run2))) (db run3, set (builds (db run2)))"
    unfolding run3_def by (intro system_step.routine [OF routine_step.canceling [OF _ runs_snd]]) simp
  moreover have "system_step strokes whole_floats (db run2, {}) (db run2, {} \<union> set (builds (db run2)))"
    by (rule system_step.routine [OF routine_step.reading]) simp
  ultimately show "(system_step strokes whole_floats)\<^sup>*\<^sup>* (db run2, {}) (db run3, set (builds (db run2)))" by simp
  show "(system_step strokes whole_floats)\<^sup>*\<^sup>* (db run3, set (builds (db run2))) (db run4, set (builds (db run2)))"
    unfolding run4_def by (rule r_into_rtranclp, rule system_step.routine [OF routine_step.reaping [OF runs_snd]])
qed

section \<open>What holds whatever the server is asked to do\<close>



text \<open>C2: A build that has ended keeps its outcome: no later step, including one that acts on a row
  read before the build ended, changes its state or its end reason.\<close>

theorem outcome_is_final:
  assumes "initial d0" and "(system_step A F)\<^sup>*\<^sup>* (d0, {}) (d, H)"
    and "b \<in> set (builds d)" and "b_status b \<in> {Successful, Failed}"
    and "(system_step A F)\<^sup>*\<^sup>* (d, H) (d', H')" and "b' \<in> set (builds d')" and "b_id b' = b_id b"
  shows "b_status b' = b_status b \<and> b_end_reason b' = b_end_reason b"
  using row_followed [OF reachable_ok [OF assms(1,2)] assms(3,5-7)] assms(4) by (auto simp: later_def)

lemma run3_row: "\<exists>b. builds (db run3) = [b] \<and> b_id b = 1 \<and> b_status b = Failed \<and> b_end_reason b = Some Canceled"
  using sample_rows(2) by auto

theorem outcome_is_final_witness:
  "\<exists>b b'. builds (db run3) = [b] \<and> builds (db run4) = [b'] \<and> b_status b = Failed \<and>
     b_status b' = b_status b \<and> b_end_reason b' = b_end_reason b"
proof -
  obtain b where b: "builds (db run3) = [b]" "b_id b = 1" "b_status b = Failed" using run3_row by blast
  obtain b' where b': "builds (db run4) = [b']" "b_id b' = 1" using sample_rows(3) by auto
  have "b_status b' = b_status b \<and> b_end_reason b' = b_end_reason b"
    by (rule outcome_is_final [OF sample_steps(1) rtranclp_trans [OF sample_steps(2,3)] _ _ sample_steps(4)])
      (use b b' in auto)
  with b b' show ?thesis by auto
qed

text \<open>C3: There is never more than one unsettled build of a package on a platform, and build
  numbers are never shared within a package.\<close>

theorem one_unsettled_build:
  assumes "initial d0" and "(system_step A F)\<^sup>*\<^sup>* (d0, {}) (d, H)"
    and "a \<in> set (builds d)" "b \<in> set (builds d)" "b_pkg_id a = b_pkg_id b"
    and "b_number a = b_number b \<or>
      b_platform a = b_platform b \<and> is_in_progress (b_status a) \<and> is_in_progress (b_status b)"
  shows "a = b"
proof -
  have d: "db_ok d" by (rule system_okD(1) [OF reachable_ok [OF assms(1,2)]])
  note ok = db_okD(1) [OF d]
  show ?thesis using assms(6)
  proof
    assume "b_number a = b_number b"
    then have "b_id a = b_id b" using numbers_okD [OF ledger_okD(3) [OF ok], of a b] assms(3-5) by (simp add: ledger_def)
    then show ?thesis by (rule distinct_map_eq [OF db_okD(4) [OF d] assms(3,4)])
  next
    assume "b_platform a = b_platform b \<and> is_in_progress (b_status a) \<and> is_in_progress (b_status b)"
    then show ?thesis using ledger_ok_one_pending [OF ok, of a b] assms(3-5) by (simp add: ledger_def)
  qed
qed

theorem one_unsettled_build_witness:
  "\<exists>b. builds (db run2) = [b] \<and> is_in_progress (b_status b) \<and>
     (\<forall>a \<in> set (builds (db run2)). b_pkg_id a = b_pkg_id b \<and> b_number a = b_number b \<longrightarrow> a = b)"
proof -
  obtain b where "builds (db run2) = [b]" "b_status b = Active" using sample_rows(1) by auto
  then show ?thesis using one_unsettled_build [OF sample_steps(1,2)] by auto
qed



section \<open>Reports that arrive twice\<close>

text \<open>C20: Repeating an accepted success, cancellation or interruption is harmless however much
  later it arrives: as long as the build's row exists, whatever the server did in between (the
  publication may be under way, settled or failed by then), the repeat is acknowledged as already
  accepted, no row changes, and no second publication is started.\<close>

theorem repeated_report:
  assumes reach: "initial d0" "(system_step A F)\<^sup>*\<^sup>* (d0, {}) (db s, H)"
    and run: "complete wm m i report s = (Inr Accepted, t)" and out: "cr_outcome report \<noteq> Outcome_Failed"
    and between: "(system_step A F)\<^sup>*\<^sup>* (db t, H) (db u, H')"
    and found: "find_build_by_id i (db u) = Some b'" and up: "outage u = None"
  shows "\<exists>v. complete wm m i report u = (Inr AlreadyAccepted, v) \<and> db v = db u \<and>
    filter (\<lambda>e. e = PublishSpawned i) (effects v) = filter (\<lambda>e. e = PublishSpawned i) (effects u)"
proof -
  have ok: "system_ok (db s, H)" by (rule reachable_ok [OF reach])
  have "runs (complete wm m i report) (db s) (db t)" using run by (auto simp: runs_def)
  then have ok': "system_ok (db t, H)" by (rule system_step_ok [OF system_step.routine [OF routine_step.completing] ok])
  obtain b where b: "find_build_by_id i (db t) = Some b" "b_status b = fst (final_state (cr_outcome report))"
    "b_worker_id b = Some (w_id wm)" using row_isD [OF complete_Accepted(2) [OF run system_okD(1) [OF ok]]] .
  have l: "later b b'"
    using row_followed [OF ok' _ between, of b b'] find_build_by_id_Some [OF b(1)] find_build_by_id_Some [OF found] by simp
  have "b_end_reason b = None" if "b_status b = Publishing"
    using find_build_by_id_Some [OF b(1)] ledger_okD(2) [OF db_okD(1) [OF system_okD(1) [OF ok']]] that
    by (auto simp: rows_ok_def row_ok_def ledger_def)
  then show ?thesis unfolding complete_running [OF up found]
    using b(2,3) out l handed_over_moves
    by (cases "cr_outcome report") (auto simp: repeat_def Let_def later_def)
qed

text \<open>A worker reports a build twice, the second time after the publication has settled.\<close>

definition run5 :: server where
  "run5 = snd (complete sample_owner 3 1 (report_of Outcome_Succeeded) run2)"

definition run6 :: server where
  "run6 = snd (settle (hd (builds (db run5))) run5)"

lemma reported_rows:
  "fst (complete sample_owner 3 1 (report_of Outcome_Succeeded) run2) = Inr Accepted"
  "map b_status (builds (db run5)) = [Publishing]"
  "map_option b_status (find_build_by_id 1 (db run6)) = Some Successful"
  "outage run6 = None"
  by code_simp+

theorem repeated_report_witness:
  "\<exists>v. complete sample_owner 3 1 (report_of Outcome_Succeeded) run6 = (Inr AlreadyAccepted, v)"
proof -
  have run: "complete sample_owner 3 1 (report_of Outcome_Succeeded) run2 = (Inr Accepted, run5)"
    using reported_rows(1) unfolding run5_def by (metis prod.collapse)
  have "builds (db run5) \<noteq> []" using reported_rows(2) by auto
  then have "system_step strokes whole_floats (db run5, {} \<union> set (builds (db run5))) (db run6, {} \<union> set (builds (db run5)))"
    unfolding run6_def by (intro system_step.routine [OF routine_step.settling [OF _ runs_snd]]) simp
  moreover have "system_step strokes whole_floats (db run5, {}) (db run5, {} \<union> set (builds (db run5)))"
    by (rule system_step.routine [OF routine_step.reading]) simp
  ultimately have between: "(system_step strokes whole_floats)\<^sup>*\<^sup>* (db run5, {}) (db run6, {} \<union> set (builds (db run5)))"
    by simp
  obtain b where "find_build_by_id 1 (db run6) = Some b" using reported_rows(3) by auto
  then show ?thesis
    using repeated_report [OF sample_steps(1,2) run _ between _ reported_rows(4)] by (auto simp: report_of_def)
qed

section \<open>Workers\<close>

text \<open>C28: A revoked worker stays revoked, and is handed no build, whatever the server does short of an
  operator's approval: in particular when it registers again under any policy that approves
  workers on its own, comes back as the embedded worker, or keeps sending heartbeats.\<close>

theorem revoked_stays_revoked:
  assumes "initial d0" and "(system_step A F)\<^sup>*\<^sup>* (d0, {}) (d, H)"
    and "w \<in> set (workers d)" and "w_status w = Revoked"
    and "(routine_step A F)\<^sup>*\<^sup>* (d, H) (db s, H')"
  shows "(\<forall>w' \<in> set (workers (db s)). w_id w' = w_id w \<longrightarrow> w_status w' = Revoked) \<and>
    fst (claim_job (w_id w) ttl spill live s) \<noteq> Inr (Some b)"
proof -
  have ok: "system_ok (d, H)" by (rule reachable_ok [OF assms(1,2)])
  note reg = db_okD(6) [OF system_okD(1) [OF ok], unfolded registry_ok_iff]
  have "w_status v = Revoked" if "v \<in> set (workers d)" "w_id v = w_id w" for v
    using distinct_map_eq [OF _ that(1) assms(3) that(2)] reg assms(4) by simp
  then have "revoked_inv {w_id w} d" using reg assms(3) by (auto simp: revoked_inv_def)
  then have rev: "revoked_inv {w_id w} (db s)" using routine_steps_revoked [OF assms(5)] by simp
  have "(system_step A F)\<^sup>*\<^sup>* (d, H) (db s, H')"
    using assms(5) by (rule rtranclp_mono [THEN predicate2D, rotated]) (auto intro: system_step.routine)
  then have "db_ok (db s)" using system_steps_ok [OF _ ok] system_okD(1) by blast
  then have "fst (claim_job (w_id w) ttl spill live s) \<noteq> Inr (Some b)"
    using claim_approved [of s "w_id w" ttl spill live b] rev by (force simp: revoked_inv_def prod_eq_iff)
  with rev show ?thesis by (simp add: revoked_inv_def)
qed

text \<open>The worker of the sample run is revoked and registers again, with a token that approves new workers.\<close>

definition run7 :: server where
  "run7 = snd (revoke_worker 1 3 run2)"

definition run8 :: server where
  "run8 = snd (register whole_floats sample_json sample_ca (\<lambda>_. False) sample_policy 30 sample_request run7)"

lemma revoked_rows:
  "map_option w_status (find_worker_by_id 1 (db run7)) = Some Revoked"
  "find_worker_by_id 1 (db run8) \<noteq> None"
  by code_simp+

theorem revoked_stays_revoked_witness:
  "\<exists>w. find_worker_by_id 1 (db run8) = Some w \<and> w_status w = Revoked"
proof -
  have run7: "(system_step strokes whole_floats)\<^sup>*\<^sup>* (db empty_server, {}) (db run7, {})"
    using sample_steps(2)
    by (rule rtranclp.rtrancl_into_rtrancl)
      (unfold run7_def, rule system_step.routine [OF routine_step.revoking [OF runs_snd]])
  have run8: "(routine_step strokes whole_floats)\<^sup>*\<^sup>* (db run7, {}) (db run8, {})"
    unfolding run8_def by (rule r_into_rtranclp, rule routine_step.enrolling [OF runs_snd])
  obtain w where w: "find_worker_by_id 1 (db run7) = Some w" "w_status w = Revoked" using revoked_rows(1) by auto
  obtain v where v: "find_worker_by_id 1 (db run8) = Some v" using revoked_rows(2) by auto
  have mem: "w \<in> set (workers (db run7))" "w_id w = 1" "v \<in> set (workers (db run8))" "w_id v = 1"
    using find_Some_mem [OF w(1) [unfolded find_worker_by_id_def]] find_Some_mem [OF v [unfolded find_worker_by_id_def]]
    by simp_all
  show ?thesis using revoked_stays_revoked [OF sample_steps(1) run7 mem(1) w(2) run8] mem v by auto
qed

section \<open>Version constraints\<close>

text \<open>C38: Merging a bound into a conjunction loses and adds nothing: the merged conjunction admits exactly
  the versions that satisfied every bound before and the new one, and a merge is refused only
  when no version at all satisfies both.\<close>

theorem merge_bound_exact:
  assumes "alpm_ord A"
  shows "case merge_bound A bs name b of
      Inr bs' \<Rightarrow> admits A bs' v \<longleftrightarrow> admits A bs v \<and> is_satisfied_by A b v
    | Inl e \<Rightarrow> \<not> (admits A bs v \<and> is_satisfied_by A b v)"
  using merge_bound_Inr [OF assms] merge_bound_Inl [OF assms] by (auto split: sum.split)

theorem merge_bound_exact_witness:
  "merge_bound strokes [\<lparr>comparison = GreaterOrEqual, version = 2\<rparr>] ''lib'' \<lparr>comparison = Less, version = 5\<rparr> =
     Inr [\<lparr>comparison = GreaterOrEqual, version = 2\<rparr>, \<lparr>comparison = Less, version = 5\<rparr>] \<and>
   is_satisfied_by strokes \<lparr>comparison = GreaterOrEqual, version = 2\<rparr> 3 \<and>
   is_satisfied_by strokes \<lparr>comparison = Less, version = 5\<rparr> 3"
proof -
  let ?l = "\<lparr>comparison = GreaterOrEqual, version = 2::nat\<rparr>" and ?u = "\<lparr>comparison = Less, version = 5::nat\<rparr>"
  have m: "merge_bound strokes [?l] ''lib'' ?u = Inr [?l, ?u]" by code_simp
  have "is_satisfied_by strokes ?l 3 \<and> is_satisfied_by strokes ?u 3" by code_simp
  with m merge_bound_exact [OF strokes_ord, where bs = "[?l]" and name = "''lib''" and b = ?u and v = 3] show ?thesis by simp
qed

text \<open>C39: The dependencies a package declares, in any number of entries for the same name, are merged
  faithfully: every name is listed once, what is kept on a name admits exactly the versions
  that every entry for it admits, and parsing is refused only when the entries for some name
  admit no version at all.\<close>

theorem dependency_set_exact:
  assumes "alpm_ord A"
  shows "case dep_set_parse A raws of
      Inr ds \<Rightarrow> distinct (names ds) \<and> set (names ds) = (\<lambda>raw. dep_name (parse_dep raw)) ` set raws \<and>
        (\<forall>n v. admits A (bounds_on ds n) v \<longleftrightarrow> admits A (asked A raws n) v)
    | Inl e \<Rightarrow> \<exists>n. \<forall>v. \<not> admits A (asked A raws n) v"
proof -
  let ?ds = "\<lparr>names = [], constraints = Map.empty\<rparr>"
  have wf: "dep_set_wf ?ds" "bounds_on ?ds n = []" for n by (simp_all add: dep_set_wf_def bounds_on_def)
  show ?thesis
  proof (cases "dep_set_parse A raws")
    case (Inl e)
    then show ?thesis using dep_set_fold_Inl [OF assms wf(1)] by (simp add: dep_set_parse_def wf)
  next
    case (Inr ds)
    then have "dep_set_fold A ?ds raws = Inr ds" by (simp add: dep_set_parse_def)
    from dep_set_fold_sound [OF assms wf(1) this] Inr show ?thesis by (simp add: wf dep_set_wf_def)
  qed
qed

theorem dependency_set_exact_witness:
  "\<exists>ds. dep_set_parse strokes [''lib>=II'', ''foo'', ''lib<IIIII''] = Inr ds \<and> distinct (names ds) \<and>
     set (names ds) = {''lib'', ''foo''} \<and>
     (\<forall>v. admits strokes (bounds_on ds ''lib'') v \<longleftrightarrow>
        admits strokes (asked strokes [''lib>=II'', ''foo'', ''lib<IIIII''] ''lib'') v)"
proof -
  let ?raws = "[''lib>=II'', ''foo'', ''lib<IIIII'']"
  have "(case dep_set_parse strokes ?raws of Inr ds \<Rightarrow> True | Inl _ \<Rightarrow> False)" by code_simp
  then obtain ds where "dep_set_parse strokes ?raws = Inr ds" by (auto split: sum.splits)
  moreover have "(\<lambda>raw. dep_name (parse_dep raw)) ` set ?raws = {''lib'', ''foo''}" by code_simp
  ultimately show ?thesis using dependency_set_exact [OF strokes_ord, of ?raws] by simp
qed

text \<open>C40: The stored text of a declared dependency means what its bounds mean: a version satisfies the
  text exactly when it satisfies every bound that was merged.\<close>

theorem declared_constraint_means_bounds:
  assumes "alpm_display A" and "parse_version A ver = Some v" and "dep \<in> set (declared A ds)"
  shows "satisfies_constraint A ver (dep_constraint dep) \<longleftrightarrow> admits A (bounds_on ds (dep_name dep)) v"
proof -
  obtain n where n: "dep_name dep = n"
    "dep_constraint dep = (case constraints ds n of None \<Rightarrow> [] | Some bs \<Rightarrow> join_constraints A bs)"
    using assms(3) by (auto simp: declared_def)
  then have "dep_constraint dep = join_constraints A (bounds_on ds n)"
    by (simp add: bounds_on_def join_constraints_def split: option.split)
  then show ?thesis using satisfies_join_constraints [OF assms(1,2)] n(1) by simp
qed

theorem declared_constraint_means_bounds_witness:
  "declared strokes \<lparr>names = [''lib''], constraints = [''lib'' \<mapsto> [\<lparr>comparison = GreaterOrEqual, version = 2\<rparr>]]\<rparr> =
     [\<lparr>dep_name = ''lib'', dep_constraint = ''>=II''\<rparr>] \<and> \<not> satisfies_constraint strokes ''I'' ''>=II''"
proof -
  let ?ds = "\<lparr>names = [''lib''], constraints = [''lib'' \<mapsto> [\<lparr>comparison = GreaterOrEqual, version = 2\<rparr>]]\<rparr>"
  let ?dep = "\<lparr>dep_name = ''lib'', dep_constraint = ''>=II''\<rparr>"
  have d: "declared strokes ?ds = [?dep]" by code_simp
  have "parse_version strokes ''I'' = Some 1" "\<not> admits strokes (bounds_on ?ds ''lib'') 1" by code_simp+
  with d declared_constraint_means_bounds [OF strokes_display, of "''I''" 1 ?dep ?ds] show ?thesis by simp
qed

section \<open>Representations\<close>

text \<open>Every stored integer and every wire name stands for one state, trigger, end reason or platform
  at most, each of them reads back as itself, and anything else is refused rather than
  guessed.\<close>

theorem representations_round_trip:
  "(state_from_i32 n = Some st \<longleftrightarrow> n = state_as_i32 st) \<and>
   (trigger_from_i32 n = Some tr \<longleftrightarrow> n = trigger_as_i32 tr) \<and>
   (reason_from_i32 n = Some re \<longleftrightarrow> n = reason_as_i32 re) \<and>
   (from_key k = Some st \<longleftrightarrow> k = key st) \<and>
   (platform_from_str k = Inr pf \<longleftrightarrow> k = platform_as_str pf)"
  using state_codec.dec_Some_iff trigger_codec.dec_Some_iff reason_codec.dec_Some_iff key_codec.dec_Some_iff
    platform_codec.dec_Some_iff [of k pf]
  by (auto simp: platform_of_def split: sum.splits)

text \<open>A list of state keys, joined with commas, reads back as the states in order, and a list with one
  unknown key is refused with an error that names it.\<close>

theorem parse_keys_round_trip:
  "parse_keys (join '','' (map key states)) = Inr states \<and>
   (k \<notin> set (map key ALL_STATES) \<and> clean_entry CHR '','' k \<longrightarrow>
      parse_keys (join '','' (map key states @ [k])) = Inl (NotABuildState k (map key ALL_STATES)))"
proof -
  have entries: "filter (\<lambda>k. k \<noteq> []) (map trim (split_on CHR '','' (join '','' ks))) = ks"
    if "\<forall>k \<in> set ks. clean_entry CHR '','' k" for ks
    using that worker_list.entries_read_back [of ks]
    by (cases "ks = []") (auto simp: clean_entry_def filter_id_conv)
  have clean: "clean_entry CHR '','' (key st)" for st
    using key_clean [of st] by (simp add: clean_entry_def trim_trimmed)
  have "parse_keys (join '','' (map key states)) = Inr states"
    using entries [of "map key states"] clean by (simp add: parse_keys_eq_Inr)
  moreover have "parse_keys (join '','' (map key states @ [k])) = Inl (NotABuildState k (map key ALL_STATES))"
    if "k \<notin> set (map key ALL_STATES)" "clean_entry CHR '','' k"
  proof -
    have "from_key k = None" using that(1) key_codec.dec_None_iff [of k] by (auto simp: image_iff)
    moreover have "collect_results (map Inr xs @ [Inl e]) = Inl e" for xs :: "build_state list" and e
      by (induction xs) auto
    ultimately show ?thesis unfolding parse_keys_def
      using entries [of "map key states @ [k]"] clean that(2) by (simp add: o_def)
  qed
  ultimately show ?thesis by blast
qed

theorem parse_keys_round_trip_witness:
  "parse_keys ''active,failed'' = Inr [Active, Failed] \<and>
   parse_keys ''active,done'' = Inl (NotABuildState ''done'' (map key ALL_STATES))"
proof -
  have "''done'' \<notin> set (map key ALL_STATES)" "clean_entry CHR '','' ''done''" by code_simp+
  with parse_keys_round_trip [of "[Active, Failed]" "''done''"] parse_keys_round_trip [of "[Active]" "''done''"]
  show ?thesis by simp
qed

section \<open>What a package shows\<close>

text \<open>The status a package shows is that of one of its newest builds, and of those the most pressing:
  anything running or queued before a failure, a failure before a success. It is shown as long
  as there is a build at all, and does not depend on the order the rows come in.\<close>

theorem combined_status_most_pressing:
  "case combined_status states of
      None \<Rightarrow> states = []
    | Some st \<Rightarrow> st \<in> set states \<and>
        (Active \<in> set states \<longrightarrow> st = Active) \<and>
        ((\<exists>s \<in> set states. is_in_progress s) \<longrightarrow> is_in_progress st) \<and>
        (Failed \<in> set states \<longrightarrow> st \<noteq> Successful) \<and>
        (\<forall>others. set others = set states \<longrightarrow> combined_status others = Some st)"
proof (cases "combined_status states")
  case None
  then show ?thesis by (simp add: combined_status_def)
next
  case (Some st)
  have inj: "inj_on precedence (set states)"
  proof (rule inj_onI)
    fix a b :: build_state assume "precedence a = precedence b"
    then show "a = b" by (cases a; cases b) (simp_all add: precedence_def PRECEDENCE_def)
  qed
  have mem: "st \<in> set states" and least: "\<forall>s \<in> set states. precedence st \<le> precedence s"
    using Some min_by_key_mem min_by_key_le unfolding combined_status_def by fastforce+
  have "combined_status others = Some st" if "set others = set states" for others
    using mbk.pick_unique_rank [OF inj that [symmetric]] Some by (simp add: combined_status_def)
  moreover have "st = Active" if "Active \<in> set states"
    using bspec [OF least that] by (cases st) (simp_all add: precedence_def PRECEDENCE_def)
  moreover have "is_in_progress st" if "s \<in> set states" "is_in_progress s" for s
    using bspec [OF least that(1)] that(2) by (cases st; cases s) (simp_all add: precedence_def PRECEDENCE_def)
  moreover have "st \<noteq> Successful" if "Failed \<in> set states"
    using bspec [OF least that] by (auto simp: precedence_def PRECEDENCE_def)
  ultimately show ?thesis using Some mem by auto
qed

theorem combined_status_most_pressing_witness:
  "combined_status [Successful, Enqueued, Failed] = Some Enqueued \<and>
   combined_status [Failed, Successful, Enqueued] = Some Enqueued"
proof -
  have "combined_status [Successful, Enqueued, Failed] = Some Enqueued" by code_simp
  moreover have "set [Failed, Successful, Enqueued] = set [Successful, Enqueued, Failed]" by auto
  ultimately show ?thesis using combined_status_most_pressing [of "[Successful, Enqueued, Failed]"] by simp
qed

text \<open>The version of a listing, computed as a correlated subquery, is the version the dependency and
  update checks compute with a query of its own, over all platforms; both change nothing.\<close>

theorem latest_version_queries_agree:
  "case latest_successful_version (p_id p) None s of
      (Inl e, t) \<Rightarrow> db t = db s
    | (Inr v, t) \<Rightarrow> v = latest_successful_version_expr (db s) p \<and> db t = db s"
proof (rule outcomeI)
  fix e t assume "latest_successful_version (p_id p) None s = (Inl e, t)"
  then show "db t = db s" unfolding latest_successful_version_def dbind_Inl
    by (auto simp: ret_def dest: select_cases)
next
  fix v t assume "latest_successful_version (p_id p) None s = (Inr v, t)"
  then have "v = (case newest_success (p_id p) None (db s) of None \<Rightarrow> None | Some b \<Rightarrow> known_version (b_version b))"
    "db t = db s" by (auto simp: latest_successful_version_def db_simps)
  then show "v = latest_successful_version_expr (db s) p \<and> db t = db s"
    by (simp add: latest_successful_version_expr_def newest_success_def known_version_def split: option.split)
qed

section \<open>Settings and columns\<close>

text \<open>A size is written so that it reads back as the same number of bytes, for every \<^verbatim>\<open>u64\<close>.\<close>

theorem size_round_trip:
  assumes "n \<le> u64_MAX"
  shows "parse_size (format_size n) = Some n"
  by (rule parse_format_size [OF assms])

theorem size_round_trip_witness: "parse_size ''3G'' = Some 3221225472"
proof -
  have "char_of (51 :: nat) = CHR ''3''" by code_simp
  then have "format_size 3221225472 = ''3G''"
    by (simp add: format_size_def format_with_def SIZE_UNITS_def show_nat.simps digit_char_def)
  with size_round_trip [of 3221225472] show ?thesis by (simp add: u64_MAX_def)
qed

text \<open>A duration reads as the sum of its terms, in any order and with any of the names of a unit, as
  long as the sum fits a \<^verbatim>\<open>u64\<close>; in particular a duration that was written reads back as itself.\<close>

theorem duration_sums_terms:
  assumes "ts \<noteq> []" "\<forall>t \<in> set ts. unit_seconds (snd t) \<noteq> None" "sum_list (map term_seconds ts) \<le> u64_MAX"
    and "n \<le> u64_MAX"
  shows "parse_duration (concat (map term_text ts)) = Some (sum_list (map term_seconds ts)) \<and>
    parse_duration (format_duration n) = Some n"
  using parse_duration_terms [OF assms(1-3)] parse_format_duration [OF assms(4)] by blast

theorem duration_sums_terms_witness:
  "parse_duration ''1h30min'' = Some 5400 \<and> parse_duration (format_duration 90) = Some 90"
proof -
  have "concat (map term_text [(1, ''h''), (30, ''min'')]) = ''1h30min''"
    "sum_list (map term_seconds [(1, ''h''), (30, ''min'')]) = 5400" by code_simp+
  moreover have "unit_seconds ''h'' \<noteq> None" "unit_seconds ''min'' \<noteq> None" by code_simp+
  ultimately show ?thesis using duration_sums_terms [of "[(1, ''h''), (30, ''min'')]" 90] by (simp add: u64_MAX_def)
qed

text \<open>The settings the policy is read from never leave its fields out of range: a lease, delay or
  timeout is a non-negative \<^verbatim>\<open>i64\<close>, the reaper never spins, and the attempts fit an \<^verbatim>\<open>i32\<close>,
  whatever text the settings hold.\<close>

theorem policy_in_range:
  "let p = from_lookup lookup in
     0 \<le> wp_lease_ttl_secs p \<and> wp_lease_ttl_secs p \<le> i64_MAX \<and>
     0 \<le> wp_spill_delay_secs p \<and> wp_spill_delay_secs p \<le> i64_MAX \<and>
     0 \<le> wp_liveness_timeout_secs p \<and> wp_liveness_timeout_secs p \<le> i64_MAX \<and>
     0 \<le> wp_reap_backstop_grace_secs p \<and> wp_reap_backstop_grace_secs p \<le> i64_MAX \<and>
     1 \<le> wp_reap_interval_secs p \<and>
     - i32_MAX - 1 \<le> wp_max_attempts p \<and> wp_max_attempts p \<le> i32_MAX"
  by (simp add: from_lookup_def Let_def policy_seconds_def i64_MAX_def i32_MAX_def)

text \<open>Every list column reads back what was written to it: the build flags, the names of a worker's
  lists and the licenses; and what is read, from any text at all, is written and read again
  unchanged.\<close>

theorem list_columns_round_trip:
  assumes "\<forall>e \<in> set flags. clean_entry CHR '';'' e" "\<forall>e \<in> set ns. clean_entry CHR '','' e"
  shows "build_flags_from_str (build_flags_display flags) = flags \<and>
    worker_list_from_str (worker_list_display ns) = ns \<and> licenses_from_str (licenses_display ns) = ns \<and>
    build_flags_from_str (build_flags_display (build_flags_from_str txt)) = build_flags_from_str txt \<and>
    worker_list_from_str (worker_list_display (worker_list_from_str txt)) = worker_list_from_str txt \<and>
    licenses_from_str (licenses_display (licenses_from_str txt)) = licenses_from_str txt"
  using build_flags.read_back [OF assms(1)] worker_list.read_back [OF assms(2)] licenses.read_back [OF assms(2)]
    build_flags.read_stable worker_list.read_stable licenses.read_stable
  by (simp add: build_flags_from_str_def build_flags_display_def worker_list_from_str_def worker_list_display_def
      licenses_from_str_def licenses_display_def)

theorem list_columns_round_trip_witness:
  "build_flags_from_str ''--nocheck;-L'' = [''--nocheck'', ''-L''] \<and> licenses_from_str ''MIT, GPL'' = [''MIT'', ''GPL'']"
proof -
  have c: "\<forall>e \<in> set [''--nocheck'', ''-L'']. clean_entry CHR '';'' e" "\<forall>e \<in> set [''MIT'', ''GPL'']. clean_entry CHR '','' e"
    by code_simp+
  have "build_flags_display [''--nocheck'', ''-L''] = ''--nocheck;-L''" "licenses_display [''MIT'', ''GPL''] = ''MIT, GPL''"
    by code_simp+
  with list_columns_round_trip [OF c, of "[]"] show ?thesis by simp
qed

text \<open>A package's platforms are a set in the database: what is stored is sorted without repetition,
  depends only on which platforms were given, and reads back as itself.\<close>

theorem platforms_column:
  "platforms_from_str (platforms_display ps) = platforms_new ps \<and>
   set (platforms_new ps) = set ps \<and> distinct (map platform_as_str (platforms_new ps)) \<and>
   sorted (map platform_as_str (platforms_new ps)) \<and>
   (set ps = set qs \<longrightarrow> platforms_new ps = platforms_new qs)"
  by (intro conjI impI platforms_read_back set_platforms_new platforms_new_order platforms_new_cong)

theorem platforms_column_witness:
  "platforms_new [X86_64, Aarch64, X86_64] = platforms_new [Aarch64, X86_64]"
proof -
  have "set [X86_64, Aarch64, X86_64] = set [Aarch64, X86_64]" by auto
  with platforms_column [of "[X86_64, Aarch64, X86_64]" "[Aarch64, X86_64]"] show ?thesis by blast
qed

end
